(* ===== verification/Rust_Prelude.thy ===== *)
theory Rust_Prelude
  imports Main "HOL-Library.List_Lexorder" "HOL-Library.Char_ord" "HOL-Library.Code_Target_Nat"
begin

text \<open>
  The prelude of the development: what the Rust sources use of their language and of its
  standard library. Fallible functions (\<^verbatim>\<open>anyhow::Result\<close>) return \<open>error + 'a\<close>, with
  \<open>Inl\<close> for the error; the question-mark operator is \<open>ebind\<close>, \<open>bail!\<close> under a condition
  is \<open>require\<close>, a \<open>for\<close> loop with early return is \<open>for_each\<close>. A \<open>u64\<close> is a natural number
  with the overflow check of \<open>checked_add\<close> written out. A \<open>String\<close> is its list of UTF-8
  bytes, so \<open>len\<close> is \<open>length\<close> and the byte order of \<open>str\<close> is the lexicographic order of
  lists; \<open>utf8_chars\<close> is the \<open>chars\<close> iterator.
\<close>

section \<open>Results\<close>

datatype error =
    Bail string    \<comment> \<open>\<open>anyhow::bail!\<close> with the constant part of its message\<close>
  | Io string      \<comment> \<open>a failing system call, with the operation's name\<close>
  | Decode string  \<comment> \<open>a value that does not deserialize\<close>
  | Panic string   \<comment> \<open>\<open>expect\<close> on an absent value: the thread would panic\<close>

type_synonym 'a result = "error + 'a"

named_theorems result_iff \<open>when a fallible computation returns a value\<close>

definition ebind :: "'e + 'a \<Rightarrow> ('a \<Rightarrow> 'e + 'b) \<Rightarrow> 'e + 'b" where
  "ebind r f = (case r of Inl e \<Rightarrow> Inl e | Inr x \<Rightarrow> f x)"

definition require :: "bool \<Rightarrow> 'e \<Rightarrow> 'e + unit" where
  "require b e = (if b then Inr () else Inl e)"

definition ok_or :: "'a option \<Rightarrow> 'e \<Rightarrow> 'e + 'a" where
  "ok_or x e = (case x of None \<Rightarrow> Inl e | Some y \<Rightarrow> Inr y)"

definition if_some :: "('a \<Rightarrow> 'e + unit) \<Rightarrow> 'a option \<Rightarrow> 'e + unit" where
  "if_some f x = (case x of None \<Rightarrow> Inr () | Some y \<Rightarrow> f y)"

definition map_transpose :: "('a \<Rightarrow> 'e + 'b) \<Rightarrow> 'a option \<Rightarrow> 'e + 'b option" where
  "map_transpose f x =
     (case x of None \<Rightarrow> Inr None | Some y \<Rightarrow> (case f y of Inl e \<Rightarrow> Inl e | Inr z \<Rightarrow> Inr (Some z)))"

primrec for_each :: "('a \<Rightarrow> 'e + unit) \<Rightarrow> 'a list \<Rightarrow> 'e + unit" where
  "for_each f [] = Inr ()"
| "for_each f (x # xs) = ebind (f x) (\<lambda>_. for_each f xs)"

primrec map_result :: "('a \<Rightarrow> 'e + 'b) \<Rightarrow> 'a list \<Rightarrow> 'e + 'b list" where
  "map_result f [] = Inr []"
| "map_result f (x # xs) = ebind (f x) (\<lambda>y. ebind (map_result f xs) (\<lambda>ys. Inr (y # ys)))"

definition is_ok :: "'e + 'a \<Rightarrow> bool" where
  "is_ok r = (case r of Inl _ \<Rightarrow> False | Inr _ \<Rightarrow> True)"

lemma ebind_Inl [simp]: "ebind (Inl e) f = Inl e"
  by (simp add: ebind_def)

lemma ebind_Inr [simp]: "ebind (Inr x) f = f x"
  by (simp add: ebind_def)

lemma require_True [simp]: "require True e = Inr ()"
  by (simp add: require_def)

lemma require_False [simp]: "require False e = Inl e"
  by (simp add: require_def)

lemma ok_or_simps [simp]: "ok_or None e = Inl e" "ok_or (Some x) e = Inr x"
  by (simp_all add: ok_or_def)

lemma if_some_simps [simp]: "if_some f None = Inr ()" "if_some f (Some x) = f x"
  by (simp_all add: if_some_def)

lemma map_transpose_simps [simp]:
  "map_transpose f None = Inr None"
  "map_transpose f (Some x) = (case f x of Inl e \<Rightarrow> Inl e | Inr y \<Rightarrow> Inr (Some y))"
  by (simp_all add: map_transpose_def)

lemma is_ok_simps [simp]: "\<not> is_ok (Inl e)" "is_ok (Inr x)"
  by (simp_all add: is_ok_def)

lemma ebind_eq_Inr [result_iff]: "ebind r f = Inr y \<longleftrightarrow> (\<exists>x. r = Inr x \<and> f x = Inr y)"
  by (cases r) auto

lemma require_eq_Inr [result_iff]: "require b e = Inr u \<longleftrightarrow> b"
  by (simp add: require_def)

lemma ok_or_eq_Inr [result_iff]: "ok_or x e = Inr y \<longleftrightarrow> x = Some y"
  by (cases x) auto

lemma if_some_eq_Inr [result_iff]: "if_some f x = Inr u \<longleftrightarrow> (\<forall>y. x = Some y \<longrightarrow> f y = Inr ())"
  by (cases x) auto

lemma map_transpose_eq_Inr [result_iff]:
  "map_transpose f x = Inr y \<longleftrightarrow>
     (x = None \<and> y = None \<or> (\<exists>z w. x = Some z \<and> f z = Inr w \<and> y = Some w))"
  by (cases x) (auto split: sum.splits)

lemma for_each_eq_Inr [result_iff]:
  "for_each f xs = Inr u \<longleftrightarrow> (\<forall>x \<in> set xs. f x = Inr ())"
  by (induction xs) (auto simp: result_iff)

lemma map_result_eq_Inr:
  "map_result f xs = Inr ys \<longleftrightarrow> list_all2 (\<lambda>x y. f x = Inr y) xs ys"
  by (induction xs arbitrary: ys) (auto simp: result_iff list_all2_Cons1)

lemma ebind_cong [fundef_cong]:
  "\<lbrakk> r = r'; \<And>x. r' = Inr x \<Longrightarrow> f x = f' x \<rbrakk> \<Longrightarrow> ebind r f = ebind r' f'"
  by (cases r') simp_all

lemma for_each_cong [fundef_cong]:
  "\<lbrakk> xs = ys; \<And>x. x \<in> set ys \<Longrightarrow> f x = g x \<rbrakk> \<Longrightarrow> for_each f xs = for_each g ys"
proof (induction ys arbitrary: xs)
  case (Cons y ys)
  then show ?case by auto
qed simp

text \<open>\<open>result_le r r'\<close>: \<open>r'\<close> returns the value of \<open>r\<close> whenever \<open>r\<close> returns one.\<close>

definition result_le :: "'e + 'a \<Rightarrow> 'e + 'a \<Rightarrow> bool" where
  "result_le r r' \<longleftrightarrow> (\<forall>x. r = Inr x \<longrightarrow> r' = Inr x)"

named_theorems result_mono \<open>fallible computations are monotone in their parts\<close>

lemma result_leD: "result_le r r' \<Longrightarrow> r = Inr x \<Longrightarrow> r' = Inr x"
  by (simp add: result_le_def)

lemma result_le_refl [result_mono]: "result_le r r"
  by (simp add: result_le_def)

lemma result_le_ebind [result_mono]:
  "\<lbrakk> result_le r r'; \<And>x. result_le (f x) (f' x) \<rbrakk> \<Longrightarrow> result_le (ebind r f) (ebind r' f')"
  by (auto simp: result_le_def ebind_eq_Inr)

lemma result_le_for_each [result_mono]:
  "(\<And>x. result_le (f x) (f' x)) \<Longrightarrow> result_le (for_each f xs) (for_each f' xs)"
  by (auto simp: result_le_def for_each_eq_Inr)

lemma result_le_if_some [result_mono]:
  "(\<And>x. result_le (f x) (f' x)) \<Longrightarrow> result_le (if_some f y) (if_some f' y)"
  by (auto simp: result_le_def if_some_eq_Inr)

lemma result_le_if [result_mono]:
  "\<lbrakk> result_le a a'; result_le b b' \<rbrakk> \<Longrightarrow> result_le (if c then a else b) (if c then a' else b')"
  by simp

lemma result_le_option [result_mono]:
  "\<lbrakk> result_le a a'; \<And>x. result_le (f x) (f' x) \<rbrakk>
    \<Longrightarrow> result_le (case y of None \<Rightarrow> a | Some x \<Rightarrow> f x) (case y of None \<Rightarrow> a' | Some x \<Rightarrow> f' x)"
  by (cases y) simp_all

lemma result_le_prod [result_mono]:
  "(\<And>x y. result_le (f x y) (f' x y)) \<Longrightarrow> result_le (case p of (x, y) \<Rightarrow> f x y) (case p of (x, y) \<Rightarrow> f' x y)"
  by (cases p) simp

lemma result_le_ok_or:
  "(\<And>x. y = Some x \<Longrightarrow> y' = Some x) \<Longrightarrow> result_le (ok_or y e) (ok_or y' e)"
  by (auto simp: result_le_def ok_or_eq_Inr)

section \<open>Unsigned 64-bit arithmetic\<close>

abbreviation u64_bound :: nat where
  "u64_bound \<equiv> 18446744073709551616"

definition checked_add :: "nat \<Rightarrow> nat \<Rightarrow> nat option" where
  "checked_add a b = (if a + b < u64_bound then Some (a + b) else None)"

lemma checked_add_eq_Some [result_iff]:
  "checked_add a b = Some c \<longleftrightarrow> c = a + b \<and> a + b < u64_bound"
  by (auto simp: checked_add_def)

section \<open>Bytes, characters and strings\<close>

definition byte :: "char \<Rightarrow> nat" where
  "byte c = of_char c"

definition is_ascii_digit :: "char \<Rightarrow> bool" where
  "is_ascii_digit c \<longleftrightarrow> 48 \<le> byte c \<and> byte c \<le> 57"

definition is_ascii_lowercase :: "char \<Rightarrow> bool" where
  "is_ascii_lowercase c \<longleftrightarrow> 97 \<le> byte c \<and> byte c \<le> 122"

definition is_ascii_uppercase :: "char \<Rightarrow> bool" where
  "is_ascii_uppercase c \<longleftrightarrow> 65 \<le> byte c \<and> byte c \<le> 90"

definition is_ascii_hexdigit :: "char \<Rightarrow> bool" where
  "is_ascii_hexdigit c \<longleftrightarrow>
     is_ascii_digit c \<or> 97 \<le> byte c \<and> byte c \<le> 102 \<or> 65 \<le> byte c \<and> byte c \<le> 70"

definition is_ascii_control :: "char \<Rightarrow> bool" where
  "is_ascii_control c \<longleftrightarrow> byte c < 32 \<or> byte c = 127"

text \<open>The scalar values of a UTF-8 string, as \<open>str::chars\<close> yields them.\<close>

fun utf8_chars :: "string \<Rightarrow> nat list" where
  "utf8_chars [] = []"
| "utf8_chars (a # r) =
     (if byte a < 128 then byte a # utf8_chars r
      else if byte a < 224 then
        (case r of b # r1 \<Rightarrow> ((byte a - 192) * 64 + (byte b - 128)) # utf8_chars r1
         | [] \<Rightarrow> [byte a])
      else if byte a < 240 then
        (case r of b # c # r2 \<Rightarrow>
             ((byte a - 224) * 4096 + (byte b - 128) * 64 + (byte c - 128)) # utf8_chars r2
         | _ \<Rightarrow> [byte a])
      else
        (case r of b # c # d # r3 \<Rightarrow>
             ((byte a - 240) * 262144 + (byte b - 128) * 4096 + (byte c - 128) * 64
               + (byte d - 128)) # utf8_chars r3
         | _ \<Rightarrow> [byte a]))"

definition utf8_encode :: "nat \<Rightarrow> string" where
  "utf8_encode c =
     (if c < 128 then [char_of c]
      else if c < 2048 then [char_of (192 + c div 64), char_of (128 + c mod 64)]
      else if c < 65536 then
        [char_of (224 + c div 4096), char_of (128 + c div 64 mod 64), char_of (128 + c mod 64)]
      else
        [char_of (240 + c div 262144), char_of (128 + c div 4096 mod 64),
         char_of (128 + c div 64 mod 64), char_of (128 + c mod 64)])"

text \<open>
  The invariant of \<open>str\<close>: the bytes are the encodings of their own scalar values (code points
  below \<open>0x110000\<close> that are not surrogates).
\<close>

definition is_scalar :: "nat \<Rightarrow> bool" where
  "is_scalar c \<longleftrightarrow> c < 55296 \<or> 57344 \<le> c \<and> c < 1114112"

definition valid_utf8 :: "string \<Rightarrow> bool" where
  "valid_utf8 s \<longleftrightarrow>
     concat (map utf8_encode (utf8_chars s)) = s \<and> list_all is_scalar (utf8_chars s)"

lemma valid_utf8_inj:
  "\<lbrakk> valid_utf8 s; valid_utf8 t; utf8_chars s = utf8_chars t \<rbrakk> \<Longrightarrow> s = t"
  by (metis valid_utf8_def)

lemma utf8_chars_ascii: "list_all (\<lambda>c. byte c < 128) s \<Longrightarrow> utf8_chars s = map byte s"
  by (induction s) simp_all

lemma valid_utf8_ascii:
  assumes a: "list_all (\<lambda>c. byte c < 128) s"
  shows "valid_utf8 s"
proof -
  have "concat (map utf8_encode (map byte s)) = s"
    using a by (induction s) (simp_all add: utf8_encode_def byte_def)
  moreover have "list_all is_scalar (map byte s)"
    using a by (induction s) (simp_all add: is_scalar_def)
  ultimately show ?thesis by (simp only: valid_utf8_def utf8_chars_ascii [OF a])
qed

text \<open>\<open>char::is_control\<close> (general category Cc) and \<open>char::is_whitespace\<close> (White\_Space).\<close>

definition is_control :: "nat \<Rightarrow> bool" where
  "is_control c \<longleftrightarrow> c < 32 \<or> 127 \<le> c \<and> c < 160"

definition is_whitespace :: "nat \<Rightarrow> bool" where
  "is_whitespace c \<longleftrightarrow>
     9 \<le> c \<and> c \<le> 13 \<or> c = 32 \<or> c = 133 \<or> c = 160 \<or> c = 5760 \<or> 8192 \<le> c \<and> c \<le> 8202
     \<or> c = 8232 \<or> c = 8233 \<or> c = 8239 \<or> c = 8287 \<or> c = 12288"

definition trim_chars :: "nat list \<Rightarrow> nat list" where
  "trim_chars cs = rev (dropWhile is_whitespace (rev (dropWhile is_whitespace cs)))"

definition is_trimmed :: "string \<Rightarrow> bool" where
  "is_trimmed s \<longleftrightarrow> trim_chars (utf8_chars s) = utf8_chars s"

definition has_control :: "string \<Rightarrow> bool" where
  "has_control s \<longleftrightarrow> list_ex is_control (utf8_chars s)"

primrec strip_prefix :: "string \<Rightarrow> string \<Rightarrow> string option" where
  "strip_prefix [] s = Some s"
| "strip_prefix (p # ps) s =
     (case s of [] \<Rightarrow> None | c # cs \<Rightarrow> if c = p then strip_prefix ps cs else None)"

primrec split_once :: "char \<Rightarrow> string \<Rightarrow> (string \<times> string) option" where
  "split_once d [] = None"
| "split_once d (c # cs) =
     (if c = d then Some ([], cs)
      else (case split_once d cs of None \<Rightarrow> None | Some (l, r) \<Rightarrow> Some (c # l, r)))"

primrec split_on :: "char \<Rightarrow> string \<Rightarrow> string list" where
  "split_on d [] = [[]]"
| "split_on d (c # cs) =
     (if c = d then [] # split_on d cs
      else (case split_on d cs of [] \<Rightarrow> [[c]] | w # ws \<Rightarrow> (c # w) # ws))"

text \<open>\<open>str::splitn\<close>: at most \<open>n\<close> pieces, the last one unsplit.\<close>

fun splitn :: "nat \<Rightarrow> char \<Rightarrow> string \<Rightarrow> string list" where
  "splitn 0 d s = []"
| "splitn (Suc 0) d s = [s]"
| "splitn (Suc (Suc n)) d s =
     (case split_once d s of None \<Rightarrow> [s] | Some (l, r) \<Rightarrow> l # splitn (Suc n) d r)"

lemma strip_prefix_eq_Some: "strip_prefix p s = Some r \<longleftrightarrow> s = p @ r"
  by (induction p arbitrary: s) (auto split: list.splits)

section \<open>Unix paths\<close>

text \<open>
  \<open>Path::components\<close>: repeated separators and inner \<open>.\<close> segments vanish, a leading \<open>.\<close> of a
  relative path stays. Two paths are equal when their components are.
\<close>

datatype path_component = RootDir | CurDir | ParentDir | Normal string

fun normal_components :: "string list \<Rightarrow> path_component list" where
  "normal_components [] = []"
| "normal_components (w # ws) =
     (if w = [] \<or> w = ''.'' then normal_components ws
      else (if w = ''..'' then ParentDir else Normal w) # normal_components ws)"

definition path_is_absolute :: "string \<Rightarrow> bool" where
  "path_is_absolute p = (case p of [] \<Rightarrow> False | c # _ \<Rightarrow> c = CHR ''/'')"

definition path_components :: "string \<Rightarrow> path_component list" where
  "path_components p =
     (let ws = split_on (CHR ''/'') p
      in if path_is_absolute p then RootDir # normal_components ws
         else (if ws \<noteq> [] \<and> hd ws = ''.'' then [CurDir] else []) @ normal_components ws)"

definition path_eq :: "string \<Rightarrow> string \<Rightarrow> bool" where
  "path_eq p q \<longleftrightarrow> path_components p = path_components q"

section \<open>Decimal rendering of unsigned integers\<close>

definition digit_char :: "nat \<Rightarrow> char" where
  "digit_char n = char_of (48 + n)"

fun decimal :: "nat \<Rightarrow> string" where
  "decimal n = (if n < 10 then [digit_char n] else decimal (n div 10) @ [digit_char (n mod 10)])"

declare decimal.simps [simp del]

definition decimal_reading :: "string \<Rightarrow> nat" where
  "decimal_reading s = foldl (\<lambda>a c. a * 10 + (byte c - 48)) 0 s"

lemma byte_char_of [simp]: "n < 256 \<Longrightarrow> byte (char_of n) = n"
  by (simp add: byte_def)

lemma byte_digit_char [simp]: "n < 10 \<Longrightarrow> byte (digit_char n) = 48 + n"
  by (simp add: digit_char_def)

lemma decimal_reading_decimal [simp]: "decimal_reading (decimal n) = n"
proof (induction n rule: decimal.induct)
  case (1 n)
  have "decimal_reading (s @ [c]) = decimal_reading s * 10 + (byte c - 48)" for s c
    by (simp add: decimal_reading_def)
  with 1 show ?case
    by (subst decimal.simps) (simp add: decimal_reading_def)
qed

lemma is_ascii_digit_digit_char [simp]: "n < 10 \<Longrightarrow> is_ascii_digit (digit_char n)"
  by (simp add: is_ascii_digit_def)

lemma decimal_digits: "list_all is_ascii_digit (decimal n)"
proof (induction n rule: decimal.induct)
  case (1 n)
  then show ?case by (subst decimal.simps) simp
qed

lemma decimal_nonempty: "decimal n \<noteq> []"
  by (subst decimal.simps) simp

lemma decimal_inj: "decimal m = decimal n \<longleftrightarrow> m = n"
  by (metis decimal_reading_decimal)

lemma six_bit_digits:
  fixes c :: nat
  shows "c div 4096 * 4096 + c div 64 mod 64 * 64 + c mod 64 = c"
    and "c div 262144 * 262144 + c div 4096 mod 64 * 4096 + c div 64 mod 64 * 64 + c mod 64 = c"
proof -
  have "c div 64 div 64 = c div 4096" "c div 4096 div 64 = c div 262144" by (simp_all flip: div_mult2_eq)
  then have "c div 4096 * 64 + c div 64 mod 64 = c div 64" "c div 262144 * 64 + c div 4096 mod 64 = c div 4096"
    "c div 64 * 64 + c mod 64 = c"
    using div_mult_mod_eq [of "c div 64" 64] div_mult_mod_eq [of "c div 4096" 64] by simp_all
  then show "c div 4096 * 4096 + c div 64 mod 64 * 64 + c mod 64 = c"
    "c div 262144 * 262144 + c div 4096 mod 64 * 4096 + c div 64 mod 64 * 64 + c mod 64 = c" by linarith+
qed

lemma utf8_chars_encode:
  assumes "is_scalar c"
  shows "utf8_chars (utf8_encode c @ r) = c # utf8_chars r"
proof -
  have c: "c < 1114112" using assms by (auto simp: is_scalar_def)
  consider "c < 128" | "128 \<le> c" "c < 2048" | "2048 \<le> c" "c < 65536" | "65536 \<le> c" by linarith
  then show ?thesis
  proof cases
    case 1
    then show ?thesis by (simp add: utf8_encode_def byte_char_of)
  next
    case 2
    then have "c div 64 < 32" by simp
    then have "byte (char_of (192 + c div 64)) = 192 + c div 64" "byte (char_of (128 + c mod 64)) = 128 + c mod 64"
      by (simp_all add: byte_char_of)
    with 2 \<open>c div 64 < 32\<close> show ?thesis by (simp add: utf8_encode_def)
  next
    case 3
    then have d: "c div 4096 < 16" by simp
    have "byte (char_of (224 + c div 4096)) = 224 + c div 4096"
      "byte (char_of (128 + c div 64 mod 64)) = 128 + c div 64 mod 64" "byte (char_of (128 + c mod 64)) = 128 + c mod 64"
      using d by (simp_all add: byte_char_of)
    then show ?thesis using 3 d by (simp add: utf8_encode_def six_bit_digits)
  next
    case 4
    have d: "c div 262144 < 8" using c by simp
    have "byte (char_of (240 + c div 262144)) = 240 + c div 262144"
      "byte (char_of (128 + c div 4096 mod 64)) = 128 + c div 4096 mod 64"
      "byte (char_of (128 + c div 64 mod 64)) = 128 + c div 64 mod 64" "byte (char_of (128 + c mod 64)) = 128 + c mod 64"
      using d by (simp_all add: byte_char_of)
    then show ?thesis using 4 d by (simp add: utf8_encode_def six_bit_digits)
  qed
qed

lemma utf8_chars_concat:
  "list_all is_scalar cs \<Longrightarrow> utf8_chars (concat (map utf8_encode cs) @ t) = cs @ utf8_chars t"
  by (induction cs) (simp_all add: utf8_chars_encode)

lemma utf8_chars_append: "valid_utf8 s \<Longrightarrow> utf8_chars (s @ t) = utf8_chars s @ utf8_chars t"
  using utf8_chars_concat [of "utf8_chars s" t] by (simp add: valid_utf8_def)

lemma valid_utf8_append: "valid_utf8 s \<Longrightarrow> valid_utf8 t \<Longrightarrow> valid_utf8 (s @ t)"
  using utf8_chars_append [of s t] by (simp add: valid_utf8_def)

end
