(* ===== verification/Ordered_Map.thy ===== *)
theory Ordered_Map
  imports Rust_Prelude
begin

text \<open>
  \<open>BTreeMap\<close>: the ordered dictionary of the objects and of the chain code. Its model is the
  list of its entries in key order; \<open>get\<close> is \<open>map_of\<close>, iteration is the list itself. The
  locale \<open>ordered_map\<close> is the contract the clients rely on; its interpretation \<open>bt\<close> is on
  the operations the chain code uses.
\<close>

type_synonym 'v btree = "(string \<times> 'v) list"

fun bt_insert :: "'k::linorder \<Rightarrow> 'v \<Rightarrow> ('k \<times> 'v) list \<Rightarrow> ('k \<times> 'v) list" where
  "bt_insert k v [] = [(k, v)]"
| "bt_insert k v ((k', v') # m) =
     (if k < k' then (k, v) # (k', v') # m
      else if k = k' then (k, v) # m
      else (k', v') # bt_insert k v m)"

definition bt_remove :: "'k \<Rightarrow> ('k \<times> 'v) list \<Rightarrow> ('k \<times> 'v) list" where
  "bt_remove k m = filter (\<lambda>(k', v). k' \<noteq> k) m"

text \<open>\<open>get_mut\<close> followed by a write through the reference.\<close>

definition bt_modify :: "'k \<Rightarrow> ('v \<Rightarrow> 'v) \<Rightarrow> ('k \<times> 'v) list \<Rightarrow> ('k \<times> 'v) list" where
  "bt_modify k f m = map (\<lambda>(k', v). (k', if k' = k then f v else v)) m"

definition bt_sorted :: "('k::linorder \<times> 'v) list \<Rightarrow> bool" where
  "bt_sorted m \<longleftrightarrow> sorted_wrt (<) (map fst m)"

section \<open>The contract\<close>

locale ordered_map =
  fixes empty :: 'm
    and get :: "'m \<Rightarrow> 'k::linorder \<Rightarrow> 'v option"
    and put :: "'k \<Rightarrow> 'v \<Rightarrow> 'm \<Rightarrow> 'm"
    and del :: "'k \<Rightarrow> 'm \<Rightarrow> 'm"
    and upd :: "'k \<Rightarrow> ('v \<Rightarrow> 'v) \<Rightarrow> 'm \<Rightarrow> 'm"
    and items :: "'m \<Rightarrow> ('k \<times> 'v) list"
    and ok :: "'m \<Rightarrow> bool"
  assumes get_empty: "get empty k = None"
    and get_put: "get (put k v m) k' = (if k' = k then Some v else get m k')"
    and get_del: "get (del k m) k' = (if k' = k then None else get m k')"
    and get_upd: "get (upd k f m) k' = (if k' = k then map_option f (get m k') else get m k')"
    and get_items: "ok m \<Longrightarrow> get m k = Some v \<longleftrightarrow> (k, v) \<in> set (items m)"
    and items_sorted: "ok m \<Longrightarrow> sorted_wrt (<) (map fst (items m))"
    and ok_empty: "ok empty"
    and ok_put: "ok m \<Longrightarrow> ok (put k v m)"
    and ok_del: "ok m \<Longrightarrow> ok (del k m)"
    and ok_upd: "ok m \<Longrightarrow> ok (upd k f m)"
begin

lemma items_distinct: "ok m \<Longrightarrow> distinct (map fst (items m))"
  by (metis items_sorted strict_sorted_iff)

lemma items_set: "ok m \<Longrightarrow> set (items m) = {(k, v). get m k = Some v}"
  using get_items by auto

lemma keys_set: "ok m \<Longrightarrow> set (map fst (items m)) = dom (get m)"
  by (force simp: items_set)

lemma put_overwrite: "get (put k v (put k w m)) = get (put k v m)"
  by (rule ext) (simp add: get_put)

lemma put_commute: "k \<noteq> j \<Longrightarrow> get (put k v (put j w m)) = get (put j w (put k v m))"
  by (rule ext) (simp add: get_put)

lemma dom_put: "dom (get (put k v m)) = insert k (dom (get m))"
  by (auto simp: get_put split: if_splits)

lemma dom_upd: "dom (get (upd k f m)) = dom (get m)"
  by (auto simp: get_upd split: if_splits)

text \<open>Iteration order does not depend on the order of insertion.\<close>

lemma items_unique:
  assumes "ok m" and "ok n" and "get m = get n"
  shows "items m = items n"
proof -
  have s: "set (items m) = set (items n)"
    using assms by (simp add: items_set)
  have "sorted (map fst (items m))" "distinct (map fst (items m))"
    and "sorted (map fst (items n))" "distinct (map fst (items n))"
    using assms items_sorted strict_sorted_iff by blast+
  then show ?thesis
    using s map_sorted_distinct_set_unique [of fst "items m" "items n"]
    by (metis distinct_map inj_on_Un sup.idem)
qed

end

section \<open>The model of \<open>BTreeMap\<close> meets it\<close>

lemma map_of_bt_insert [simp]:
  "map_of (bt_insert k v m) k' = (if k' = k then Some v else map_of m k')"
  by (induction m) auto

lemma map_of_bt_remove [simp]:
  "map_of (bt_remove k m) k' = (if k' = k then None else map_of m k')"
  by (induction m) (auto simp: bt_remove_def)

lemma map_of_bt_modify [simp]:
  "map_of (bt_modify k f m) k' = (if k' = k then map_option f (map_of m k') else map_of m k')"
  by (induction m) (auto simp: bt_modify_def)

lemma keys_bt_modify [simp]: "map fst (bt_modify k f m) = map fst m"
  by (induction m) (auto simp: bt_modify_def)

lemma set_keys_bt_insert [simp]: "fst ` set (bt_insert k v m) = insert k (fst ` set m)"
  by (induction k v m rule: bt_insert.induct) (simp_all add: insert_commute)

lemma bt_sorted_Nil [simp]: "bt_sorted []"
  by (simp add: bt_sorted_def)

lemma bt_sorted_Cons: "bt_sorted ((k, v) # m) \<longleftrightarrow> (\<forall>k' \<in> fst ` set m. k < k') \<and> bt_sorted m"
  by (auto simp: bt_sorted_def)

lemma bt_sorted_insert [simp]: "bt_sorted m \<Longrightarrow> bt_sorted (bt_insert k v m)"
  by (induction k v m rule: bt_insert.induct)
     (simp_all add: bt_sorted_Cons, (metis order.strict_trans neqE)+)

lemma bt_sorted_remove [simp]: "bt_sorted m \<Longrightarrow> bt_sorted (bt_remove k m)"
  by (induction m) (auto simp: bt_sorted_Cons bt_remove_def)

lemma bt_sorted_modify [simp]: "bt_sorted m \<Longrightarrow> bt_sorted (bt_modify k f m)"
  unfolding bt_sorted_def keys_bt_modify .

lemma bt_sorted_distinct: "bt_sorted m \<Longrightarrow> distinct (map fst m)"
  by (simp add: bt_sorted_def strict_sorted_iff)

lemma bt_get_iff: "bt_sorted m \<Longrightarrow> map_of m k = Some v \<longleftrightarrow> (k, v) \<in> set m"
  by (simp add: bt_sorted_distinct)

interpretation bt: ordered_map "[] :: ('k::linorder \<times> 'v) list" map_of bt_insert bt_remove
    bt_modify "\<lambda>m. m" bt_sorted
  by unfold_locales (simp_all add: bt_get_iff, simp add: bt_sorted_def)

lemma map_of_Some_set: "map_of m k = Some v \<Longrightarrow> (k, v) \<in> set m"
  by (rule map_of_SomeD)

lemma length_bt_modify [simp]: "length (bt_modify k f m) = length m"
  by (simp add: bt_modify_def)

end
