(* ===== verification/Canonical_Json.thy ===== *)
theory Canonical_Json
  imports Ordered_Map "HOL-Library.Word"
begin

text \<open>
  The content-address encoding of \<^verbatim>\<open>crates/kernel/lillux/src/cas.rs\<close>: \<open>canonical_json\<close>, its
  helpers \<open>write_string\<close> and \<open>write_number\<close>, \<open>sha256_hex\<close> and \<open>valid_hash\<close>. The values are
  \<open>serde_json::Value\<close>; an object is the list of its entries in key order. What the code
  takes from third-party crates is the record \<open>lib_env\<close>. The theorems say that the encoding
  identifies the value and does not depend on the order in which keys were inserted.
\<close>

section \<open>Third-party functions\<close>

datatype json_number = PosInt nat | NegInt int | Float64 "64 word"

datatype json =
    JNull
  | JBool bool
  | JNumber json_number
  | JString string
  | JArray "json list"
  | JObject "(string \<times> json) list"

text \<open>
  \<open>sha256\<close> is \<open>sha2::Sha256::digest\<close> rendered as lower-case hexadecimal, \<open>number_to_string\<close>
  is \<open>serde_json::Number\<close>'s \<open>Display\<close>, \<open>json_from_slice\<close> is \<open>serde_json::from_slice\<close> into a
  \<open>Value\<close>, \<open>json_entries\<close> the entries that the same parser hands, in the order of the text and
  with repetitions, to a struct that is deserialized directly, \<open>chrono_parse\<close> is \<open>chrono::NaiveDateTime::parse_from_str\<close> with the format
  \<^verbatim>\<open>%Y-%m-%dT%H:%M:%SZ\<close> read as seconds since the Unix epoch in UTC, \<open>unicode_alphanumeric\<close>
  is \<open>char::is_alphanumeric\<close> on the scalar values above ASCII, \<open>ed25519_verify\<close> is the check
  of a signature under a public key, \<open>base64_encode\<close> and \<open>base64_decode\<close> are the standard
  alphabet of \<open>base64\<close>.
\<close>

record lib_env =
  sha256 :: "string \<Rightarrow> string"
  number_to_string :: "json_number \<Rightarrow> string"
  json_from_slice :: "string \<Rightarrow> json option"
  json_entries :: "string \<Rightarrow> (string \<times> json) list option"
  chrono_parse :: "string \<Rightarrow> int option"
  unicode_alphanumeric :: "nat \<Rightarrow> bool"
  ed25519_verify :: "string \<Rightarrow> string \<Rightarrow> string \<Rightarrow> bool"
  base64_encode :: "string \<Rightarrow> string"
  base64_decode :: "string \<Rightarrow> string option"

section \<open>Hashes\<close>

definition sha256_hex :: "'z lib_env_scheme \<Rightarrow> string \<Rightarrow> string" where
  "sha256_hex E d = sha256 E d"

definition valid_hash :: "string \<Rightarrow> bool" where
  "valid_hash s \<longleftrightarrow> length s = 64 \<and> list_all is_ascii_hexdigit s"

definition canonical_cas_hash :: "string \<Rightarrow> bool" where
  "canonical_cas_hash h \<longleftrightarrow> valid_hash h \<and> \<not> list_ex is_ascii_uppercase h"

section \<open>The encoder\<close>

definition hex_digit :: "nat \<Rightarrow> char" where
  "hex_digit n = char_of (if n < 10 then 48 + n else 87 + n)"

definition hex4 :: "nat \<Rightarrow> string" where
  "hex4 n = [hex_digit (n div 4096 mod 16), hex_digit (n div 256 mod 16),
             hex_digit (n div 16 mod 16), hex_digit (n mod 16)]"

definition backslash :: char where
  "backslash = CHR 0x5C"

definition quote :: char where
  "quote = CHR 0x22"

definition escape_char :: "nat \<Rightarrow> string" where
  "escape_char c =
     (if c = 34 then [backslash, quote]
      else if c = 92 then [backslash, backslash]
      else if c = 8 then [backslash, CHR ''b'']
      else if c = 12 then [backslash, CHR ''f'']
      else if c = 10 then [backslash, CHR ''n'']
      else if c = 13 then [backslash, CHR ''r'']
      else if c = 9 then [backslash, CHR ''t'']
      else if c < 32 then backslash # CHR ''u'' # hex4 c
      else if c < 128 then [char_of c]
      else if c \<le> 65535 then backslash # CHR ''u'' # hex4 c
      else backslash # CHR ''u'' # hex4 (55296 + (c - 65536) div 1024)
             @ backslash # CHR ''u'' # hex4 (56320 + (c - 65536) mod 1024))"

definition write_string :: "string \<Rightarrow> string" where
  "write_string s = [quote] @ concat (map escape_char (utf8_chars s)) @ [quote]"

definition write_number :: "'z lib_env_scheme \<Rightarrow> json_number \<Rightarrow> string" where
  "write_number E n = number_to_string E n"

fun comma_separated :: "string list \<Rightarrow> string" where
  "comma_separated [] = []"
| "comma_separated [w] = w"
| "comma_separated (w # w' # ws) = w @ '','' @ comma_separated (w' # ws)"

primrec write_canonical_json :: "'z lib_env_scheme \<Rightarrow> json \<Rightarrow> string" where
  "write_canonical_json E JNull = ''null''"
| "write_canonical_json E (JBool b) = (if b then ''true'' else ''false'')"
| "write_canonical_json E (JNumber n) = write_number E n"
| "write_canonical_json E (JString s) = write_string s"
| "write_canonical_json E (JObject m) =
     ''{'' @ comma_separated
       (map (\<lambda>(k, w). write_string k @ '':'' @ w)
         (sort_key fst (map (map_prod id (write_canonical_json E)) m))) @ ''}''"
| "write_canonical_json E (JArray vs) =
     ''['' @ comma_separated (map (write_canonical_json E) vs) @ '']''"

definition canonical_json :: "'z lib_env_scheme \<Rightarrow> json \<Rightarrow> string" where
  "canonical_json E v = write_canonical_json E v"

section \<open>The values of the Rust types\<close>

text \<open>
  A \<open>serde_json::Number\<close> is a \<open>u64\<close>, a negative \<open>i64\<close> or a finite \<open>f64\<close>; a map has its keys
  in order and without duplicates; a string is valid UTF-8.
\<close>

definition f64_exponent :: "64 word \<Rightarrow> nat" where
  "f64_exponent x = unat x div 2 ^ 52 mod 2048"

definition f64_is_finite :: "64 word \<Rightarrow> bool" where
  "f64_is_finite x \<longleftrightarrow> f64_exponent x \<noteq> 2047"

primrec number_wf :: "json_number \<Rightarrow> bool" where
  "number_wf (PosInt n) \<longleftrightarrow> n < u64_bound"
| "number_wf (NegInt i) \<longleftrightarrow> i < 0 \<and> - (2 ^ 63) \<le> i"
| "number_wf (Float64 x) \<longleftrightarrow> f64_is_finite x"

primrec json_wf :: "json \<Rightarrow> bool" where
  "json_wf JNull \<longleftrightarrow> True"
| "json_wf (JBool b) \<longleftrightarrow> True"
| "json_wf (JNumber n) \<longleftrightarrow> number_wf n"
| "json_wf (JString s) \<longleftrightarrow> valid_utf8 s"
| "json_wf (JArray vs) \<longleftrightarrow> list_all json_wf vs"
| "json_wf (JObject m) \<longleftrightarrow>
     sorted_wrt (<) (map fst (map (map_prod id json_wf) m))
     \<and> list_all (\<lambda>(k, b). valid_utf8 k \<and> b) (map (map_prod id json_wf) m)"

lemma json_wf_JObject:
  "json_wf (JObject m) \<longleftrightarrow> bt_sorted m \<and> (\<forall>(k, v) \<in> set m. valid_utf8 k \<and> json_wf v)"
  by (auto simp: bt_sorted_def list_all_iff comp_def)

declare json_wf.simps(6) [simp del]

definition number_char :: "char \<Rightarrow> bool" where
  "number_char c \<longleftrightarrow> is_ascii_digit c \<or> c \<in> set ''+-.eE''"

text \<open>
  What the encoding relies on of \<open>Number\<close>'s rendering: different numbers render differently,
  with the characters of JSON numbers.
\<close>

definition number_rendering :: "'z lib_env_scheme \<Rightarrow> bool" where
  "number_rendering E \<longleftrightarrow>
     (\<forall>m n. number_wf m \<and> number_wf n \<and> number_to_string E m = number_to_string E n \<longrightarrow> m = n)
     \<and> (\<forall>n. number_wf n \<longrightarrow> (\<exists>c cs. number_to_string E n = c # cs
             \<and> (is_ascii_digit c \<or> c = CHR ''-'') \<and> list_all number_char (c # cs)))"

section \<open>Strings decode uniquely\<close>

lemma char_of_eq_iff: "m < 256 \<Longrightarrow> n < 256 \<Longrightarrow> (char_of m = (char_of n :: char)) \<longleftrightarrow> m = (n::nat)"
  by (metis byte_char_of)

lemma char_of_eqD: "char_of (n::nat) = c \<Longrightarrow> n < 256 \<Longrightarrow> n = byte c"
  by auto

lemma hex_digit_inj: "m < 16 \<Longrightarrow> n < 16 \<Longrightarrow> hex_digit m = hex_digit n \<longleftrightarrow> m = n"
  by (auto simp: hex_digit_def char_of_eq_iff split: if_splits)

lemma eq_from_div_mod: "(m::nat) div k = n div k \<Longrightarrow> m mod k = n mod k \<Longrightarrow> m = n"
  by (metis div_mult_mod_eq)

lemma hex4_inj:
  assumes "hex4 m = hex4 n" and "m < 65536" and "n < 65536"
  shows "m = n"
proof -
  have d: "m div 4096 mod 16 = n div 4096 mod 16" "m div 256 mod 16 = n div 256 mod 16"
    "m div 16 mod 16 = n div 16 mod 16" "m mod 16 = n mod 16"
    using assms(1) by (simp_all add: hex4_def hex_digit_inj)
  have "m div 4096 = n div 4096"
    using d(1) assms(2,3) by (simp add: less_mult_imp_div_less)
  then have "m div 256 div 16 = n div 256 div 16" by (simp flip: div_mult2_eq)
  then have "m div 256 = n div 256" using d(2) by (rule eq_from_div_mod)
  then have "m div 16 div 16 = n div 16 div 16" by (simp flip: div_mult2_eq)
  then have "m div 16 = n div 16" using d(3) by (rule eq_from_div_mod)
  then show ?thesis using d(4) by (rule eq_from_div_mod)
qed

lemma length_hex4 [simp]: "length (hex4 n) = 4"
  by (simp add: hex4_def)

text \<open>The escapes by their shape: short escapes, literals, one code unit, two code units.\<close>

definition escape_units :: "nat \<Rightarrow> nat list" where
  "escape_units c =
     (if c \<le> 65535 then [c] else [55296 + (c - 65536) div 1024, 56320 + (c - 65536) mod 1024])"

definition short_escape :: "nat \<Rightarrow> char option" where
  "short_escape c =
     map_of [(34, quote), (92, backslash), (8, CHR ''b''), (12, CHR ''f''), (10, CHR ''n''),
             (13, CHR ''r''), (9, CHR ''t'')] c"

lemma escape_char_cases:
  obtains (short) e where "short_escape c = Some e" "escape_char c = [backslash, e]"
  | (literal) "short_escape c = None" "32 \<le> c" "c < 128" "c \<noteq> 92" "c \<noteq> 34"
      "escape_char c = [char_of c]"
  | (unit1) "short_escape c = None" "c < 32 \<or> 128 \<le> c" "c \<le> 65535"
      "escape_char c = backslash # CHR ''u'' # hex4 c"
  | (units2) "short_escape c = None" "65536 \<le> c"
      "escape_char c = backslash # CHR ''u'' # hex4 (55296 + (c - 65536) div 1024)
         @ backslash # CHR ''u'' # hex4 (56320 + (c - 65536) mod 1024)"
proof -
  consider "c \<in> {34, 92, 8, 12, 10, 13, 9}" | "c \<notin> {34, 92, 8, 12, 10, 13, 9}" by blast
  then show ?thesis
  proof cases
    case 1
    then show ?thesis
      by (intro short [of "the (short_escape c)"]) (auto simp: short_escape_def escape_char_def)
  next
    case 2
    then have n: "short_escape c = None" by (simp add: short_escape_def)
    consider "c < 32 \<or> 128 \<le> c \<and> c \<le> 65535" | "32 \<le> c" "c < 128" | "65536 \<le> c"
      by linarith
    then show ?thesis
    proof cases
      case 1
      with 2 n show ?thesis by (intro unit1) (auto simp: escape_char_def)
    next
      case b: 2
      with 2 n show ?thesis by (intro literal) (auto simp: escape_char_def)
    next
      case 3
      with 2 n show ?thesis by (intro units2) (auto simp: escape_char_def)
    qed
  qed
qed

lemma short_escape_inj:
  "short_escape c = Some e \<Longrightarrow> short_escape d = Some e \<Longrightarrow> c = d"
  by (auto simp: short_escape_def quote_def backslash_def char_of_eq_iff split: if_splits)

lemma short_escape_not_u: "short_escape c = Some e \<Longrightarrow> e \<noteq> CHR ''u''"
  by (auto simp: short_escape_def quote_def backslash_def split: if_splits)

lemma char_of_not_backslash: "c < 128 \<Longrightarrow> c \<noteq> (92::nat) \<Longrightarrow> char_of c \<noteq> backslash"
  by (auto simp: backslash_def byte_def dest: char_of_eqD)

lemma hex4_append:
  "hex4 m @ x = hex4 n @ y \<Longrightarrow> m < 65536 \<Longrightarrow> n < 65536 \<Longrightarrow> m = n \<and> x = y"
  by (metis append_eq_append_conv hex4_inj length_hex4)

text \<open>
  Every escape is a literal or a backslash, a tag character and a tail; the tags tell the
  short escapes from the code units.
\<close>

lemma escape_char_tagged:
  obtains (literal) "32 \<le> c" "c < 128" "c \<noteq> 92" "escape_char c = [char_of c]"
  | (short) e where "short_escape c = Some e" "e \<noteq> CHR ''u''" "escape_char c = [backslash, e]"
  | (units) u us where "escape_units c = u # us" "escape_char c = backslash # CHR ''u'' # hex4 u
      @ concat (map (\<lambda>w. backslash # CHR ''u'' # hex4 w) us)"
proof (cases c rule: escape_char_cases)
  case (short e)
  then show ?thesis using short_escape_not_u that(2) by blast
next
  case literal
  then show ?thesis using that(1) by blast
next
  case unit1
  then show ?thesis using that(3) [of c "[]"] by (simp add: escape_units_def)
next
  case units2
  then show ?thesis
    using that(3) [of "55296 + (c - 65536) div 1024" "[56320 + (c - 65536) mod 1024]"]
    by (simp add: escape_units_def)
qed

lemma escape_units_bound: "is_scalar c \<Longrightarrow> u \<in> set (escape_units c) \<Longrightarrow> u < 65536"
  by (auto simp: escape_units_def is_scalar_def split: if_splits intro: less_trans [of _ "56320 + 1024"])

lemma escape_units_inj:
  assumes "escape_units c = u # us" and "escape_units d = u # vs"
    and "us \<noteq> [] \<Longrightarrow> vs \<noteq> [] \<Longrightarrow> us = vs" and "is_scalar c" and "is_scalar d"
  shows "c = d \<and> us = vs"
proof (cases "c \<le> 65535"; cases "d \<le> 65535")
  assume "\<not> c \<le> 65535" "\<not> d \<le> 65535"
  with assms have "(c - 65536) div 1024 = (d - 65536) div 1024"
    "(c - 65536) mod 1024 = (d - 65536) mod 1024" "us = vs"
    by (auto simp: escape_units_def)
  then have "c - 65536 = d - 65536" by (metis eq_from_div_mod)
  with \<open>\<not> c \<le> 65535\<close> \<open>\<not> d \<le> 65535\<close> \<open>us = vs\<close> show ?thesis by simp
qed (use assms in \<open>auto simp: escape_units_def is_scalar_def\<close>)

lemma escape_char_prefix:
  assumes eq: "escape_char c @ x = escape_char d @ y" and c: "is_scalar c" and d: "is_scalar d"
  shows "c = d \<and> x = y"
proof (cases c rule: escape_char_tagged)
  case literal
  show ?thesis
  proof (cases d rule: escape_char_tagged)
    case d1: literal
    have "char_of c = (char_of d :: char)" "x = y"
      using eq literal(4) d1(4) by simp_all
    then show ?thesis using literal d1 by (simp add: char_of_eq_iff)
  qed (use literal eq char_of_not_backslash [of c] in simp_all)
next
  case (short e)
  show ?thesis
  proof (cases d rule: escape_char_tagged)
    case d1: literal
    then show ?thesis using short eq char_of_not_backslash [of d] by simp
  next
    case d2: (short e')
    then have "e = e'" "x = y" using eq short(3) by simp_all
    then show ?thesis using short(1) d2(1) short_escape_inj by blast
  next
    case (units u us)
    then show ?thesis using short eq by simp
  qed
next
  case (units u us)
  show ?thesis
  proof (cases d rule: escape_char_tagged)
    case d1: literal
    then show ?thesis using units eq char_of_not_backslash [of d] by simp
  next
    case d2: (short e')
    then show ?thesis using units eq by simp
  next
    case d3: (units v vs)
    let ?tail = "\<lambda>us. concat (map (\<lambda>w. backslash # CHR ''u'' # hex4 w) us)"
    have b: "u < 65536" "v < 65536"
      using escape_units_bound c d units(1) d3(1) by simp_all
    have "hex4 u @ (?tail us @ x) = hex4 v @ (?tail vs @ y)"
      using eq units(2) d3(2) by simp
    from hex4_append [OF this b] have uv: "u = v" and t: "?tail us @ x = ?tail vs @ y"
      by simp_all
    have "us = vs" if ne: "us \<noteq> []" "vs \<noteq> []"
    proof -
      from ne obtain w z where wz: "us = [w]" "vs = [z]" "w < 65536" "z < 65536"
        using units(1) d3(1) escape_units_bound [OF c, of "hd us"] escape_units_bound [OF d, of "hd vs"]
        by (auto simp: escape_units_def split: if_splits)
      with t have "hex4 w @ x = hex4 z @ y" by simp
      from hex4_append [OF this] wz show ?thesis by simp
    qed
    then have "c = d \<and> us = vs"
      using escape_units_inj units(1) d3(1) uv c d by blast
    then show ?thesis using t by simp
  qed
qed

lemma escape_char_hd: "\<exists>e es. escape_char c = e # es \<and> e \<noteq> quote"
proof (cases c rule: escape_char_cases)
  case literal
  have "char_of c \<noteq> quote"
  proof
    assume "char_of c = quote"
    then have "c = byte quote" using literal by (intro char_of_eqD) simp_all
    with literal show False by (simp add: quote_def byte_def)
  qed
  with literal show ?thesis by simp
qed (simp_all add: quote_def backslash_def)

lemma escapes_prefix:
  "\<lbrakk> concat (map escape_char cs) @ quote # x = concat (map escape_char ds) @ quote # y;
     list_all is_scalar cs; list_all is_scalar ds \<rbrakk> \<Longrightarrow> cs = ds \<and> x = y"
proof (induction cs arbitrary: ds)
  case Nil
  show ?case
  proof (cases ds)
    case (Cons d ds')
    obtain e es where "escape_char d = e # es" "e \<noteq> quote" using escape_char_hd by blast
    with Nil.prems(1) Cons show ?thesis by simp
  qed (use Nil.prems in simp)
next
  case (Cons c cs)
  show ?case
  proof (cases ds)
    case Nil
    obtain e es where "escape_char c = e # es" "e \<noteq> quote" using escape_char_hd by blast
    with Cons.prems(1) Nil show ?thesis by simp
  next
    case ds: (Cons d ds')
    from Cons.prems have e: "escape_char c @ (concat (map escape_char cs) @ quote # x)
        = escape_char d @ (concat (map escape_char ds') @ quote # y)"
      using ds by simp
    have s: "is_scalar c" "is_scalar d" "list_all is_scalar cs" "list_all is_scalar ds'"
      using Cons.prems ds by simp_all
    from escape_char_prefix [OF e s(1,2)] have "c = d"
      and t: "concat (map escape_char cs) @ quote # x = concat (map escape_char ds') @ quote # y"
      by blast+
    with Cons.IH [OF t s(3,4)] ds show ?thesis by simp
  qed
qed

lemma write_string_prefix:
  assumes "write_string s @ x = write_string t @ y" and "valid_utf8 s" and "valid_utf8 t"
  shows "s = t \<and> x = y"
proof -
  have "list_all is_scalar (utf8_chars s)" "list_all is_scalar (utf8_chars t)"
    using assms(2,3) unfolding valid_utf8_def by blast+
  moreover have "concat (map escape_char (utf8_chars s)) @ quote # x
      = concat (map escape_char (utf8_chars t)) @ quote # y"
    using assms(1) by (simp add: write_string_def)
  ultimately have "utf8_chars s = utf8_chars t \<and> x = y"
    by (intro escapes_prefix)
  with valid_utf8_inj [OF assms(2,3)] show ?thesis by blast
qed

section \<open>Values decode uniquely\<close>

definition delimited :: "string \<Rightarrow> bool" where
  "delimited x \<longleftrightarrow> x = [] \<or> hd x \<in> set '',]}''"

text \<open>The first byte of an encoding tells the kind of the value.\<close>

datatype json_kind = KNull | KTrue | KFalse | KNumber | KString | KArray | KObject

primrec kind_of :: "json \<Rightarrow> json_kind" where
  "kind_of JNull = KNull"
| "kind_of (JBool b) = (if b then KTrue else KFalse)"
| "kind_of (JNumber n) = KNumber"
| "kind_of (JString s) = KString"
| "kind_of (JArray vs) = KArray"
| "kind_of (JObject m) = KObject"

definition kind_of_char :: "char \<Rightarrow> json_kind" where
  "kind_of_char c =
     (if c = CHR ''n'' then KNull else if c = CHR ''t'' then KTrue else if c = CHR ''f'' then KFalse
      else if c = quote then KString else if c = CHR ''['' then KArray
      else if c = CHR ''{'' then KObject else KNumber)"

lemma not_digit: "list_all (\<lambda>c. \<not> is_ascii_digit c) (quote # ''ntf[{,]}'')"
  by (simp add: is_ascii_digit_def byte_def quote_def)

lemma number_char_not_reserved:
  assumes "number_char c" shows "c \<notin> set (quote # ''ntf[{,]}'')"
proof
  assume r: "c \<in> set (quote # ''ntf[{,]}'')"
  then have "\<not> is_ascii_digit c" using not_digit unfolding list_all_iff by blast
  with assms have "c \<in> set ''+-.eE''" unfolding number_char_def by blast
  moreover have "set ''+-.eE'' \<inter> set (quote # ''ntf[{,]}'') = {}" by (simp add: quote_def)
  ultimately show False using r by blast
qed

lemma number_char_kind: "number_char c \<Longrightarrow> kind_of_char c = KNumber"
  using number_char_not_reserved [of c] by (simp add: kind_of_char_def)

lemma number_char_not_delimiter: "number_char c \<Longrightarrow> c \<notin> set '',]}''"
  using number_char_not_reserved [of c] by simp

lemma write_head:
  assumes "number_rendering E" and "json_wf v"
  shows "\<exists>c cs. write_canonical_json E v = c # cs \<and> kind_of_char c = kind_of v \<and> c \<notin> set '',]}''"
proof (cases v)
  case (JNumber n)
  then obtain c cs where "number_to_string E n = c # cs" "number_char c"
    using assms by (fastforce simp: number_rendering_def)
  with JNumber show ?thesis
    using number_char_kind number_char_not_delimiter by (simp add: write_number_def)
qed (simp_all add: write_string_def kind_of_char_def quote_def)

lemma takeWhile_delimited:
  assumes "list_all number_char s" and "delimited x"
  shows "takeWhile number_char (s @ x) = s"
proof -
  have "takeWhile number_char x = []"
    using assms(2) number_char_not_delimiter [of "hd x"]
    by (cases x) (auto simp: delimited_def)
  with assms(1) show ?thesis by (simp add: list_all_iff takeWhile_append2)
qed

lemma write_number_prefix:
  assumes E: "number_rendering E" and wf: "number_wf m" "number_wf n"
    and eq: "write_number E m @ x = write_number E n @ y" and del: "delimited x" "delimited y"
  shows "m = n \<and> x = y"
proof -
  have chars: "list_all number_char (write_number E m)" "list_all number_char (write_number E n)"
    using E wf unfolding number_rendering_def write_number_def by metis+
  have "write_number E m = write_number E n"
    using takeWhile_delimited [OF chars(1) del(1)] takeWhile_delimited [OF chars(2) del(2)] eq by simp
  with eq E wf show ?thesis by (simp add: number_rendering_def write_number_def)
qed

text \<open>
  A bracketed, comma-separated list of items decodes uniquely when its items do and no item
  begins with a delimiter.
\<close>

lemma comma_separated_prefix:
  assumes close: "close \<in> set '']}''"
    and items: "\<And>a b x y. a \<in> set as \<Longrightarrow> b \<in> set bs \<Longrightarrow> f a @ x = f b @ y \<Longrightarrow> delimited x
        \<Longrightarrow> delimited y \<Longrightarrow> a = b \<and> x = y"
    and heads: "\<And>a. a \<in> set as \<union> set bs \<Longrightarrow> \<exists>c cs. f a = c # cs \<and> c \<notin> set '',]}''"
    and eq: "comma_separated (map f as) @ close # x = comma_separated (map f bs) @ close # y"
  shows "as = bs \<and> x = y"
  using items heads eq
proof (induction as arbitrary: bs)
  case Nil
  show ?case
  proof (cases bs)
    case (Cons b bs')
    then obtain c cs where "f b = c # cs" "c \<notin> set '',]}''" using Nil.prems(2) [of b] by auto
    moreover have "\<exists>z. comma_separated (map f bs) = f b @ z" using Cons by (cases bs') auto
    ultimately show ?thesis using Nil.prems(3) close by auto
  qed (use Nil.prems(3) in simp)
next
  case (Cons a as)
  obtain c cs where c: "f a = c # cs" "c \<notin> set '',]}''" using Cons.prems(2) [of a] by auto
  show ?case
  proof (cases bs)
    case Nil
    moreover have "\<exists>z. comma_separated (map f (a # as)) = f a @ z" by (cases as) auto
    ultimately show ?thesis using Cons.prems(3) c close by auto
  next
    case bs: (Cons b bs')
    let ?rest = "\<lambda>as x. (if as = [] then close # x else CHR '','' # comma_separated (map f as) @ close # x)"
    have unfold: "comma_separated (map f (a # as)) @ close # x = f a @ ?rest as x" for a as x
      by (cases as) auto
    have del: "delimited (?rest as x)" for as x
      using close by (auto simp: delimited_def)
    have "f a @ ?rest as x = f b @ ?rest bs' y"
      using Cons.prems(3) unfolding bs unfold .
    then have ab: "a = b" and rest: "?rest as x = ?rest bs' y"
      using Cons.prems(1) [of a b "?rest as x" "?rest bs' y"] del bs by auto
    have "as = bs' \<and> x = y"
    proof (cases "as = [] \<or> bs' = []")
      case True
      then show ?thesis using rest close by (auto split: if_splits)
    next
      case False
      show ?thesis
      proof (rule Cons.IH)
        show "comma_separated (map f as) @ close # x = comma_separated (map f bs') @ close # y"
          using rest False by simp
      qed (use Cons.prems(1,2) bs in auto)
    qed
    with ab bs show ?thesis by simp
  qed
qed

lemma sort_key_entries:
  "bt_sorted m \<Longrightarrow> sort_key fst (map (map_prod id g) m) = map (map_prod id g) m"
  by (intro sort_key_id_if_sorted) (simp add: bt_sorted_def comp_def strict_sorted_imp_sorted)

lemma write_JObject:
  "bt_sorted m \<Longrightarrow> write_canonical_json E (JObject m) =
     ''{'' @ comma_separated (map (\<lambda>(k, v). write_string k @ '':'' @ write_canonical_json E v) m) @ ''}''"
  by (simp add: sort_key_entries comp_def case_prod_unfold)

lemma write_kind:
  assumes "number_rendering E" and "json_wf v" and "json_wf w"
    and "write_canonical_json E v @ x = write_canonical_json E w @ y"
  shows "kind_of v = kind_of w"
proof -
  obtain c cs d ds where "write_canonical_json E v = c # cs" "kind_of_char c = kind_of v"
    "write_canonical_json E w = d # ds" "kind_of_char d = kind_of w"
    using write_head [OF assms(1,2)] write_head [OF assms(1,3)] by blast
  with assms(4) show ?thesis by simp
qed

lemma write_entry_prefix:
  assumes eq: "(write_string k @ '':'' @ u) @ x = (write_string l @ '':'' @ v) @ y"
    and "valid_utf8 k" and "valid_utf8 l"
  shows "k = l \<and> u @ x = v @ y"
proof -
  have "write_string k @ (CHR '':'' # u @ x) = write_string l @ (CHR '':'' # v @ y)"
    using eq by simp
  from write_string_prefix [OF this assms(2,3)] show ?thesis by simp
qed

lemma write_canonical_json_prefix:
  assumes E: "number_rendering E"
  shows "\<lbrakk> write_canonical_json E v @ x = write_canonical_json E w @ y; json_wf v; json_wf w;
           delimited x; delimited y \<rbrakk> \<Longrightarrow> v = w \<and> x = y"
proof (induction v arbitrary: w x y)
  case (JArray vs)
  obtain ws where w: "w = JArray ws"
    using write_kind [OF E JArray.prems(2,3,1)] by (cases w) (simp_all split: if_splits)
  have wf: "\<forall>a \<in> set vs. json_wf a" "\<forall>a \<in> set ws. json_wf a"
    using JArray.prems(2,3) w by (simp_all add: list_all_iff)
  have "vs = ws \<and> x = y"
  proof (rule comma_separated_prefix [of "CHR '']''" _ _ "write_canonical_json E"])
    show "comma_separated (map (write_canonical_json E) vs) @ CHR '']'' # x
        = comma_separated (map (write_canonical_json E) ws) @ CHR '']'' # y"
      using JArray.prems(1) w by simp
    show "\<exists>c cs. write_canonical_json E a = c # cs \<and> c \<notin> set '',]}''" if "a \<in> set vs \<union> set ws" for a
      using that write_head [OF E, of a] wf by blast
  qed (use JArray.IH wf in simp_all)
  with w show ?case by simp
next
  case (JObject m)
  obtain m' where w: "w = JObject m'"
    using write_kind [OF E JObject.prems(2,3,1)] by (cases w) (simp_all split: if_splits)
  have wf: "bt_sorted m" "bt_sorted m'" "\<forall>(k, v) \<in> set m. valid_utf8 k \<and> json_wf v"
    "\<forall>(k, v) \<in> set m'. valid_utf8 k \<and> json_wf v"
    using JObject.prems(2,3) w by (simp_all add: json_wf_JObject)
  let ?f = "\<lambda>(k, v). write_string k @ '':'' @ write_canonical_json E v"
  have "m = m' \<and> x = y"
  proof (rule comma_separated_prefix [of "CHR ''}''" _ _ ?f])
    show "comma_separated (map ?f m) @ CHR ''}'' # x = comma_separated (map ?f m') @ CHR ''}'' # y"
      using JObject.prems(1) wf(1,2) unfolding w write_JObject [OF wf(1)] write_JObject [OF wf(2)]
      by simp
    show "\<exists>c cs. ?f a = c # cs \<and> c \<notin> set '',]}''" for a
      by (simp add: write_string_def quote_def split: prod.split)
    fix a b x y
    assume ab: "a \<in> set m" "b \<in> set m'" "?f a @ x = ?f b @ y" "delimited x" "delimited y"
    obtain k v l u where kv: "a = (k, v)" "b = (l, u)" by (metis surj_pair)
    have wfs: "valid_utf8 k" "json_wf v" "valid_utf8 l" "json_wf u" using wf(3,4) ab kv by auto
    have "k = l" and rest: "write_canonical_json E v @ x = write_canonical_json E u @ y"
      using write_entry_prefix [of k _ x l _ y] ab(3) wfs kv by simp_all
    moreover have "v = u \<and> x = y"
      using JObject.IH [OF ab(1) _ rest wfs(2,4) ab(4,5)] kv by simp
    ultimately show "a = b \<and> x = y" using kv by simp
  qed simp
  with w show ?case by simp
next
  case (JNumber n)
  obtain k where w: "w = JNumber k"
    using write_kind [OF E JNumber.prems(2,3,1)] by (cases w) (simp_all split: if_splits)
  with JNumber.prems write_number_prefix [OF E, of n k x y] show ?case by simp
next
  case (JString s)
  obtain t where w: "w = JString t"
    using write_kind [OF E JString.prems(2,3,1)] by (cases w) (simp_all split: if_splits)
  have "write_string s @ x = write_string t @ y" "valid_utf8 s" "valid_utf8 t"
    using JString.prems w by simp_all
  from write_string_prefix [OF this] w show ?case by simp
next
  case (JBool b)
  obtain c where "w = JBool c"
    using write_kind [OF E JBool.prems(2,3,1)] by (cases w) (simp_all split: if_splits)
  with JBool.prems(1) show ?case by (simp split: if_splits)
next
  case JNull
  have "w = JNull"
    using write_kind [OF E JNull.prems(2,3,1)] by (cases w) (simp_all split: if_splits)
  with JNull.prems(1) show ?case by simp
qed

section \<open>A sample environment\<close>

primrec sample_number :: "json_number \<Rightarrow> string" where
  "sample_number (PosInt n) = decimal n"
| "sample_number (NegInt i) = CHR ''-'' # decimal (nat (- i))"
| "sample_number (Float64 x) = decimal (unat x) @ ''e0''"

lemma decimal_e0: "decimal m \<noteq> decimal n @ ''e0''"
proof
  assume "decimal m = decimal n @ ''e0''"
  then have "list_all is_ascii_digit (decimal n @ ''e0'')" by (metis decimal_digits)
  then show False by (simp add: is_ascii_digit_def byte_def)
qed

lemma decimal_minus: "decimal m @ x \<noteq> CHR ''-'' # y"
proof
  assume "decimal m @ x = CHR ''-'' # y"
  then have "is_ascii_digit CHR ''-''"
    using decimal_digits [of m] decimal_nonempty [of m] by (cases "decimal m") simp_all
  then show False by (simp add: is_ascii_digit_def byte_def)
qed

lemma sample_number_inj:
  assumes "number_wf m" and "number_wf n" and eq: "sample_number m = sample_number n"
  shows "m = n"
  using assms decimal_e0 decimal_e0 [symmetric] decimal_minus [of _ "[]"] decimal_minus [of _ "[]", symmetric]
    decimal_minus decimal_minus [symmetric]
  by (cases m; cases n) (simp_all add: decimal_inj eq_nat_nat_iff word_unat_eq_iff)


lemma sample_number_chars:
  assumes "number_wf n"
  shows "\<exists>c cs. sample_number n = c # cs \<and> (is_ascii_digit c \<or> c = CHR ''-'')
    \<and> list_all number_char (c # cs)"
proof -
  have d: "list_all number_char (decimal k)" for k
    using decimal_digits [of k] unfolding list_all_iff number_char_def by blast
  have h: "\<exists>c cs. decimal k = c # cs \<and> is_ascii_digit c" for k
    using decimal_nonempty [of k] decimal_digits [of k] by (cases "decimal k") simp_all
  show ?thesis
  proof (cases n)
    case (Float64 x)
    have "list_all number_char (decimal (unat x) @ ''e0'')"
      using d by (simp add: number_char_def is_ascii_digit_def byte_def)
    with h [of "unat x"] Float64 show ?thesis by auto
  next
    case (NegInt i)
    with d [of "nat (- i)"] show ?thesis by (simp add: number_char_def)
  next
    case (PosInt k)
    with d [of k] h [of k] show ?thesis by fastforce
  qed
qed

text \<open>
  A checksum stands for the digest: a polynomial sum of the bytes, as 64 hexadecimal digits.
\<close>

definition sample_sha256 :: "string \<Rightarrow> string" where
  "sample_sha256 s =
     (let n = foldl (\<lambda>a c. (a * 257 + byte c + 1) mod 1000003) 0 s
      in replicate 56 (CHR ''0'') @ hex4 (n div 65536) @ hex4 n)"

definition sample_lib_env :: lib_env where
  "sample_lib_env = \<lparr> sha256 = sample_sha256, number_to_string = sample_number,
     json_from_slice = (\<lambda>s. None), json_entries = (\<lambda>s. None), chrono_parse = (\<lambda>s. None), unicode_alphanumeric = (\<lambda>c. False),
     ed25519_verify = (\<lambda>key msg sig. sig = sample_sha256 (key @ msg)),
     base64_encode = (\<lambda>s. CHR ''='' # s), base64_decode = strip_prefix ''='' \<rparr>"

lemma sample_number_rendering: "number_rendering sample_lib_env"
  using sample_number_inj sample_number_chars by (simp add: number_rendering_def sample_lib_env_def)

lemma hex_digit_canonical:
  "n < 16 \<Longrightarrow> is_ascii_hexdigit (hex_digit n) \<and> \<not> is_ascii_uppercase (hex_digit n)"
  by (simp add: hex_digit_def is_ascii_hexdigit_def is_ascii_digit_def is_ascii_uppercase_def)

lemma hex4_canonical:
  "length (hex4 n) = 4 \<and> list_all is_ascii_hexdigit (hex4 n) \<and> \<not> list_ex is_ascii_uppercase (hex4 n)"
  by (simp add: hex4_def hex_digit_canonical)

lemma sample_sha256_canonical: "canonical_cas_hash (sample_sha256 s)"
proof -
  have "is_ascii_hexdigit (CHR ''0'') \<and> \<not> is_ascii_uppercase (CHR ''0'')"
    by (simp add: is_ascii_hexdigit_def is_ascii_digit_def is_ascii_uppercase_def byte_def)
  then have "list_all is_ascii_hexdigit (replicate k (CHR ''0''))
      \<and> \<not> list_ex is_ascii_uppercase (replicate k (CHR ''0''))" for k
    by (induction k) auto
  then show ?thesis
    using hex4_canonical
    by (simp add: sample_sha256_def canonical_cas_hash_def valid_hash_def Let_def)
qed

section \<open>What the encoding promises\<close>

text \<open>
  C33: two well-formed values with the same canonical encoding are equal, so the bytes a
  content hash is taken over identify the value.
\<close>

theorem canonical_json_injective:
  assumes "number_rendering E" and "json_wf v" and "json_wf w"
    and "canonical_json E v = canonical_json E w"
  shows "v = w"
  using write_canonical_json_prefix [OF assms(1), of v "[]" w "[]"] assms
  by (simp add: canonical_json_def delimited_def)

theorem canonical_json_injective_witness:
  "canonical_json sample_lib_env (JObject [(''a'', JNumber (PosInt 1))])
     \<noteq> canonical_json sample_lib_env (JObject [(''a'', JString ''1'')])"
proof -
  let ?v = "JObject [(''a'', JNumber (PosInt 1))]" and ?w = "JObject [(''a'', JString ''1'')]"
  have "valid_utf8 ''a''" "valid_utf8 ''1''"
    by (intro valid_utf8_ascii; simp add: byte_def)+
  then have "json_wf ?v" "json_wf ?w" by (simp_all add: json_wf_JObject bt_sorted_def)
  with canonical_json_injective [OF sample_number_rendering, of ?v ?w] show ?thesis by auto
qed

text \<open>
  Two values are the same up to key order when they differ only in the order of object
  entries, at any depth.
\<close>

inductive same_json :: "json \<Rightarrow> json \<Rightarrow> bool" where
  same_leaf: "same_json v v"
| same_array: "list_all2 same_json vs ws \<Longrightarrow> same_json (JArray vs) (JArray ws)"
| same_object: "\<lbrakk> list_all2 (rel_prod (=) same_json) m n; distinct (map fst n); distinct (map fst m');
    set n = set m' \<rbrakk> \<Longrightarrow> same_json (JObject m) (JObject m')"

lemma sort_entries_unique:
  assumes "distinct (map fst m)" and "distinct (map fst m')" and "set m = set m'"
  shows "sort_key fst (m :: ('k::linorder \<times> 'v) list) = sort_key fst m'"
proof (rule map_sorted_distinct_set_unique)
  have d: "distinct (map fst (sort_key fst n))" if "distinct (map fst n)" for n :: "('k \<times> 'v) list"
    using that by (simp add: distinct_map)
  then show "distinct (map fst (sort_key fst m))" "distinct (map fst (sort_key fst m'))"
    using assms by blast+
  show "inj_on fst (set (sort_key fst m) \<union> set (sort_key fst m'))"
    using assms by (simp add: distinct_map)
qed (use assms in simp_all)

text \<open>
  C34: the encoding does not depend on the order in which the entries of objects were
  inserted, at any depth of the value.
\<close>

theorem canonical_json_key_order:
  assumes "same_json v w"
  shows "canonical_json E v = canonical_json E w"
proof -
  have "write_canonical_json E v = write_canonical_json E w"
    using assms
  proof (induction rule: same_json.induct)
    case (same_array vs ws)
    then have "map (write_canonical_json E) vs = map (write_canonical_json E) ws"
      by (induction rule: list_all2_induct) auto
    then show ?case by simp
  next
    case (same_object m n m')
    let ?g = "map (map_prod id (write_canonical_json E))"
    have "?g m = ?g n"
      using same_object(1) by (induction rule: list_all2_induct) (auto elim: rel_prod.cases)
    moreover have "sort_key fst (?g n) = sort_key fst (?g m')"
      using same_object(2-4) by (intro sort_entries_unique) (simp_all add: comp_def)
    ultimately show ?case by simp
  qed simp
  then show ?thesis by (simp add: canonical_json_def)
qed

theorem canonical_json_key_order_witness:
  "canonical_json sample_lib_env (JArray [JObject [(''b'', JNull), (''a'', JBool True)]])
     = canonical_json sample_lib_env (JArray [JObject [(''a'', JBool True), (''b'', JNull)]])"
  by (rule canonical_json_key_order, rule same_array)
     (auto intro!: same_object [where n = "[(''b'', JNull), (''a'', JBool True)]"] intro: same_leaf)

end
