(* ===== verification/Timestamps.thy ===== *)
theory Timestamps
  imports Canonical_Json "HOL-Library.Signed_Division"
begin

text \<open>
  Canonical timestamps. \<open>iso8601_from_unix_secs\<close> and \<open>civil_from_days\<close> are
  \<^verbatim>\<open>crates/kernel/lillux/src/time.rs\<close>; \<open>parse_canonical_timestamp\<close> and \<open>validate_canonical_hash\<close>
  are of \<^verbatim>\<open>objects/thread_snapshot.rs\<close>; \<open>clamp_timestamp\<close>, \<open>monotonic_now\<close> are the clock helpers
  of \<^verbatim>\<open>chain/validation.rs\<close>. The reading of the wall clock is an argument. An instant
  (\<open>DateTime<Utc>\<close>) is its number of seconds since the Unix epoch.
\<close>

section \<open>Rendering\<close>

definition as_i32 :: "int \<Rightarrow> int" where
  "as_i32 i = (i + 2147483648) mod 4294967296 - 2147483648"

definition as_u32 :: "int \<Rightarrow> nat" where
  "as_u32 i = nat (i mod 4294967296)"

text \<open>The format directives \<^verbatim>\<open>{:02}\<close> and \<^verbatim>\<open>{:04}\<close>: zero padding after the sign.\<close>

definition pad :: "nat \<Rightarrow> string \<Rightarrow> string" where
  "pad w s = replicate (w - length s) (CHR ''0'') @ s"

definition padded :: "nat \<Rightarrow> nat \<Rightarrow> string" where
  "padded w n = pad w (decimal n)"

definition padded_int :: "nat \<Rightarrow> int \<Rightarrow> string" where
  "padded_int w i = (if i < 0 then CHR ''-'' # padded (w - 1) (nat (- i)) else padded w (nat i))"

definition civil_from_days :: "int \<Rightarrow> int \<times> nat \<times> nat" where
  "civil_from_days days =
     (let z = days + 719468;
          era = (if z \<ge> 0 then z else z - 146096) sdiv 146097;
          doe = as_u32 (z - era * 146097);
          yoe = (doe - doe div 1460 + doe div 36524 - doe div 146096) div 365;
          y = int yoe + era * 400;
          doy = doe - (365 * yoe + yoe div 4 - yoe div 100);
          mp = (5 * doy + 2) div 153;
          d = doy - (153 * mp + 2) div 5 + 1;
          m = (if mp < 10 then mp + 3 else mp - 9);
          y = (if m \<le> 2 then y + 1 else y)
      in (as_i32 y, m, d))"

definition iso8601_from_unix_secs :: "nat \<Rightarrow> string" where
  "iso8601_from_unix_secs secs =
     (let days = secs div 86400;
          day_secs = secs mod 86400;
          hours = day_secs div 3600;
          minutes = (day_secs mod 3600) div 60;
          seconds = day_secs mod 60;
          (year, month, day) = civil_from_days (int days)
      in padded_int 4 year @ ''-'' @ padded 2 month @ ''-'' @ padded 2 day @ ''T''
         @ padded 2 hours @ '':'' @ padded 2 minutes @ '':'' @ padded 2 seconds @ ''Z'')"

text \<open>\<open>clock\<close> is \<open>SystemTime::now\<close> relative to the epoch; an earlier clock reads as zero.\<close>

definition iso8601_now :: "int \<Rightarrow> string" where
  "iso8601_now clock = iso8601_from_unix_secs (nat clock)"

section \<open>Parsing\<close>

definition separators_are_canonical :: "string \<Rightarrow> bool" where
  "separators_are_canonical s \<longleftrightarrow>
     length s = 20 \<and> s ! 4 = CHR ''-'' \<and> s ! 7 = CHR ''-'' \<and> s ! 10 = CHR ''T''
     \<and> s ! 13 = CHR '':'' \<and> s ! 16 = CHR '':'' \<and> s ! 19 = CHR ''Z''"

definition digits_are_ascii :: "string \<Rightarrow> bool" where
  "digits_are_ascii s \<longleftrightarrow>
     separators_are_canonical s
     \<and> list_all (\<lambda>i. is_ascii_digit (s ! i)) [0, 1, 2, 3, 5, 6, 8, 9, 11, 12, 14, 15, 17, 18]"

definition parse_canonical_timestamp :: "'z lib_env_scheme \<Rightarrow> string \<Rightarrow> int result" where
  "parse_canonical_timestamp E s =
     (if \<not> digits_are_ascii s then Inl (Bail ''timestamp form'')
      else if decimal_reading (take 2 (drop 17 s)) > 59 then Inl (Bail ''timestamp seconds'')
      else (case chrono_parse E s of
          None \<Rightarrow> Inl (Bail ''timestamp calendar'')
        | Some t \<Rightarrow>
            let year = decimal_reading (take 4 s)
            in if 1970 \<le> year \<and> year \<le> 9999 then Inr t else Inl (Bail ''timestamp range'')))"

definition validate_canonical_hash :: "string \<Rightarrow> string \<Rightarrow> unit result" where
  "validate_canonical_hash label v =
     (if \<not> valid_hash v \<or> list_ex is_ascii_uppercase v then Inl (Bail label) else Inr ())"

section \<open>Clock helpers\<close>

definition clamp_timestamp :: "'z lib_env_scheme \<Rightarrow> string \<Rightarrow> string \<Rightarrow> string result" where
  "clamp_timestamp E v floor =
     ebind (parse_canonical_timestamp E v) (\<lambda>value_time.
     ebind (parse_canonical_timestamp E floor) (\<lambda>floor_time.
     Inr (if value_time < floor_time then floor else v)))"

fun monotonic_loop :: "'z lib_env_scheme \<Rightarrow> string \<Rightarrow> int \<Rightarrow> string list \<Rightarrow> string result" where
  "monotonic_loop E r t [] = Inr r"
| "monotonic_loop E r t (floor # floors) =
     ebind (parse_canonical_timestamp E floor) (\<lambda>floor_time.
       if floor_time > t then monotonic_loop E floor floor_time floors
       else monotonic_loop E r t floors)"

definition monotonic_now :: "'z lib_env_scheme \<Rightarrow> int \<Rightarrow> string list \<Rightarrow> string result" where
  "monotonic_now E clock floors =
     (let r = iso8601_now clock
      in ebind (parse_canonical_timestamp E r) (\<lambda>t. monotonic_loop E r t floors))"

section \<open>Laws of the helpers\<close>

text \<open>The instant of a timestamp; \<open>at_most E s t\<close> compares two timestamps that both parse.\<close>

definition canonical_ts :: "'z lib_env_scheme \<Rightarrow> string \<Rightarrow> bool" where
  "canonical_ts E s \<longleftrightarrow> is_ok (parse_canonical_timestamp E s)"

definition instant :: "'z lib_env_scheme \<Rightarrow> string \<Rightarrow> int" where
  "instant E s = (case parse_canonical_timestamp E s of Inr t \<Rightarrow> t | Inl _ \<Rightarrow> 0)"

lemma parse_canonical_timestamp_eq_Inr [result_iff]:
  "parse_canonical_timestamp E s = Inr t \<longleftrightarrow> canonical_ts E s \<and> t = instant E s"
  by (auto simp: canonical_ts_def instant_def is_ok_def split: sum.splits)

lemma parse_canonical_ts [simp]:
  "canonical_ts E s \<Longrightarrow> parse_canonical_timestamp E s = Inr (instant E s)"
  by (simp add: result_iff)

lemma validate_canonical_hash_eq_Inr [result_iff]:
  "validate_canonical_hash l v = Inr u \<longleftrightarrow> canonical_cas_hash v"
  by (auto simp: validate_canonical_hash_def canonical_cas_hash_def)

lemma clamp_timestamp_eq_Inr [result_iff]:
  "clamp_timestamp E v floor = Inr w \<longleftrightarrow>
     canonical_ts E v \<and> canonical_ts E floor
     \<and> w = (if instant E v < instant E floor then floor else v)"
  by (auto simp: clamp_timestamp_def result_iff)

lemma monotonic_loop_ok:
  "\<lbrakk> monotonic_loop E r t floors = Inr s; canonical_ts E r; t = instant E r \<rbrakk>
   \<Longrightarrow> canonical_ts E s \<and> instant E r \<le> instant E s
       \<and> (\<forall>f \<in> set floors. canonical_ts E f \<and> instant E f \<le> instant E s)
       \<and> s \<in> insert r (set floors)"
proof (induction floors arbitrary: r t)
  case (Cons f fs)
  show ?case
  proof (cases "instant E f > t")
    case True
    then have "monotonic_loop E f (instant E f) fs = Inr s" "canonical_ts E f"
      using Cons.prems by (auto simp: result_iff)
    from Cons.IH [OF this(1,2) refl] True Cons.prems(3) \<open>canonical_ts E f\<close> show ?thesis by auto
  next
    case False
    then have "monotonic_loop E r t fs = Inr s" "canonical_ts E f"
      using Cons.prems by (auto simp: result_iff)
    from Cons.IH [OF this(1) Cons.prems(2,3)] False Cons.prems(3) \<open>canonical_ts E f\<close>
    show ?thesis by auto
  qed
qed simp

lemma monotonic_now_ok:
  assumes "monotonic_now E clock floors = Inr s"
  shows "canonical_ts E s" and "f \<in> set floors \<Longrightarrow> canonical_ts E f"
    and "f \<in> set floors \<Longrightarrow> instant E f \<le> instant E s"
    and "instant E (iso8601_now clock) \<le> instant E s"
proof -
  have "canonical_ts E (iso8601_now clock)"
    "monotonic_loop E (iso8601_now clock) (instant E (iso8601_now clock)) floors = Inr s"
    using assms by (auto simp: monotonic_now_def result_iff Let_def)
  from monotonic_loop_ok [OF this(2,1) refl] show "canonical_ts E s"
    "f \<in> set floors \<Longrightarrow> canonical_ts E f" "f \<in> set floors \<Longrightarrow> instant E f \<le> instant E s"
    "instant E (iso8601_now clock) \<le> instant E s" by auto
qed

text \<open>Hashes and timestamps are ASCII.\<close>

lemma canonical_hash_utf8: "canonical_cas_hash h \<Longrightarrow> valid_utf8 h"
  by (rule valid_utf8_ascii)
    (auto simp: canonical_cas_hash_def valid_hash_def list_all_iff is_ascii_hexdigit_def is_ascii_digit_def)

lemma canonical_ts_utf8:
  assumes "canonical_ts E s"
  shows "valid_utf8 s"
proof -
  have d: "digits_are_ascii s"
    using assms by (cases "digits_are_ascii s") (auto simp: canonical_ts_def parse_canonical_timestamp_def)
  then have len: "length s = 20" by (simp add: digits_are_ascii_def separators_are_canonical_def)
  have "byte (s ! i) < 128" if "i < 20" for i
  proof -
    have "i \<in> {0, 1, 2, 3, 5, 6, 8, 9, 11, 12, 14, 15, 17, 18} \<union> {4, 7, 10, 13, 16, 19}" using that by simp presburger
    then show ?thesis using d
      by (auto simp: digits_are_ascii_def separators_are_canonical_def is_ascii_digit_def byte_def)
  qed
  then show ?thesis using len by (intro valid_utf8_ascii) (simp add: list_all_length)
qed

end
