(* ===== verification/Project_Authority.thy ===== *)
theory Project_Authority
  imports Timestamps
begin

text \<open>
  The project authority of an execution, \<^verbatim>\<open>objects/execution_project_authority.rs\<close> of the crate
  \<^verbatim>\<open>ryeos-state\<close>, with the string checks of \<^verbatim>\<open>objects/mod.rs\<close> it uses: which project an execution
  may see, under which confinement, with which environment and capabilities, and how the
  authority of a child or of a continuation derives from it. The theorems say that every
  constructor and transition returns a valid authority, and which parts of it a transition
  can change.
\<close>

section \<open>String checks shared by the objects\<close>

definition validate_object_kind :: "string \<Rightarrow> string \<Rightarrow> unit result" where
  "validate_object_kind k expected = require (k = expected) (Bail ''object kind mismatch'')"

definition validate_trimmed_control_free :: "string \<Rightarrow> string \<Rightarrow> bool \<Rightarrow> unit result" where
  "validate_trimmed_control_free label v allow_empty =
     (if (\<not> allow_empty \<and> v = []) \<or> \<not> is_trimmed v then Inl (Bail label)
      else if has_control v then Inl (Bail label)
      else Inr ())"

definition validate_hash :: "string \<Rightarrow> string \<Rightarrow> unit result" where
  "validate_hash label v =
     require (length v = 64 \<and> list_all is_ascii_hexdigit v) (Bail label)"

definition validate_absolute_normal_path :: "string \<Rightarrow> string \<Rightarrow> unit result" where
  "validate_absolute_normal_path label p =
     (if \<not> path_is_absolute p
         \<or> list_ex (\<lambda>c. case c of RootDir \<Rightarrow> False | Normal _ \<Rightarrow> False | _ \<Rightarrow> True) (path_components p)
      then Inl (Bail label) else Inr ())"

text \<open>
  The loops that check a list entry by entry and compare each entry with the one before.
\<close>

fun strictly_sorted_loop ::
  "(string \<Rightarrow> unit result) \<Rightarrow> error \<Rightarrow> string option \<Rightarrow> string list \<Rightarrow> unit result" where
  "strictly_sorted_loop f e previous [] = Inr ()"
| "strictly_sorted_loop f e previous (x # xs) =
     ebind (f x) (\<lambda>_.
       if (case previous of None \<Rightarrow> False | Some p \<Rightarrow> p \<ge> x) then Inl e
       else strictly_sorted_loop f e (Some x) xs)"

definition validate_sorted_relative_paths :: "string \<Rightarrow> string list \<Rightarrow> unit result" where
  "validate_sorted_relative_paths label paths =
     strictly_sorted_loop (\<lambda>p.
         ebind (validate_trimmed_control_free label p False) (\<lambda>_.
           if path_is_absolute p
              \<or> list_ex (\<lambda>c. case c of Normal _ \<Rightarrow> False | _ \<Rightarrow> True) (path_components p)
           then Inl (Bail label) else Inr ()))
       (Bail label) None paths"

definition env_name_bytes :: "string \<Rightarrow> bool" where
  "env_name_bytes name \<longleftrightarrow>
     list_all (\<lambda>(i, b). b = CHR ''_'' \<or> is_ascii_uppercase b \<or> i > 0 \<and> is_ascii_digit b)
       (enumerate 0 name)"

definition validate_allowed_names :: "string list \<Rightarrow> unit result" where
  "validate_allowed_names names =
     strictly_sorted_loop (\<lambda>name.
         ebind (validate_trimmed_control_free ''environment name'' name False) (\<lambda>_.
           require (env_name_bytes name) (Bail ''invalid canonical environment name'')))
       (Bail ''environment names must be strictly sorted and unique'') None names"

definition validate_capability_ceiling :: "string list \<Rightarrow> unit result" where
  "validate_capability_ceiling caps =
     strictly_sorted_loop (\<lambda>c. validate_trimmed_control_free ''capability ceiling entry'' c False)
       (Bail ''capability ceiling must be strictly sorted and unique'') None caps"

text \<open>\<open>slice::binary_search_by\<close> on strings: whether the name is found.\<close>

fun bisect :: "string list \<Rightarrow> string \<Rightarrow> nat \<Rightarrow> nat \<Rightarrow> nat" where
  "bisect xs x base n =
     (if n \<le> 1 then base
      else let half = n div 2; mid = base + half
           in bisect xs x (if xs ! mid > x then base else mid) (n - half))"

declare bisect.simps [simp del]

definition binary_search :: "string list \<Rightarrow> string \<Rightarrow> bool" where
  "binary_search xs x \<longleftrightarrow> xs \<noteq> [] \<and> xs ! (bisect xs x 0 (length xs)) = x"

section \<open>The data\<close>

datatype execution_launch_driver = ManagedRuntime | DirectItemExecutor

datatype execution_ownership_authority = RequestScoped | DaemonOwned

datatype execution_recovery_authority = RecoveryNone | RestartRecoverable

record execution_lifecycle_authority =
  ownership :: execution_ownership_authority
  recovery :: execution_recovery_authority

datatype live_project_access = LiveReadOnly | LiveReadWrite

datatype live_symlink_policy = DescriptorRootedNoEscape

datatype live_filesystem_confinement =
    DescriptorRootedMasked "string list" live_symlink_policy
  | UnconfinedHost

record live_access_authority =
  access :: live_project_access
  authorized_write_namespaces :: "string list"
  confinement :: live_filesystem_confinement

datatype pinned_terminal_publication =
    Discard
  | RetainResult
  | AdvanceHead (head_ref: string) (expected_hash: string)

datatype pinned_project_realization = PinnedReadOnly | Cow pinned_terminal_publication

datatype pinned_child_project_realization = ChildReadOnly | CowDiscard

datatype child_project_authority_policy = Inherit | PinAtSpawn pinned_child_project_realization

datatype operational_project_authority_transition =
    InheritContinuation
  | SelectPinnedChildGeneration string
  | SealPinnedCowCheckpoint string
  | AdvancePinnedCowContinuation string

datatype environment_name_authority = DeclaredRequired | Exact "string list"

datatype environment_authority =
    EnvNone
  | ProjectOverlay (project_authority_id: string) (source_identity: string)
      (include_operator_vault: bool) (overlay_names: environment_name_authority)
  | Vault string environment_name_authority
  | Delegated string string environment_name_authority

datatype execution_project_authority =
    Projectless environment_authority
  | LiveProject (authority_id: string) (authored_project_identity: string) (canonical_root: string)
      live_access_authority environment_authority "string list" child_project_authority_policy
  | PinnedGeneration (stable_project_identity: string) (display_path: "string option")
      (snapshot_hash: string) pinned_project_realization environment_authority "string list"
      child_project_authority_policy

section \<open>Lifecycle\<close>

definition daemon_restartable :: execution_lifecycle_authority where
  "daemon_restartable = \<lparr> ownership = DaemonOwned, recovery = RestartRecoverable \<rparr>"

definition daemon_non_recoverable :: execution_lifecycle_authority where
  "daemon_non_recoverable = \<lparr> ownership = DaemonOwned, recovery = RecoveryNone \<rparr>"

definition request_scoped :: execution_lifecycle_authority where
  "request_scoped = \<lparr> ownership = RequestScoped, recovery = RecoveryNone \<rparr>"

definition validate_lifecycle :: "execution_lifecycle_authority \<Rightarrow> unit result" where
  "validate_lifecycle a =
     (if ownership a = RequestScoped \<and> recovery a = RestartRecoverable
      then Inl (Bail ''request-scoped execution cannot be restart-recoverable'') else Inr ())"

definition permits_durable_handoff :: "execution_lifecycle_authority \<Rightarrow> bool" where
  "permits_durable_handoff a \<longleftrightarrow> ownership a = DaemonOwned"

section \<open>Confinement\<close>

definition never_deploy_secrets :: "string list" where
  "never_deploy_secrets =
     [''.env'', ''.ai/node/identity'', ''.ai/node/auth'', ''.ai/node/vault'', ''.ai/config/keys/signing'']"

definition node_owned :: "string list" where
  "node_owned = [''.ai/state'', ''.ai/node/schedules'', ''.ai/node/routes'', ''.ai/node/bundles'']"

definition live_execution_denied_control_paths :: "string list" where
  "live_execution_denied_control_paths = remdups_adj (sort (never_deploy_secrets @ node_owned))"

definition standard_descriptor_rooted :: live_filesystem_confinement where
  "standard_descriptor_rooted =
     DescriptorRootedMasked live_execution_denied_control_paths DescriptorRootedNoEscape"

definition validate_live_access :: "live_access_authority \<Rightarrow> unit result" where
  "validate_live_access a =
     ebind (case confinement a of
         DescriptorRootedMasked denied DescriptorRootedNoEscape \<Rightarrow>
           validate_sorted_relative_paths ''denied live control path'' denied
       | UnconfinedHost \<Rightarrow>
           require (access a \<noteq> LiveReadOnly) (Bail ''unconfined host live access'')) (\<lambda>_.
     ebind (strictly_sorted_loop
         (\<lambda>n. validate_trimmed_control_free ''live write namespace'' n False)
         (Bail ''live write namespaces must be strictly sorted and unique'') None
         (authorized_write_namespaces a)) (\<lambda>_.
     case access a of
         LiveReadOnly \<Rightarrow> require (authorized_write_namespaces a = [])
             (Bail ''read-only live authority cannot carry write namespaces'')
       | LiveReadWrite \<Rightarrow> require (authorized_write_namespaces a \<noteq> [])
             (Bail ''read-write live authority requires a write namespace'')))"

section \<open>Environment\<close>

primrec validate_name_authority :: "environment_name_authority \<Rightarrow> unit result" where
  "validate_name_authority DeclaredRequired = Inr ()"
| "validate_name_authority (Exact names) = validate_allowed_names names"

primrec permits_declared :: "environment_name_authority \<Rightarrow> string \<Rightarrow> bool" where
  "permits_declared DeclaredRequired name = True"
| "permits_declared (Exact names) name = binary_search names name"

primrec validate_environment :: "environment_authority \<Rightarrow> bool \<Rightarrow> unit result" where
  "validate_environment EnvNone project_backed = Inr ()"
| "validate_environment (ProjectOverlay authority source vault names) project_backed =
     ebind (require project_backed (Bail ''project environment overlay requires project authority'')) (\<lambda>_.
     ebind (validate_trimmed_control_free ''environment project authority id'' authority False) (\<lambda>_.
     ebind (validate_trimmed_control_free ''environment source identity'' source False) (\<lambda>_.
     validate_name_authority names)))"
| "validate_environment (Vault namespace names) project_backed =
     ebind (validate_trimmed_control_free ''vault namespace'' namespace False) (\<lambda>_.
     validate_name_authority names)"
| "validate_environment (Delegated provider grant names) project_backed =
     ebind (validate_trimmed_control_free ''delegated environment provider'' provider False) (\<lambda>_.
     ebind (validate_trimmed_control_free ''delegated environment grant'' grant False) (\<lambda>_.
     validate_name_authority names))"

section \<open>Authorities\<close>

definition live_authority_id :: "'z lib_env_scheme \<Rightarrow> string \<Rightarrow> string \<Rightarrow> string" where
  "live_authority_id E identity root =
     sha256_hex E (''live-project'' @ [CHR 0x00] @ identity @ [CHR 0x00] @ root)"

fun validate_authority :: "'z lib_env_scheme \<Rightarrow> execution_project_authority \<Rightarrow> unit result" where
  "validate_authority E (Projectless environment) = validate_environment environment False"
| "validate_authority E (LiveProject aid identity root live environment caps child) =
     ebind (validate_hash ''live project authority id'' aid) (\<lambda>_.
     ebind (validate_trimmed_control_free ''authored project identity'' identity False) (\<lambda>_.
     ebind (validate_absolute_normal_path ''live project root'' root) (\<lambda>_.
     ebind (validate_live_access live) (\<lambda>_.
     ebind (require (aid = live_authority_id E identity root)
         (Bail ''live project authority id is not canonical'')) (\<lambda>_.
     ebind (case environment of
         ProjectOverlay paid _ _ _ \<Rightarrow>
           require (paid = aid) (Bail ''live project environment authority is bound to another project'')
       | _ \<Rightarrow> Inr ()) (\<lambda>_.
     ebind (validate_environment environment True) (\<lambda>_.
     validate_capability_ceiling caps)))))))"
| "validate_authority E (PinnedGeneration identity path hash realization environment caps child) =
     ebind (validate_trimmed_control_free ''stable project identity'' identity False) (\<lambda>_.
     ebind (if_some (validate_absolute_normal_path ''pinned project display path'') path) (\<lambda>_.
     ebind (validate_hash ''project snapshot hash'' hash) (\<lambda>_.
     ebind (validate_environment environment True) (\<lambda>_.
     ebind (case environment of
         ProjectOverlay paid _ _ _ \<Rightarrow>
           ebind (ok_or path (Bail ''pinned project overlay requires its original live project path'')) (\<lambda>root.
           require (paid = live_authority_id E identity root)
             (Bail ''pinned project environment authority is not bound to its original live project''))
       | _ \<Rightarrow> Inr ()) (\<lambda>_.
     ebind (case realization of
         Cow (AdvanceHead href expected) \<Rightarrow>
           ebind (validate_trimmed_control_free ''HEAD ref'' href False) (\<lambda>_.
           validate_hash ''HEAD expected hash'' expected)
       | _ \<Rightarrow> Inr ()) (\<lambda>_.
     validate_capability_ceiling caps))))))"

definition projectless_authority :: execution_project_authority where
  "projectless_authority = Projectless EnvNone"

definition validated ::
  "'z lib_env_scheme \<Rightarrow> execution_project_authority \<Rightarrow> execution_project_authority result" where
  "validated E a = ebind (validate_authority E a) (\<lambda>_. Inr a)"

definition projectless ::
  "'z lib_env_scheme \<Rightarrow> environment_authority \<Rightarrow> execution_project_authority result" where
  "projectless E environment = validated E (Projectless environment)"

definition live ::
  "'z lib_env_scheme \<Rightarrow> bool \<Rightarrow> string \<Rightarrow> string \<Rightarrow> live_project_access \<Rightarrow> live_filesystem_confinement
    \<Rightarrow> environment_authority \<Rightarrow> string list \<Rightarrow> execution_project_authority result" where
  "live E is_dir root identity acc conf environment caps =
     ebind (validate_absolute_normal_path ''live project root'' root) (\<lambda>_.
     ebind (validate_trimmed_control_free ''authored project identity'' identity False) (\<lambda>_.
     ebind (require is_dir (Bail ''live project root is not a directory'')) (\<lambda>_.
     let namespaces = (case acc of LiveReadOnly \<Rightarrow> [] | LiveReadWrite \<Rightarrow> [''project'']);
         aid = live_authority_id E identity root;
         environment' = (case environment of
             ProjectOverlay _ source vault names \<Rightarrow> ProjectOverlay aid source vault names
           | _ \<Rightarrow> environment)
     in validated E (LiveProject aid identity root
          \<lparr> access = acc, authorized_write_namespaces = namespaces, confinement = conf \<rparr>
          environment' caps Inherit))))"

definition pinned ::
  "'z lib_env_scheme \<Rightarrow> string \<Rightarrow> string option \<Rightarrow> string \<Rightarrow> pinned_project_realization
    \<Rightarrow> environment_authority \<Rightarrow> string list \<Rightarrow> execution_project_authority result" where
  "pinned E identity path hash realization environment caps =
     validated E (PinnedGeneration identity path hash realization environment caps Inherit)"

definition with_capability_ceiling ::
  "'z lib_env_scheme \<Rightarrow> execution_project_authority \<Rightarrow> string list
    \<Rightarrow> execution_project_authority result" where
  "with_capability_ceiling E a capability_ceiling =
     (let caps = remdups_adj (sort capability_ceiling)
      in case a of
          Projectless environment \<Rightarrow>
            ebind (require (caps = [])
              (Bail ''projectless authority cannot carry a project capability ceiling'')) (\<lambda>_. validated E a)
        | LiveProject aid identity root lacc environment _ child \<Rightarrow>
            validated E (LiveProject aid identity root lacc environment caps child)
        | PinnedGeneration identity path hash realization environment _ child \<Rightarrow>
            validated E (PinnedGeneration identity path hash realization environment caps child))"

definition for_child ::
  "'z lib_env_scheme \<Rightarrow> execution_project_authority \<Rightarrow> execution_project_authority result" where
  "for_child E a =
     validated E (case a of
         PinnedGeneration identity path hash (Cow _) environment caps child \<Rightarrow>
           PinnedGeneration identity path hash (Cow Discard) environment caps child
       | _ \<Rightarrow> a)"

definition with_pinned_snapshot_hash ::
  "'z lib_env_scheme \<Rightarrow> execution_project_authority \<Rightarrow> string
    \<Rightarrow> execution_project_authority result" where
  "with_pinned_snapshot_hash E a hash =
     ebind (validate_hash ''project snapshot hash'' hash) (\<lambda>_.
     case a of
       PinnedGeneration identity path _ realization environment caps child \<Rightarrow>
         validated E (PinnedGeneration identity path hash realization environment caps child)
     | _ \<Rightarrow> Inl (Bail ''only pinned project authority can advance an operational generation''))"

definition advance_pinned_cow ::
  "'z lib_env_scheme \<Rightarrow> execution_project_authority \<Rightarrow> string
    \<Rightarrow> execution_project_authority result" where
  "advance_pinned_cow E a hash =
     ebind (validate_hash ''operational project snapshot hash'' hash) (\<lambda>_.
     case a of
       PinnedGeneration _ _ _ (Cow _) _ _ _ \<Rightarrow> with_pinned_snapshot_hash E a hash
     | PinnedGeneration _ _ _ PinnedReadOnly _ _ _ \<Rightarrow>
         Inl (Bail ''read-only pinned project authority cannot advance a continuation generation'')
     | _ \<Rightarrow> Inl (Bail ''only pinned COW project authority can advance a continuation generation''))"

primrec transition_operational_generation ::
  "'z lib_env_scheme \<Rightarrow> execution_project_authority \<Rightarrow> operational_project_authority_transition
    \<Rightarrow> execution_project_authority result" where
  "transition_operational_generation E a InheritContinuation = validated E a"
| "transition_operational_generation E a (SelectPinnedChildGeneration hash) =
     with_pinned_snapshot_hash E a hash"
| "transition_operational_generation E a (SealPinnedCowCheckpoint hash) = advance_pinned_cow E a hash"
| "transition_operational_generation E a (AdvancePinnedCowContinuation hash) =
     advance_pinned_cow E a hash"

definition with_child_policy ::
  "'z lib_env_scheme \<Rightarrow> execution_project_authority \<Rightarrow> child_project_authority_policy
    \<Rightarrow> execution_project_authority result" where
  "with_child_policy E a child =
     (case a of
        Projectless environment \<Rightarrow>
          ebind (require (child = Inherit)
            (Bail ''projectless execution cannot pin project state at child spawn'')) (\<lambda>_. validated E a)
      | LiveProject aid identity root lacc environment caps _ \<Rightarrow>
          validated E (LiveProject aid identity root lacc environment caps child)
      | PinnedGeneration identity path hash realization environment caps _ \<Rightarrow>
          validated E (PinnedGeneration identity path hash realization environment caps child))"

section \<open>Projections\<close>

primrec child_policy :: "execution_project_authority \<Rightarrow> child_project_authority_policy" where
  "child_policy (Projectless environment) = Inherit"
| "child_policy (LiveProject aid identity root lacc environment caps child) = child"
| "child_policy (PinnedGeneration identity path hash realization environment caps child) = child"

fun terminal_publication :: "execution_project_authority \<Rightarrow> pinned_terminal_publication option" where
  "terminal_publication (PinnedGeneration _ _ _ (Cow p) _ _ _) = Some p"
| "terminal_publication _ = None"

primrec project_root_projection :: "execution_project_authority \<Rightarrow> string option" where
  "project_root_projection (Projectless environment) = None"
| "project_root_projection (LiveProject aid identity root lacc environment caps child) = Some root"
| "project_root_projection (PinnedGeneration identity path hash realization environment caps child) = path"

primrec base_snapshot_projection :: "execution_project_authority \<Rightarrow> string option" where
  "base_snapshot_projection (Projectless environment) = None"
| "base_snapshot_projection (LiveProject aid identity root lacc environment caps child) = None"
| "base_snapshot_projection (PinnedGeneration identity path hash realization environment caps child) =
     Some hash"

primrec environment_of :: "execution_project_authority \<Rightarrow> environment_authority" where
  "environment_of (Projectless environment) = environment"
| "environment_of (LiveProject aid identity root lacc environment caps child) = environment"
| "environment_of (PinnedGeneration identity path hash realization environment caps child) = environment"

fun live_access :: "execution_project_authority \<Rightarrow> live_access_authority option" where
  "live_access (LiveProject _ _ _ lacc _ _ _) = Some lacc"
| "live_access _ = None"

definition authorized_live_write_root :: "execution_project_authority \<Rightarrow> string \<Rightarrow> string result" where
  "authorized_live_write_root a namespace =
     ebind (validate_trimmed_control_free ''live write namespace'' namespace False) (\<lambda>_.
     case a of
       LiveProject aid identity root lacc environment caps child \<Rightarrow>
         ebind (require (access lacc = LiveReadWrite) (Bail ''requires read-write project authority'')) (\<lambda>_.
         ebind (require (binary_search (authorized_write_namespaces lacc) namespace)
             (Bail ''does not grant write namespace'')) (\<lambda>_.
         Inr root))
     | _ \<Rightarrow> Inl (Bail ''requires live project authority''))"

fun requires_project_foldback :: "execution_project_authority \<Rightarrow> bool" where
  "requires_project_foldback (PinnedGeneration _ _ _ (Cow _) _ _ _) = True"
| "requires_project_foldback _ = False"

fun records_terminal_project_generation :: "execution_project_authority \<Rightarrow> bool" where
  "records_terminal_project_generation (PinnedGeneration _ _ _ (Cow RetainResult) _ _ _) = True"
| "records_terminal_project_generation (PinnedGeneration _ _ _ (Cow (AdvanceHead _ _)) _ _ _) = True"
| "records_terminal_project_generation _ = False"

section \<open>What the checks accept\<close>

lemma strictly_sorted_loop_eq_Inr [result_iff]:
  "strictly_sorted_loop f e previous xs = Inr u \<longleftrightarrow>
     (\<forall>x \<in> set xs. f x = Inr ()) \<and> sorted_wrt (<) xs
     \<and> (\<forall>p x ys. previous = Some p \<longrightarrow> xs = x # ys \<longrightarrow> p < x)"
proof (induction f e previous xs rule: strictly_sorted_loop.induct)
  case (2 f e previous x xs)
  show ?case
  proof (cases "f x = Inr () \<and> (case previous of None \<Rightarrow> True | Some p \<Rightarrow> p < x)")
    case True
    then have "strictly_sorted_loop f e previous (x # xs) = strictly_sorted_loop f e (Some x) xs"
      by (auto split: option.splits)
    moreover have "strictly_sorted_loop f e (Some x) xs = Inr u \<longleftrightarrow>
        (\<forall>y \<in> set xs. f y = Inr ()) \<and> sorted_wrt (<) xs \<and> (\<forall>y ys. xs = y # ys \<longrightarrow> x < y)"
      using 2 True by (auto split: option.splits)
    moreover have "sorted_wrt (<) (x # xs) \<longleftrightarrow> sorted_wrt (<) xs \<and> (\<forall>y ys. xs = y # ys \<longrightarrow> x < y)"
      by (cases xs) auto
    ultimately show ?thesis using True by (auto split: option.splits)
  next
    case False
    then have "strictly_sorted_loop f e previous (x # xs) \<noteq> Inr u"
      by (cases "f x") (auto split: option.splits)
    then show ?thesis using False by (auto split: option.splits)
  qed
qed simp

lemma validate_trimmed_control_free_eq_Inr [result_iff]:
  "validate_trimmed_control_free l v ae = Inr u \<longleftrightarrow>
     (ae \<or> v \<noteq> []) \<and> is_trimmed v \<and> \<not> has_control v"
  by (auto simp: validate_trimmed_control_free_def)

lemma validate_hash_eq_Inr [result_iff]: "validate_hash l v = Inr u \<longleftrightarrow> valid_hash v"
  by (simp add: validate_hash_def valid_hash_def result_iff)

lemma validated_eq_Inr [result_iff]:
  "validated E a = Inr b \<longleftrightarrow> b = a \<and> validate_authority E a = Inr ()"
  by (auto simp: validated_def result_iff)

lemma bisect_finds:
  assumes "sorted_wrt (<) xs" and "i < length xs"
  shows "\<lbrakk> base \<le> i; i < base + n; base + n \<le> length xs \<rbrakk> \<Longrightarrow> bisect xs (xs ! i) base n = i"
proof (induction n arbitrary: base rule: less_induct)
  case (less n)
  show ?case
  proof (cases "n \<le> 1")
    case True
    with less.prems show ?thesis by (simp add: bisect.simps)
  next
    case False
    let ?mid = "base + n div 2"
    have mid: "?mid < length xs" using False less.prems(3) by linarith
    have side: "xs ! ?mid > xs ! i \<longleftrightarrow> i < ?mid"
      using assms mid by (metis linorder_neqE_nat order.asym sorted_wrt_nth_less)
    have "bisect xs (xs ! i) (if xs ! ?mid > xs ! i then base else ?mid) (n - n div 2) = i"
      unfolding side by (rule less.IH) (use False less.prems in auto)
    with False show ?thesis by (subst bisect.simps) (simp add: Let_def)
  qed
qed

lemma bisect_bound: "0 < n \<Longrightarrow> base + n \<le> length xs \<Longrightarrow> bisect xs x base n < length xs"
proof (induction xs x base n rule: bisect.induct)
  case (1 xs x base n)
  show ?case
  proof (cases "n \<le> 1")
    case True
    with 1 show ?thesis by (simp add: bisect.simps)
  next
    case False
    have "bisect xs x (if xs ! (base + n div 2) > x then base else base + n div 2) (n - n div 2)
        < length xs"
      by (rule 1(1)) (use False 1 in auto)
    with False show ?thesis by (subst bisect.simps) (simp add: Let_def)
  qed
qed

lemma binary_search_iff:
  assumes "sorted_wrt (<) xs"
  shows "binary_search xs x \<longleftrightarrow> x \<in> set xs"
proof
  assume "binary_search xs x"
  then show "x \<in> set xs"
    using bisect_bound [of "length xs" 0 xs x] nth_mem by (fastforce simp: binary_search_def)
next
  assume "x \<in> set xs"
  then obtain i where "i < length xs" "xs ! i = x" by (auto simp: in_set_conv_nth)
  with bisect_finds [OF assms, of i 0 "length xs"] show "binary_search xs x"
    by (auto simp: binary_search_def)
qed

lemma allowed_names_sorted: "validate_allowed_names names = Inr () \<Longrightarrow> sorted_wrt (<) names"
  by (simp add: validate_allowed_names_def result_iff)

lemma live_access_sorted:
  "validate_live_access a = Inr () \<Longrightarrow> sorted_wrt (<) (authorized_write_namespaces a)"
  by (simp add: validate_live_access_def result_iff)


section \<open>What authorities promise\<close>

text \<open>
  The parts of an authority that deriving another one must keep: its kind, its project, the
  environment and the capability ceiling.
\<close>

fun same_grant :: "execution_project_authority \<Rightarrow> execution_project_authority \<Rightarrow> bool" where
  "same_grant (Projectless e) b \<longleftrightarrow> b = Projectless e"
| "same_grant (LiveProject aid i r l e c p) b \<longleftrightarrow> (\<exists>p'. b = LiveProject aid i r l e c p')"
| "same_grant (PinnedGeneration i d h re e c p) b \<longleftrightarrow>
     (\<exists>h' re' p'. b = PinnedGeneration i d h' re' e c p' \<and> (re = PinnedReadOnly \<longleftrightarrow> re' = PinnedReadOnly))"

text \<open>
  C35: a transition of the operational generation returns a valid authority that grants the
  same project, environment, ceiling, realization and child policy; only the pinned snapshot
  changes, and checkpoints and continuations change it for copy-on-write realizations only.
\<close>

theorem transition_keeps_grant:
  assumes "transition_operational_generation E a t = Inr b"
  shows "validate_authority E b = Inr () \<and> same_grant a b
    \<and> terminal_publication b = terminal_publication a \<and> child_policy b = child_policy a
    \<and> (case t of
         InheritContinuation \<Rightarrow> b = a
       | SelectPinnedChildGeneration h \<Rightarrow> base_snapshot_projection b = Some h
       | SealPinnedCowCheckpoint h \<Rightarrow> requires_project_foldback a \<and> base_snapshot_projection b = Some h
       | AdvancePinnedCowContinuation h \<Rightarrow>
           requires_project_foldback a \<and> base_snapshot_projection b = Some h)"
proof -
  have pin: "validate_authority E b = Inr () \<and> same_grant a b
      \<and> terminal_publication b = terminal_publication a \<and> child_policy b = child_policy a
      \<and> base_snapshot_projection b = Some h"
    if "with_pinned_snapshot_hash E a h = Inr b" for h
  proof (cases a)
    case (PinnedGeneration i d h0 re e c p)
    with that have "b = PinnedGeneration i d h re e c p" "validate_authority E b = Inr ()"
      by (simp_all add: with_pinned_snapshot_hash_def result_iff del: validate_authority.simps)
    with PinnedGeneration show ?thesis by (cases re) (simp_all del: validate_authority.simps)
  qed (use that in \<open>auto simp: with_pinned_snapshot_hash_def result_iff\<close>)
  have cow: "requires_project_foldback a \<and> with_pinned_snapshot_hash E a h = Inr b"
    if "advance_pinned_cow E a h = Inr b" for h
    using that by (auto simp: advance_pinned_cow_def result_iff
        split: execution_project_authority.splits pinned_project_realization.splits)
  have "same_grant a a" by (cases a) auto
  with assms pin cow show ?thesis
    by (cases t) (auto simp: result_iff simp del: validate_authority.simps)
qed

definition sample_hash :: string where
  "sample_hash = replicate 64 (CHR ''a'')"

definition sample_pinned :: execution_project_authority where
  "sample_pinned = PinnedGeneration ''demo'' None sample_hash (Cow RetainResult) EnvNone [''fs.read''] Inherit"

theorem transition_keeps_grant_witness:
  "base_snapshot_projection
     (PinnedGeneration ''demo'' None (replicate 64 (CHR ''b'')) (Cow RetainResult) EnvNone [''fs.read''] Inherit)
     = Some (replicate 64 (CHR ''b''))
   \<and> requires_project_foldback sample_pinned"
proof -
  have "transition_operational_generation sample_lib_env sample_pinned
      (SealPinnedCowCheckpoint (replicate 64 (CHR ''b''))) =
    Inr (PinnedGeneration ''demo'' None (replicate 64 (CHR ''b'')) (Cow RetainResult) EnvNone
      [''fs.read''] Inherit)"
    by code_simp
  from transition_keeps_grant [OF this] show ?thesis by simp
qed

text \<open>
  C36: the authority handed to a child grants the same project under the same environment and
  ceiling and never publishes a terminal project generation.
\<close>

theorem for_child_never_publishes:
  assumes "for_child E a = Inr b"
  shows "validate_authority E b = Inr () \<and> same_grant a b \<and> child_policy b = child_policy a
    \<and> terminal_publication b \<in> {None, Some Discard} \<and> \<not> records_terminal_project_generation b"
proof (cases a)
  case (PinnedGeneration i d h re e c p)
  with assms show ?thesis
    by (cases re) (auto simp: for_child_def result_iff simp del: validate_authority.simps)
qed (use assms in \<open>auto simp: for_child_def result_iff simp del: validate_authority.simps\<close>)

theorem for_child_never_publishes_witness:
  "\<exists>b. for_child sample_lib_env sample_pinned = Inr b
     \<and> terminal_publication b \<in> {None, Some Discard} \<and> records_terminal_project_generation sample_pinned"
proof -
  have "for_child sample_lib_env sample_pinned =
    Inr (PinnedGeneration ''demo'' None sample_hash (Cow Discard) EnvNone [''fs.read''] Inherit)"
    by code_simp
  from this for_child_never_publishes [OF this] show ?thesis by (auto simp: sample_pinned_def)
qed


definition sample_live :: execution_project_authority where
  "sample_live = LiveProject (live_authority_id sample_lib_env ''demo'' ''/srv/demo'') ''demo'' ''/srv/demo''
     \<lparr> access = LiveReadWrite, authorized_write_namespaces = [''project''],
       confinement = DescriptorRootedMasked [''.env''] DescriptorRootedNoEscape \<rparr> EnvNone [] Inherit"


text \<open>
  C38: an environment that passes its check permits exactly the names it lists: the search by
  bisection decides membership.
\<close>

theorem permits_declared_iff:
  assumes "validate_environment e project_backed = Inr ()" and "e = Vault ns (Exact names)
      \<or> e = Delegated pr gr (Exact names) \<or> e = ProjectOverlay au so va (Exact names)"
  shows "permits_declared (Exact names) name \<longleftrightarrow> name \<in> set names"
proof -
  have "sorted_wrt (<) names"
    using assms by (auto simp: result_iff intro: allowed_names_sorted)
  then show ?thesis by (simp add: binary_search_iff)
qed

theorem permits_declared_iff_witness:
  "permits_declared (Exact [''HOME'', ''PATH'', ''USER'']) ''PATH''
   \<and> \<not> permits_declared (Exact [''HOME'', ''PATH'', ''USER'']) ''LANG''"
proof -
  have "validate_environment (Vault ''ops'' (Exact [''HOME'', ''PATH'', ''USER''])) True = Inr ()"
    by code_simp
  from permits_declared_iff [OF this, of "''ops''" "[''HOME'', ''PATH'', ''USER'']"] show ?thesis by simp
qed

end
