(* ===== verification/Thread_Snapshot.thy ===== *)
theory Thread_Snapshot
  imports Project_Authority
begin

text \<open>
  Thread snapshots, \<^verbatim>\<open>objects/thread_snapshot.rs\<close>: usage, the captured history policy with its
  provenance, the thread status, the snapshot record and its validation. The record's fields
  carry the prefix \<open>snap_\<close>; the builder's setters are record updates. An \<open>f64\<close> is its bit
  pattern. \<open>PathBuf\<close> equality compares path components, so the derived equalities on types
  that hold paths are written out.
\<close>

section \<open>Usage\<close>

definition is_lower_digit :: "nat \<Rightarrow> bool" where
  "is_lower_digit c \<longleftrightarrow> 97 \<le> c \<and> c \<le> 122 \<or> 48 \<le> c \<and> c \<le> 57"

record usage_subject =
  us_namespace :: string
  us_subject :: string

definition validate_usage_namespace :: "string \<Rightarrow> unit result" where
  "validate_usage_namespace v =
     ebind (require (v \<noteq> [] \<and> length v \<le> 64) (Bail ''usage_subject.namespace length'')) (\<lambda>_.
     ebind (require (is_lower_digit (hd (utf8_chars v))) (Bail ''usage_subject.namespace start'')) (\<lambda>_.
     require (list_all (\<lambda>c. is_lower_digit c \<or> c = 95 \<or> c = 45) (utf8_chars v))
       (Bail ''usage_subject.namespace characters'')))"

definition validate_usage_subject :: "string \<Rightarrow> unit result" where
  "validate_usage_subject v =
     ebind (require (v \<noteq> [] \<and> length v \<le> 256) (Bail ''usage_subject.subject length'')) (\<lambda>_.
     require (\<not> has_control v) (Bail ''usage_subject.subject control characters''))"

definition validate_UsageSubject :: "usage_subject \<Rightarrow> unit result" where
  "validate_UsageSubject u =
     ebind (validate_usage_namespace (us_namespace u)) (\<lambda>_. validate_usage_subject (us_subject u))"

record thread_usage =
  completed_turns :: nat
  input_tokens :: nat
  output_tokens :: nat
  spend_usd :: "64 word"
  spawns_used :: nat
  usage_started_at :: string
  usage_settled_at :: string
  last_settled_turn_seq :: nat
  elapsed_ms :: nat
  usage_provider_id :: "string option"
  usage_model :: "string option"
  usage_profile :: "string option"

text \<open>\<open>x < 0.0\<close>: the sign bit is set and the value is neither zero nor a NaN.\<close>

definition f64_is_nan :: "64 word \<Rightarrow> bool" where
  "f64_is_nan x \<longleftrightarrow> f64_exponent x = 2047 \<and> unat x mod 2 ^ 52 \<noteq> 0"

definition f64_lt_zero :: "64 word \<Rightarrow> bool" where
  "f64_lt_zero x \<longleftrightarrow> unat x > 2 ^ 63 \<and> \<not> f64_is_nan x"

definition validate_usage :: "'z lib_env_scheme \<Rightarrow> thread_usage \<Rightarrow> unit result" where
  "validate_usage E u =
     ebind (parse_canonical_timestamp E (usage_started_at u)) (\<lambda>started.
     ebind (parse_canonical_timestamp E (usage_settled_at u)) (\<lambda>settled.
     ebind (require (\<not> settled < started) (Bail ''settled_at must not precede started_at'')) (\<lambda>_.
     require (\<not> (\<not> f64_is_finite (spend_usd u) \<or> f64_lt_zero (spend_usd u)))
       (Bail ''spend_usd must be finite and non-negative''))))"

section \<open>Item references\<close>

definition is_kind_char :: "nat \<Rightarrow> bool" where
  "is_kind_char c \<longleftrightarrow> is_lower_digit c \<or> c = 95 \<or> c = 45"

definition is_ascii_alphanumeric_nat :: "nat \<Rightarrow> bool" where
  "is_ascii_alphanumeric_nat c \<longleftrightarrow> 65 \<le> c \<and> c \<le> 90 \<or> is_lower_digit c"

definition is_alphanumeric :: "'z lib_env_scheme \<Rightarrow> nat \<Rightarrow> bool" where
  "is_alphanumeric E c \<longleftrightarrow> (if c < 128 then is_ascii_alphanumeric_nat c else unicode_alphanumeric E c)"

definition bare_id_ok :: "'z lib_env_scheme \<Rightarrow> string \<Rightarrow> bool" where
  "bare_id_ok E b \<longleftrightarrow>
     b \<noteq> []
     \<and> list_all (\<lambda>c. is_alphanumeric E c \<or> c \<in> {47, 45, 95, 46}) (utf8_chars b)
     \<and> hd b \<noteq> CHR ''/'' \<and> last b \<noteq> CHR ''/''
     \<and> \<not> list_ex (\<lambda>seg. seg = [] \<or> seg = ''.'' \<or> seg = ''..'') (split_on (CHR ''/'') b)"

definition ref_suffix_ok :: "string \<Rightarrow> bool" where
  "ref_suffix_ok suffix =
     (case strip_prefix ''cap:'' suffix of
        Some rest \<Rightarrow>
          (let parts = splitn 3 (CHR '':'') rest in length parts = 3 \<and> list_all (\<lambda>p. p \<noteq> []) parts)
      | None \<Rightarrow>
          (case strip_prefix ''sig:'' suffix of
             Some rest \<Rightarrow>
               (let parts = splitn 2 (CHR '':'') rest in length parts = 2 \<and> list_all (\<lambda>p. p \<noteq> []) parts)
           | None \<Rightarrow>
               (case strip_prefix ''t:'' suffix of Some t \<Rightarrow> t \<noteq> [] | None \<Rightarrow> False)))"

definition validate_canonical_item_ref :: "'z lib_env_scheme \<Rightarrow> string \<Rightarrow> unit result" where
  "validate_canonical_item_ref E v =
     ebind (ok_or (split_once (CHR '':'') v) (Bail ''bare refs are not canonical'')) (\<lambda>(kind, remainder).
     ebind (require (kind \<noteq> [] \<and> list_all is_kind_char (utf8_chars kind)) (Bail ''kind prefix'')) (\<lambda>_.
     ebind (require (remainder \<noteq> []) (Bail ''bare item ID is empty'')) (\<lambda>_.
     let (bare_id, suffix) = (case split_once (CHR ''@'') remainder of
             None \<Rightarrow> (remainder, None) | Some (b, s) \<Rightarrow> (b, Some s))
     in ebind (require (bare_id_ok E bare_id) (Bail ''bare item ID is not canonical'')) (\<lambda>_.
        case suffix of
          None \<Rightarrow> Inr ()
        | Some s \<Rightarrow> require (ref_suffix_ok s) (Bail ''canonical ref suffix'')))))"

section \<open>The captured history policy\<close>

datatype thread_history_retention = Durable | TerminalFor nat

definition max_terminal_duration_seconds :: nat where
  "max_terminal_duration_seconds = 9223372036854775807 - 253402300799"

primrec validate_retention :: "thread_history_retention \<Rightarrow> unit result" where
  "validate_retention Durable = Inr ()"
| "validate_retention (TerminalFor seconds) =
     ebind (require (seconds \<noteq> 0) (Bail ''terminal retention must be positive'')) (\<lambda>_.
     require (\<not> seconds > max_terminal_duration_seconds) (Bail ''terminal retention exceeds the maximum''))"

datatype captured_item_trust_class = Trusted | Untrusted | Unsigned

datatype captured_effective_trust_class =
  TrustedBundle | TrustedProject | UntrustedProject | EffectiveUnsigned

datatype captured_item_space = ProjectSpace | BundleSpace

datatype node_history_policy_provenance =
    MissingConfig
  | SignedConfig (config_path: string) captured_item_space (config_content_hash: string)
      (config_signer_fingerprint: string)

primrec validate_node_policy :: "node_history_policy_provenance \<Rightarrow> unit result" where
  "validate_node_policy MissingConfig = Inr ()"
| "validate_node_policy (SignedConfig path space content_hash signer) =
     ebind (require (path_eq path ''config/execution/execution.yaml'')
       (Bail ''captured node history policy path'')) (\<lambda>_.
     ebind (validate_canonical_hash ''captured node history policy content_hash'' content_hash) (\<lambda>_.
     validate_canonical_hash ''captured node history policy signer_fingerprint'' signer))"

record history_minimum_clamp =
  requested_seconds :: nat
  minimum_seconds :: nat

datatype captured_policy_provenance =
    NodeDefault node_history_policy_provenance
  | ItemAuthored string nat captured_effective_trust_class "history_minimum_clamp option"
      node_history_policy_provenance

primrec validate_provenance ::
  "captured_policy_provenance \<Rightarrow> thread_history_retention \<Rightarrow> captured_item_trust_class \<Rightarrow> unit result" where
  "validate_provenance (NodeDefault node_policy) retention item_trust =
     ebind (validate_node_policy node_policy) (\<lambda>_.
     require (\<not> (node_policy = MissingConfig \<and> retention \<noteq> Durable))
       (Bail ''missing node history config can only supply the built-in durable default''))"
| "validate_provenance (ItemAuthored composed_path requested effective_trust minimum_clamp node_policy)
     retention item_trust =
     ebind (validate_node_policy node_policy) (\<lambda>_.
     ebind (require (composed_path \<noteq> [] \<and> is_trimmed composed_path \<and> \<not> has_control composed_path)
       (Bail ''composed_path'')) (\<lambda>_.
     ebind (require (item_trust = Trusted) (Bail ''requires a trusted item signature'')) (\<lambda>_.
     ebind (require (effective_trust \<in> {TrustedBundle, TrustedProject})
       (Bail ''requires trusted effective composition'')) (\<lambda>_.
     ebind (require (\<not> (requested = 0 \<or> requested > max_terminal_duration_seconds))
       (Bail ''requested_seconds'')) (\<lambda>_.
     case retention of
       Durable \<Rightarrow> Inl (Bail ''item-authored history must resolve to terminal retention'')
     | TerminalFor seconds \<Rightarrow>
         (case minimum_clamp of
            None \<Rightarrow> require (seconds = requested) (Bail ''unclamped retention must equal requested_seconds'')
          | Some clamp \<Rightarrow>
              ebind (require (node_policy \<noteq> MissingConfig) (Bail ''missing config cannot impose a clamp'')) (\<lambda>_.
              ebind (require (requested_seconds clamp = requested) (Bail ''clamp requested_seconds'')) (\<lambda>_.
              ebind (require (\<not> (minimum_seconds clamp \<le> requested_seconds clamp
                    \<or> minimum_seconds clamp > max_terminal_duration_seconds))
                (Bail ''clamp must raise the request'')) (\<lambda>_.
              require (seconds = minimum_seconds clamp) (Bail ''retention does not equal the clamp minimum''))))))))))"

record captured_thread_history_policy =
  retention :: thread_history_retention
  canonical_item_ref :: string
  item_content_hash :: string
  item_signer_fingerprint :: "string option"
  item_trust_class :: captured_item_trust_class
  kind_schema_content_hash :: string
  resolved_from :: captured_policy_provenance

definition validate_policy :: "'z lib_env_scheme \<Rightarrow> captured_thread_history_policy \<Rightarrow> unit result" where
  "validate_policy E p =
     ebind (validate_retention (retention p)) (\<lambda>_.
     ebind (validate_canonical_item_ref E (canonical_item_ref p)) (\<lambda>_.
     ebind (for_each (validate_canonical_hash ''captured history'')
       [item_content_hash p, kind_schema_content_hash p]) (\<lambda>_.
     ebind (case (item_trust_class p, item_signer_fingerprint p) of
         (Unsigned, None) \<Rightarrow> Inr ()
       | (Unsigned, Some _) \<Rightarrow> Inl (Bail ''unsigned captured history policy cannot name an item signer'')
       | (_, Some signer) \<Rightarrow> validate_canonical_hash ''captured history item_signer_fingerprint'' signer
       | (_, None) \<Rightarrow> Inl (Bail ''signed captured history policy must name an item signer'')) (\<lambda>_.
     validate_provenance (resolved_from p) (retention p) (item_trust_class p)))))"

section \<open>Status\<close>

datatype thread_status =
  Created | Running | Completed | Failed | Cancelled | Killed | TimedOut | Continued

primrec status_as_str :: "thread_status \<Rightarrow> string" where
  "status_as_str Created = ''created''"
| "status_as_str Running = ''running''"
| "status_as_str Completed = ''completed''"
| "status_as_str Failed = ''failed''"
| "status_as_str Cancelled = ''cancelled''"
| "status_as_str Killed = ''killed''"
| "status_as_str TimedOut = ''timed_out''"
| "status_as_str Continued = ''continued''"

definition status_from_str_lossy :: "string \<Rightarrow> thread_status option" where
  "status_from_str_lossy s =
     (if s = ''created'' then Some Created else if s = ''running'' then Some Running
      else if s = ''completed'' then Some Completed else if s = ''failed'' then Some Failed
      else if s = ''cancelled'' then Some Cancelled else if s = ''killed'' then Some Killed
      else if s = ''timed_out'' then Some TimedOut else if s = ''continued'' then Some Continued
      else None)"

definition is_terminal :: "thread_status \<Rightarrow> bool" where
  "is_terminal s \<longleftrightarrow> s \<in> {Completed, Failed, Cancelled, Killed, TimedOut, Continued}"

definition is_failure :: "thread_status \<Rightarrow> bool" where
  "is_failure s \<longleftrightarrow> s \<in> {Failed, Killed, TimedOut}"

section \<open>Snapshots\<close>

abbreviation thread_snapshot_schema_version :: nat where
  "thread_snapshot_schema_version \<equiv> 6"

record thread_snapshot =
  snap_schema :: nat
  snap_kind :: string
  snap_thread_id :: string
  snap_chain_root_id :: string
  snap_status :: thread_status
  snap_kind_name :: string
  snap_item_ref :: string
  snap_executor_ref :: string
  snap_launch_mode :: string
  snap_current_site_id :: string
  snap_origin_site_id :: string
  snap_upstream_thread_id :: "string option"
  snap_requested_by :: "string option"
  snap_project_root :: "string option"
  snap_project_authority :: execution_project_authority
  snap_admitted_launch_capsule_hash :: "string option"
  snap_captured_history_policy :: "captured_thread_history_policy option"
  snap_base_project_snapshot_hash :: "string option"
  snap_result_project_snapshot_hash :: "string option"
  snap_created_at :: string
  snap_updated_at :: string
  snap_started_at :: "string option"
  snap_finished_at :: "string option"
  snap_result :: "json option"
  snap_outcome_code :: "string option"
  snap_error :: "json option"
  snap_budget :: "thread_usage option"
  snap_artifacts :: "json list"
  snap_facets :: "string btree"
  snap_last_event_hash :: "string option"
  snap_last_chain_seq :: nat
  snap_last_thread_seq :: nat

text \<open>Equality of optional paths.\<close>

fun path_option_eq :: "string option \<Rightarrow> string option \<Rightarrow> bool" where
  "path_option_eq (Some p) (Some q) \<longleftrightarrow> path_eq p q"
| "path_option_eq None None \<longleftrightarrow> True"
| "path_option_eq _ _ \<longleftrightarrow> False"

definition validate_snapshot_history :: "'z lib_env_scheme \<Rightarrow> thread_snapshot \<Rightarrow> unit result" where
  "validate_snapshot_history E s =
     ebind (require (\<not> (snap_thread_id s = snap_chain_root_id s \<and> snap_captured_history_policy s = None))
       (Bail ''chain root snapshot is missing captured_history_policy'')) (\<lambda>_.
     ebind (require (\<not> (snap_thread_id s \<noteq> snap_chain_root_id s \<and> snap_captured_history_policy s \<noteq> None))
       (Bail ''captured_history_policy is valid only on a chain root snapshot'')) (\<lambda>_.
     if_some (\<lambda>policy.
         ebind (validate_policy E policy) (\<lambda>_.
         require (canonical_item_ref policy = snap_item_ref s)
           (Bail ''captured history policy subject does not match root item_ref'')))
       (snap_captured_history_policy s)))"

definition validate_snapshot_times :: "'z lib_env_scheme \<Rightarrow> thread_snapshot \<Rightarrow> unit result" where
  "validate_snapshot_times E s =
     ebind (parse_canonical_timestamp E (snap_created_at s)) (\<lambda>created_at.
     ebind (parse_canonical_timestamp E (snap_updated_at s)) (\<lambda>updated_at.
     ebind (require (\<not> updated_at < created_at) (Bail ''updated_at must not precede created_at'')) (\<lambda>_.
     ebind (map_transpose (parse_canonical_timestamp E) (snap_started_at s)) (\<lambda>started_at.
     ebind (map_transpose (parse_canonical_timestamp E) (snap_finished_at s)) (\<lambda>finished_at.
     ebind (require (\<not> (case started_at of None \<Rightarrow> False | Some t \<Rightarrow> t < created_at \<or> t > updated_at))
       (Bail ''started_at must be within created_at..=updated_at'')) (\<lambda>_.
     ebind (require (\<not> (case finished_at of None \<Rightarrow> False | Some f \<Rightarrow>
           f < created_at \<or> f > updated_at \<or> (case started_at of None \<Rightarrow> False | Some t \<Rightarrow> f < t)))
       (Bail ''finished_at must be within created_at..=updated_at and not precede started_at'')) (\<lambda>_.
     case snap_status s of
       Created \<Rightarrow> require (\<not> (snap_started_at s \<noteq> None \<or> snap_finished_at s \<noteq> None))
           (Bail ''created snapshot cannot have started_at or finished_at'')
     | Running \<Rightarrow> require (\<not> (snap_started_at s = None \<or> snap_finished_at s \<noteq> None))
           (Bail ''running snapshot requires started_at and cannot have finished_at'')
     | _ \<Rightarrow> require (\<not> (is_terminal (snap_status s) \<and> snap_finished_at s = None))
           (Bail ''terminal snapshot requires finished_at''))))))))"

definition validate_snapshot :: "'z lib_env_scheme \<Rightarrow> thread_snapshot \<Rightarrow> unit result" where
  "validate_snapshot E s =
     ebind (validate_object_kind (snap_kind s) ''thread_snapshot'') (\<lambda>_.
     ebind (require (snap_schema s = thread_snapshot_schema_version) (Bail ''unexpected schema version'')) (\<lambda>_.
     ebind (require (snap_thread_id s \<noteq> []) (Bail ''thread_id must not be empty'')) (\<lambda>_.
     ebind (require (snap_chain_root_id s \<noteq> []) (Bail ''chain_root_id must not be empty'')) (\<lambda>_.
     ebind (require (snap_kind_name s \<noteq> []) (Bail ''kind_name must not be empty'')) (\<lambda>_.
     ebind (require (snap_item_ref s \<noteq> []) (Bail ''item_ref must not be empty'')) (\<lambda>_.
     ebind (require (snap_executor_ref s \<noteq> []) (Bail ''executor_ref must not be empty'')) (\<lambda>_.
     ebind (require (snap_launch_mode s = ''wait'' \<or> snap_launch_mode s = ''detached'')
       (Bail ''invalid launch_mode'')) (\<lambda>_.
     ebind (require (snap_current_site_id s \<noteq> []) (Bail ''current_site_id must not be empty'')) (\<lambda>_.
     ebind (require (snap_origin_site_id s \<noteq> []) (Bail ''origin_site_id must not be empty'')) (\<lambda>_.
     ebind (validate_snapshot_history E s) (\<lambda>_.
     ebind (validate_authority E (snap_project_authority s)) (\<lambda>_.
     ebind (require (path_option_eq (snap_project_root s) (project_root_projection (snap_project_authority s)))
       (Bail ''project_root projection contradicts project_authority'')) (\<lambda>_.
     ebind (require (snap_base_project_snapshot_hash s = base_snapshot_projection (snap_project_authority s))
       (Bail ''base_project_snapshot_hash projection contradicts project_authority'')) (\<lambda>_.
     ebind (validate_snapshot_times E s) (\<lambda>_.
     ebind (if_some (validate_usage E) (snap_budget s)) (\<lambda>_.
     for_each (\<lambda>(label, h). if_some (validate_canonical_hash label) h)
       [(''base_project_snapshot_hash'', snap_base_project_snapshot_hash s),
        (''result_project_snapshot_hash'', snap_result_project_snapshot_hash s),
        (''admitted_launch_capsule_hash'', snap_admitted_launch_capsule_hash s),
        (''last_event_hash'', snap_last_event_hash s)]))))))))))))))))"

text \<open>\<open>ThreadSnapshotBuilder::new\<close> followed by \<open>build\<close>; a setter in between is a record update.\<close>

definition built_snapshot :: "int \<Rightarrow> string \<Rightarrow> string \<Rightarrow> string \<Rightarrow> string \<Rightarrow> string \<Rightarrow> thread_snapshot" where
  "built_snapshot clock thread_id chain_root_id kind_name item_ref executor_ref =
     (let now = iso8601_now clock in
      \<lparr> snap_schema = thread_snapshot_schema_version, snap_kind = ''thread_snapshot'',
        snap_thread_id = thread_id, snap_chain_root_id = chain_root_id, snap_status = Created,
        snap_kind_name = kind_name, snap_item_ref = item_ref, snap_executor_ref = executor_ref,
        snap_launch_mode = ''wait'', snap_current_site_id = ''site:host'',
        snap_origin_site_id = ''site:host'', snap_upstream_thread_id = None,
        snap_requested_by = None, snap_project_root = None,
        snap_project_authority = projectless_authority,
        snap_admitted_launch_capsule_hash = None, snap_captured_history_policy = None,
        snap_base_project_snapshot_hash = None, snap_result_project_snapshot_hash = None,
        snap_created_at = now, snap_updated_at = now, snap_started_at = None,
        snap_finished_at = None, snap_result = None, snap_outcome_code = None, snap_error = None,
        snap_budget = None, snap_artifacts = [], snap_facets = [], snap_last_event_hash = None,
        snap_last_chain_seq = 0, snap_last_thread_seq = 0 \<rparr>)"

end
