(* ===== verification/Json_Codec.thy ===== *)
theory Json_Codec
  imports Canonical_Json "HOL-Library.Monad_Syntax"
begin

text \<open>
  What \<open>serde\<close>'s derived \<open>Serialize\<close> and \<open>Deserialize\<close> do through \<open>serde_json::Value\<close>: a struct
  is an object with one entry per field, a unit variant is a string, an internally tagged
  enum is an object with its tag among the fields. Decoders return \<open>None\<close> where
  \<open>serde_json::from_value\<close> fails. The positional form of structs, which \<open>from_value\<close> also
  accepts, is left out: every reader of stored objects re-encodes what it decoded and
  compares the hash, so a positional object is rejected there in any case.
\<close>

section \<open>Encoders\<close>

definition json_object :: "(string \<times> json) list \<Rightarrow> json" where
  "json_object kvs = JObject (sort_key fst kvs)"

definition json_nat :: "nat \<Rightarrow> json" where
  "json_nat n = JNumber (PosInt n)"

definition json_option :: "('a \<Rightarrow> json) \<Rightarrow> 'a option \<Rightarrow> json" where
  "json_option f x = (case x of None \<Rightarrow> JNull | Some y \<Rightarrow> f y)"

definition json_list :: "('a \<Rightarrow> json) \<Rightarrow> 'a list \<Rightarrow> json" where
  "json_list f xs = JArray (map f xs)"

text \<open>A field with \<open>skip_serializing_if = "Option::is_none"\<close>.\<close>

definition skip_none :: "string \<Rightarrow> ('a \<Rightarrow> json) \<Rightarrow> 'a option \<Rightarrow> (string \<times> json) list" where
  "skip_none k f x = (case x of None \<Rightarrow> [] | Some y \<Rightarrow> [(k, f y)])"

section \<open>Decoders\<close>

fun decode_string :: "json \<Rightarrow> string option" where
  "decode_string (JString s) = Some s"
| "decode_string _ = None"

fun decode_bool :: "json \<Rightarrow> bool option" where
  "decode_bool (JBool b) = Some b"
| "decode_bool _ = None"

fun decode_uint :: "nat \<Rightarrow> json \<Rightarrow> nat option" where
  "decode_uint bound (JNumber (PosInt n)) = (if n < bound then Some n else None)"
| "decode_uint bound _ = None"

abbreviation u32_bound :: nat where
  "u32_bound \<equiv> 4294967296"

definition decode_u32 :: "json \<Rightarrow> nat option" where
  "decode_u32 = decode_uint u32_bound"

definition decode_u64 :: "json \<Rightarrow> nat option" where
  "decode_u64 = decode_uint u64_bound"

fun decode_f64 :: "json \<Rightarrow> 64 word option" where
  "decode_f64 (JNumber (Float64 x)) = Some x"
| "decode_f64 _ = None"

definition decode_option :: "(json \<Rightarrow> 'a option) \<Rightarrow> json \<Rightarrow> 'a option option" where
  "decode_option f v = (if v = JNull then Some None else map_option Some (f v))"

fun decode_list :: "(json \<Rightarrow> 'a option) \<Rightarrow> json \<Rightarrow> 'a list option" where
  "decode_list f (JArray vs) = those (map f vs)"
| "decode_list f _ = None"

fun decode_map :: "(json \<Rightarrow> 'a option) \<Rightarrow> json \<Rightarrow> 'a btree option" where
  "decode_map f (JObject m) = those (map (\<lambda>(k, v). map_option (Pair k) (f v)) m)"
| "decode_map f _ = None"

text \<open>
  \<open>known_fields keys v\<close> is the object's entries when all its keys are known (\<open>deny_unknown_fields\<close>);
  \<open>required\<close> and \<open>defaulted\<close> read one field.
\<close>

fun known_fields :: "string list \<Rightarrow> json \<Rightarrow> (string \<times> json) list option" where
  "known_fields ks (JObject m) = (if list_all (\<lambda>(k, v). k \<in> set ks) m then Some m else None)"
| "known_fields ks _ = None"

definition required :: "(string \<times> json) list \<Rightarrow> string \<Rightarrow> (json \<Rightarrow> 'a option) \<Rightarrow> 'a option" where
  "required m k f = (case map_of m k of None \<Rightarrow> None | Some v \<Rightarrow> f v)"

definition defaulted :: "(string \<times> json) list \<Rightarrow> string \<Rightarrow> (json \<Rightarrow> 'a option) \<Rightarrow> 'a option option" where
  "defaulted m k f = (case map_of m k of None \<Rightarrow> Some None | Some v \<Rightarrow> decode_option f v)"

section \<open>Storable values\<close>

text \<open>
  A number with a fraction is exact when the parser reads its rendering back. \<open>serde_json\<close>
  promises this for every finite \<open>f64\<close> under its feature \<open>float_roundtrip\<close> only, so exactness
  is a condition on values, not a law of the environment.
\<close>

primrec number_exact :: "'z lib_env_scheme \<Rightarrow> json_number \<Rightarrow> bool" where
  "number_exact E (PosInt n) \<longleftrightarrow> True"
| "number_exact E (NegInt i) \<longleftrightarrow> True"
| "number_exact E (Float64 x) \<longleftrightarrow>
     json_from_slice E (number_to_string E (Float64 x)) = Some (JNumber (Float64 x))"

primrec floats_exact :: "'z lib_env_scheme \<Rightarrow> json \<Rightarrow> bool" where
  "floats_exact E JNull \<longleftrightarrow> True"
| "floats_exact E (JBool b) \<longleftrightarrow> True"
| "floats_exact E (JNumber n) \<longleftrightarrow> number_exact E n"
| "floats_exact E (JString s) \<longleftrightarrow> True"
| "floats_exact E (JArray vs) \<longleftrightarrow> list_all (floats_exact E) vs"
| "floats_exact E (JObject m) \<longleftrightarrow> list_all snd (map (map_prod id (floats_exact E)) m)"

primrec json_depth :: "json \<Rightarrow> nat" where
  "json_depth JNull = 0"
| "json_depth (JBool b) = 0"
| "json_depth (JNumber n) = 0"
| "json_depth (JString s) = 0"
| "json_depth (JArray vs) = Suc (foldr max (map json_depth vs) 0)"
| "json_depth (JObject m) = Suc (foldr max (map snd (map (map_prod id json_depth) m)) 0)"

text \<open>\<open>json_storable E n v\<close>: well-formed, exact and nested at most \<open>n\<close> levels deep.\<close>

definition json_storable :: "'z lib_env_scheme \<Rightarrow> nat \<Rightarrow> json \<Rightarrow> bool" where
  "json_storable E n v \<longleftrightarrow> json_wf v \<and> floats_exact E v \<and> json_depth v \<le> n"

text \<open>
  What the development relies on of the parser: it accepts UTF-8 only, it returns well-formed
  values, and it reads the canonical encoding of a storable value back, down to its recursion
  limit of 127 levels.
\<close>

definition json_parser :: "'z lib_env_scheme \<Rightarrow> bool" where
  "json_parser E \<longleftrightarrow>
     (\<forall>s v. json_from_slice E s = Some v \<longrightarrow> json_wf v \<and> valid_utf8 s)
     \<and> (\<forall>v. json_storable E 127 v \<longrightarrow> json_from_slice E (canonical_json E v) = Some v)
     \<and> (\<forall>m. json_storable E 127 (JObject m) \<longrightarrow> json_entries E (canonical_json E (JObject m)) = Some m)
     \<and> (\<forall>s m. json_entries E s = Some m \<longrightarrow> (\<forall>(k, v) \<in> set m. json_wf v))"

section \<open>Laws of the codec\<close>

named_theorems codec \<open>reading back what was encoded\<close>

lemma map_of_sort_key:
  assumes "distinct (map fst kvs)"
  shows "map_of (sort_key fst kvs) = map_of kvs"
  using assms by (intro map_of_inject_set [THEN iffD2]) (simp_all add: distinct_map)

lemma foldr_max_le: "foldr max xs 0 \<le> (n::nat) \<longleftrightarrow> (\<forall>x \<in> set xs. x \<le> n)"
  by (induction xs) auto

lemma storable_simps [simp]:
  "json_storable E n JNull" "json_storable E n (JBool b)"
  "json_storable E n (JString s) \<longleftrightarrow> valid_utf8 s"
  "json_storable E n (json_nat k) \<longleftrightarrow> k < u64_bound"
  by (auto simp: json_storable_def json_nat_def)

lemma storable_float:
  "json_storable E n (JNumber (Float64 x)) \<longleftrightarrow> f64_is_finite x \<and> number_exact E (Float64 x)"
  by (simp add: json_storable_def)

lemma storable_JArray [simp]:
  "0 < n \<Longrightarrow> json_storable E n (JArray vs) \<longleftrightarrow> (\<forall>v \<in> set vs. json_storable E (n - 1) v)"
  by (cases n) (auto simp: json_storable_def list_all_iff foldr_max_le)

lemma storable_JObject:
  "0 < n \<Longrightarrow> json_storable E n (JObject m) \<longleftrightarrow>
     bt_sorted m \<and> (\<forall>(k, v) \<in> set m. valid_utf8 k \<and> json_storable E (n - 1) v)"
  by (cases n) (auto simp: json_storable_def json_wf_JObject list_all_iff foldr_max_le)

lemma storable_mono: "json_storable E m v \<Longrightarrow> m \<le> n \<Longrightarrow> json_storable E n v"
  by (simp add: json_storable_def)

lemma bt_sorted_sort_key: "distinct (map fst kvs) \<Longrightarrow> bt_sorted (sort_key fst kvs)"
  by (simp add: bt_sorted_def strict_sorted_iff distinct_map)

lemma storable_object:
  "distinct (map fst kvs) \<Longrightarrow> 0 < n \<Longrightarrow> json_storable E n (json_object kvs) \<longleftrightarrow>
     (\<forall>(k, v) \<in> set kvs. valid_utf8 k \<and> json_storable E (n - 1) v)"
  by (simp add: json_object_def storable_JObject bt_sorted_sort_key)

lemma storable_option [simp]:
  "json_storable E n (json_option f x) \<longleftrightarrow> (\<forall>y. x = Some y \<longrightarrow> json_storable E n (f y))"
  by (simp add: json_option_def split: option.split)

lemma storable_list [simp]:
  "0 < n \<Longrightarrow> json_storable E n (json_list f xs) \<longleftrightarrow> (\<forall>x \<in> set xs. json_storable E (n - 1) (f x))"
  by (simp add: json_list_def)

lemma fields_object [codec]:
  "distinct (map fst kvs) \<Longrightarrow> list_all (\<lambda>(k, v). k \<in> set ks) kvs
    \<Longrightarrow> known_fields ks (json_object kvs) = Some (sort_key fst kvs)"
  by (simp add: json_object_def list_all_iff)

lemma required_object [codec]:
  "distinct (map fst kvs) \<Longrightarrow> required (sort_key fst kvs) k f = required kvs k f"
  by (simp add: required_def map_of_sort_key)

lemma defaulted_object [codec]:
  "distinct (map fst kvs) \<Longrightarrow> defaulted (sort_key fst kvs) k f = defaulted kvs k f"
  by (simp add: defaulted_def map_of_sort_key)

lemma decode_u64_json_nat [codec]: "n < u64_bound \<Longrightarrow> decode_u64 (json_nat n) = Some n"
  by (simp add: decode_u64_def json_nat_def)

lemma decode_u32_json_nat [codec]: "n < u32_bound \<Longrightarrow> decode_u32 (json_nat n) = Some n"
  by (simp add: decode_u32_def json_nat_def)

lemma those_map_Some: "(\<And>x. x \<in> set xs \<Longrightarrow> f (g x) = Some (h x)) \<Longrightarrow> those (map f (map g xs)) = Some (map h xs)"
  by (induction xs) simp_all

lemma decode_list_json_list:
  "(\<And>x. x \<in> set xs \<Longrightarrow> f (g x) = Some (h x)) \<Longrightarrow> decode_list f (json_list g xs) = Some (map h xs)"
  by (simp add: json_list_def those_map_Some del: map_map)

lemma decode_option_json_option:
  "(\<And>y. x = Some y \<Longrightarrow> g y \<noteq> JNull \<and> f (g y) = Some (h y))
    \<Longrightarrow> decode_option f (json_option g x) = Some (map_option h x)"
  by (cases x) (simp_all add: decode_option_def json_option_def)

lemma decode_strings [codec]:
  "decode_list decode_string (json_list JString xs) = Some xs"
  "decode_option decode_string (json_option JString x) = Some x"
  using decode_list_json_list [of xs decode_string JString id]
    decode_option_json_option [of x JString decode_string id]
  by (simp_all add: option.map_id)

lemma decode_string_wf: "decode_string v = Some s \<Longrightarrow> json_wf v \<Longrightarrow> valid_utf8 s"
  by (cases v) auto

end
