(* ===== verification/Snapshot_Codec.thy ===== *)
theory Snapshot_Codec
  imports Thread_Snapshot Json_Codec
begin

text \<open>
  The wire form of thread snapshots: what the \<open>serde\<close> attributes of \<^verbatim>\<open>objects/thread_snapshot.rs\<close>
  and \<^verbatim>\<open>objects/execution_project_authority.rs\<close> make of the types, with \<open>from_current_value\<close> and
  \<open>hash_snapshot\<close>. A snapshot reads back as it was written, up to a result or an error that is
  the JSON null, which reads back as absent.
\<close>

definition tag_of :: "string \<Rightarrow> json \<Rightarrow> string option" where
  "tag_of k v = (case v of JObject m \<Rightarrow> required m k decode_string | _ \<Rightarrow> None)"

section \<open>Project authority\<close>

primrec enc_name_authority :: "environment_name_authority \<Rightarrow> json" where
  "enc_name_authority DeclaredRequired = json_object [(''kind'', JString ''declared_required'')]"
| "enc_name_authority (Exact names) =
     json_object [(''kind'', JString ''exact''), (''names'', json_list JString names)]"

definition dec_name_authority :: "json \<Rightarrow> environment_name_authority option" where
  "dec_name_authority v = do {
     t \<leftarrow> tag_of ''kind'' v;
     if t = ''declared_required'' then Some DeclaredRequired
     else if t = ''exact'' then do {
       m \<leftarrow> known_fields [''kind'', ''names''] v;
       names \<leftarrow> required m ''names'' (decode_list decode_string);
       Some (Exact names) }
     else None }"

primrec enc_environment :: "environment_authority \<Rightarrow> json" where
  "enc_environment EnvNone = json_object [(''kind'', JString ''none'')]"
| "enc_environment (ProjectOverlay paid source vault names) =
     json_object [(''kind'', JString ''project_overlay''), (''project_authority_id'', JString paid),
       (''source_identity'', JString source), (''include_operator_vault'', JBool vault),
       (''name_authority'', enc_name_authority names)]"
| "enc_environment (Vault namespace names) =
     json_object [(''kind'', JString ''vault''), (''namespace'', JString namespace),
       (''name_authority'', enc_name_authority names)]"
| "enc_environment (Delegated provider grant names) =
     json_object [(''kind'', JString ''delegated''), (''provider'', JString provider),
       (''grant_id'', JString grant), (''name_authority'', enc_name_authority names)]"

definition dec_environment :: "json \<Rightarrow> environment_authority option" where
  "dec_environment v = do {
     t \<leftarrow> tag_of ''kind'' v;
     if t = ''none'' then Some EnvNone
     else if t = ''project_overlay'' then do {
       m \<leftarrow> known_fields [''kind'', ''project_authority_id'', ''source_identity'', ''include_operator_vault'',
              ''name_authority''] v;
       paid \<leftarrow> required m ''project_authority_id'' decode_string;
       source \<leftarrow> required m ''source_identity'' decode_string;
       vault \<leftarrow> required m ''include_operator_vault'' decode_bool;
       names \<leftarrow> required m ''name_authority'' dec_name_authority;
       Some (ProjectOverlay paid source vault names) }
     else if t = ''vault'' then do {
       m \<leftarrow> known_fields [''kind'', ''namespace'', ''name_authority''] v;
       namespace \<leftarrow> required m ''namespace'' decode_string;
       names \<leftarrow> required m ''name_authority'' dec_name_authority;
       Some (Vault namespace names) }
     else if t = ''delegated'' then do {
       m \<leftarrow> known_fields [''kind'', ''provider'', ''grant_id'', ''name_authority''] v;
       provider \<leftarrow> required m ''provider'' decode_string;
       grant \<leftarrow> required m ''grant_id'' decode_string;
       names \<leftarrow> required m ''name_authority'' dec_name_authority;
       Some (Delegated provider grant names) }
     else None }"

primrec enc_access :: "live_project_access \<Rightarrow> json" where
  "enc_access LiveReadOnly = JString ''read_only''"
| "enc_access LiveReadWrite = JString ''read_write''"

definition dec_access :: "json \<Rightarrow> live_project_access option" where
  "dec_access v = do {
     s \<leftarrow> decode_string v;
     if s = ''read_only'' then Some LiveReadOnly
     else if s = ''read_write'' then Some LiveReadWrite else None }"

primrec enc_symlink_policy :: "live_symlink_policy \<Rightarrow> json" where
  "enc_symlink_policy DescriptorRootedNoEscape = JString ''descriptor_rooted_no_escape''"

definition dec_symlink_policy :: "json \<Rightarrow> live_symlink_policy option" where
  "dec_symlink_policy v = do {
     s \<leftarrow> decode_string v;
     if s = ''descriptor_rooted_no_escape'' then Some DescriptorRootedNoEscape else None }"

primrec enc_confinement :: "live_filesystem_confinement \<Rightarrow> json" where
  "enc_confinement (DescriptorRootedMasked denied policy) =
     json_object [(''kind'', JString ''descriptor_rooted_masked''),
       (''denied_control_paths'', json_list JString denied), (''symlink_policy'', enc_symlink_policy policy)]"
| "enc_confinement UnconfinedHost = json_object [(''kind'', JString ''unconfined_host'')]"

definition dec_confinement :: "json \<Rightarrow> live_filesystem_confinement option" where
  "dec_confinement v = do {
     t \<leftarrow> tag_of ''kind'' v;
     if t = ''descriptor_rooted_masked'' then do {
       m \<leftarrow> known_fields [''kind'', ''denied_control_paths'', ''symlink_policy''] v;
       denied \<leftarrow> required m ''denied_control_paths'' (decode_list decode_string);
       policy \<leftarrow> required m ''symlink_policy'' dec_symlink_policy;
       Some (DescriptorRootedMasked denied policy) }
     else if t = ''unconfined_host'' then Some UnconfinedHost else None }"

definition enc_live_access :: "live_access_authority \<Rightarrow> json" where
  "enc_live_access a =
     json_object [(''access'', enc_access (access a)),
       (''authorized_write_namespaces'', json_list JString (authorized_write_namespaces a)),
       (''confinement'', enc_confinement (confinement a))]"

definition dec_live_access :: "json \<Rightarrow> live_access_authority option" where
  "dec_live_access v = do {
     m \<leftarrow> known_fields [''access'', ''authorized_write_namespaces'', ''confinement''] v;
     acc \<leftarrow> required m ''access'' dec_access;
     namespaces \<leftarrow> required m ''authorized_write_namespaces'' (decode_list decode_string);
     conf \<leftarrow> required m ''confinement'' dec_confinement;
     Some \<lparr> access = acc, authorized_write_namespaces = namespaces, confinement = conf \<rparr> }"

primrec enc_publication :: "pinned_terminal_publication \<Rightarrow> json" where
  "enc_publication Discard = json_object [(''kind'', JString ''discard'')]"
| "enc_publication RetainResult = json_object [(''kind'', JString ''retain_result'')]"
| "enc_publication (AdvanceHead href expected) =
     json_object [(''kind'', JString ''advance_head''), (''head_ref'', JString href),
       (''expected_hash'', JString expected)]"

definition dec_publication :: "json \<Rightarrow> pinned_terminal_publication option" where
  "dec_publication v = do {
     t \<leftarrow> tag_of ''kind'' v;
     if t = ''discard'' then Some Discard
     else if t = ''retain_result'' then Some RetainResult
     else if t = ''advance_head'' then do {
       m \<leftarrow> known_fields [''kind'', ''head_ref'', ''expected_hash''] v;
       href \<leftarrow> required m ''head_ref'' decode_string;
       expected \<leftarrow> required m ''expected_hash'' decode_string;
       Some (AdvanceHead href expected) }
     else None }"

primrec enc_realization :: "pinned_project_realization \<Rightarrow> json" where
  "enc_realization PinnedReadOnly = json_object [(''kind'', JString ''read_only'')]"
| "enc_realization (Cow publication) =
     json_object [(''kind'', JString ''cow''), (''terminal_publication'', enc_publication publication)]"

definition dec_realization :: "json \<Rightarrow> pinned_project_realization option" where
  "dec_realization v = do {
     t \<leftarrow> tag_of ''kind'' v;
     if t = ''read_only'' then Some PinnedReadOnly
     else if t = ''cow'' then do {
       m \<leftarrow> known_fields [''kind'', ''terminal_publication''] v;
       publication \<leftarrow> required m ''terminal_publication'' dec_publication;
       Some (Cow publication) }
     else None }"

primrec enc_child_realization :: "pinned_child_project_realization \<Rightarrow> json" where
  "enc_child_realization ChildReadOnly = JString ''read_only''"
| "enc_child_realization CowDiscard = JString ''cow_discard''"

definition dec_child_realization :: "json \<Rightarrow> pinned_child_project_realization option" where
  "dec_child_realization v = do {
     s \<leftarrow> decode_string v;
     if s = ''read_only'' then Some ChildReadOnly
     else if s = ''cow_discard'' then Some CowDiscard else None }"

primrec enc_child_policy :: "child_project_authority_policy \<Rightarrow> json" where
  "enc_child_policy Inherit = json_object [(''kind'', JString ''inherit'')]"
| "enc_child_policy (PinAtSpawn realization) =
     json_object [(''kind'', JString ''pin_at_spawn''), (''realization'', enc_child_realization realization)]"

definition dec_child_policy :: "json \<Rightarrow> child_project_authority_policy option" where
  "dec_child_policy v = do {
     t \<leftarrow> tag_of ''kind'' v;
     if t = ''inherit'' then Some Inherit
     else if t = ''pin_at_spawn'' then do {
       m \<leftarrow> known_fields [''kind'', ''realization''] v;
       realization \<leftarrow> required m ''realization'' dec_child_realization;
       Some (PinAtSpawn realization) }
     else None }"

primrec enc_authority :: "execution_project_authority \<Rightarrow> json" where
  "enc_authority (Projectless environment) =
     json_object [(''kind'', JString ''projectless''), (''environment'', enc_environment environment)]"
| "enc_authority (LiveProject aid identity root lacc environment caps child) =
     json_object [(''kind'', JString ''live_project''), (''authority_id'', JString aid),
       (''authored_project_identity'', JString identity), (''canonical_root'', JString root),
       (''live_access'', enc_live_access lacc), (''environment'', enc_environment environment),
       (''capability_ceiling'', json_list JString caps), (''child_policy'', enc_child_policy child)]"
| "enc_authority (PinnedGeneration identity path hash realization environment caps child) =
     json_object ([(''kind'', JString ''pinned_generation''), (''stable_project_identity'', JString identity)]
       @ skip_none ''display_path'' JString path
       @ [(''snapshot_hash'', JString hash), (''realization'', enc_realization realization),
          (''environment'', enc_environment environment), (''capability_ceiling'', json_list JString caps),
          (''child_policy'', enc_child_policy child)])"

definition dec_authority :: "json \<Rightarrow> execution_project_authority option" where
  "dec_authority v = do {
     t \<leftarrow> tag_of ''kind'' v;
     if t = ''projectless'' then do {
       m \<leftarrow> known_fields [''kind'', ''environment''] v;
       environment \<leftarrow> required m ''environment'' dec_environment;
       Some (Projectless environment) }
     else if t = ''live_project'' then do {
       m \<leftarrow> known_fields [''kind'', ''authority_id'', ''authored_project_identity'', ''canonical_root'',
              ''live_access'', ''environment'', ''capability_ceiling'', ''child_policy''] v;
       aid \<leftarrow> required m ''authority_id'' decode_string;
       identity \<leftarrow> required m ''authored_project_identity'' decode_string;
       root \<leftarrow> required m ''canonical_root'' decode_string;
       lacc \<leftarrow> required m ''live_access'' dec_live_access;
       environment \<leftarrow> required m ''environment'' dec_environment;
       caps \<leftarrow> required m ''capability_ceiling'' (decode_list decode_string);
       child \<leftarrow> required m ''child_policy'' dec_child_policy;
       Some (LiveProject aid identity root lacc environment caps child) }
     else if t = ''pinned_generation'' then do {
       m \<leftarrow> known_fields [''kind'', ''stable_project_identity'', ''display_path'', ''snapshot_hash'',
              ''realization'', ''environment'', ''capability_ceiling'', ''child_policy''] v;
       identity \<leftarrow> required m ''stable_project_identity'' decode_string;
       path \<leftarrow> defaulted m ''display_path'' decode_string;
       hash \<leftarrow> required m ''snapshot_hash'' decode_string;
       realization \<leftarrow> required m ''realization'' dec_realization;
       environment \<leftarrow> required m ''environment'' dec_environment;
       caps \<leftarrow> required m ''capability_ceiling'' (decode_list decode_string);
       child \<leftarrow> required m ''child_policy'' dec_child_policy;
       Some (PinnedGeneration identity path hash realization environment caps child) }
     else None }"

lemma tag_of_object [codec]:
  "distinct (map fst kvs) \<Longrightarrow> tag_of k (json_object kvs) = required kvs k decode_string"
  by (simp add: tag_of_def json_object_def required_def map_of_sort_key)

lemma dec_name_authority_enc [codec]: "dec_name_authority (enc_name_authority x) = Some x"
  by (cases x) (simp_all add: dec_name_authority_def codec required_def)

lemma dec_environment_enc [codec]: "dec_environment (enc_environment x) = Some x"
  by (cases x) (simp_all add: dec_environment_def codec required_def)

lemma dec_enums_enc [codec]:
  "dec_access (enc_access a) = Some a" "dec_symlink_policy (enc_symlink_policy s) = Some s"
  "dec_child_realization (enc_child_realization r) = Some r"
  by (cases a; cases s; cases r;
      simp add: dec_access_def dec_symlink_policy_def dec_child_realization_def)+

lemma dec_confinement_enc [codec]: "dec_confinement (enc_confinement x) = Some x"
  by (cases x) (simp_all add: dec_confinement_def codec required_def)

lemma dec_live_access_enc [codec]: "dec_live_access (enc_live_access x) = Some x"
  by (simp add: dec_live_access_def enc_live_access_def codec required_def)

lemma dec_publication_enc [codec]: "dec_publication (enc_publication x) = Some x"
  by (cases x) (simp_all add: dec_publication_def codec required_def)

lemma dec_realization_enc [codec]: "dec_realization (enc_realization x) = Some x"
  by (cases x) (simp_all add: dec_realization_def codec required_def)

lemma dec_child_policy_enc [codec]: "dec_child_policy (enc_child_policy x) = Some x"
  by (cases x) (simp_all add: dec_child_policy_def codec required_def)

lemma dec_authority_enc [codec]: "dec_authority (enc_authority x) = Some x"
proof (cases x)
  case (PinnedGeneration i path h r e c ch)
  then show ?thesis
    by (cases path)
      (simp_all add: dec_authority_def codec required_def defaulted_def skip_none_def decode_option_def)
qed (simp_all add: dec_authority_def codec required_def)

section \<open>History policy\<close>

primrec enc_retention :: "thread_history_retention \<Rightarrow> json" where
  "enc_retention Durable = json_object [(''mode'', JString ''durable'')]"
| "enc_retention (TerminalFor seconds) =
     json_object [(''mode'', JString ''terminal_for''), (''seconds'', json_nat seconds)]"

definition dec_retention :: "json \<Rightarrow> thread_history_retention option" where
  "dec_retention v = do {
     t \<leftarrow> tag_of ''mode'' v;
     if t = ''durable'' then Some Durable
     else if t = ''terminal_for'' then do {
       m \<leftarrow> known_fields [''mode'', ''seconds''] v;
       seconds \<leftarrow> required m ''seconds'' decode_u64;
       Some (TerminalFor seconds) }
     else None }"

primrec enc_item_trust :: "captured_item_trust_class \<Rightarrow> json" where
  "enc_item_trust Trusted = JString ''trusted''"
| "enc_item_trust Untrusted = JString ''untrusted''"
| "enc_item_trust Unsigned = JString ''unsigned''"

definition dec_item_trust :: "json \<Rightarrow> captured_item_trust_class option" where
  "dec_item_trust v = do {
     s \<leftarrow> decode_string v;
     if s = ''trusted'' then Some Trusted else if s = ''untrusted'' then Some Untrusted
     else if s = ''unsigned'' then Some Unsigned else None }"

primrec enc_effective_trust :: "captured_effective_trust_class \<Rightarrow> json" where
  "enc_effective_trust TrustedBundle = JString ''trusted_bundle''"
| "enc_effective_trust TrustedProject = JString ''trusted_project''"
| "enc_effective_trust UntrustedProject = JString ''untrusted_project''"
| "enc_effective_trust EffectiveUnsigned = JString ''unsigned''"

definition dec_effective_trust :: "json \<Rightarrow> captured_effective_trust_class option" where
  "dec_effective_trust v = do {
     s \<leftarrow> decode_string v;
     if s = ''trusted_bundle'' then Some TrustedBundle
     else if s = ''trusted_project'' then Some TrustedProject
     else if s = ''untrusted_project'' then Some UntrustedProject
     else if s = ''unsigned'' then Some EffectiveUnsigned else None }"

primrec enc_space :: "captured_item_space \<Rightarrow> json" where
  "enc_space ProjectSpace = JString ''project''"
| "enc_space BundleSpace = JString ''bundle''"

definition dec_space :: "json \<Rightarrow> captured_item_space option" where
  "dec_space v = do {
     s \<leftarrow> decode_string v;
     if s = ''project'' then Some ProjectSpace else if s = ''bundle'' then Some BundleSpace else None }"

text \<open>Externally tagged variants: a string, or an object with the variant's name as its only key.\<close>

fun variant_of :: "json \<Rightarrow> (string \<times> json) option" where
  "variant_of (JObject [(k, v)]) = Some (k, v)"
| "variant_of (JString s) = Some (s, JNull)"
| "variant_of _ = None"

primrec enc_node_policy :: "node_history_policy_provenance \<Rightarrow> json" where
  "enc_node_policy MissingConfig = JString ''missing_config''"
| "enc_node_policy (SignedConfig path space content_hash signer) =
     JObject [(''signed_config'', json_object [(''path'', JString path), (''space'', enc_space space),
       (''content_hash'', JString content_hash), (''signer_fingerprint'', JString signer)])]"

definition dec_node_policy :: "json \<Rightarrow> node_history_policy_provenance option" where
  "dec_node_policy v = do {
     (t, body) \<leftarrow> variant_of v;
     if t = ''missing_config'' then (if body = JNull then Some MissingConfig else None)
     else if t = ''signed_config'' then do {
       m \<leftarrow> known_fields [''path'', ''space'', ''content_hash'', ''signer_fingerprint''] body;
       path \<leftarrow> required m ''path'' decode_string;
       space \<leftarrow> required m ''space'' dec_space;
       content_hash \<leftarrow> required m ''content_hash'' decode_string;
       signer \<leftarrow> required m ''signer_fingerprint'' decode_string;
       Some (SignedConfig path space content_hash signer) }
     else None }"

definition enc_clamp :: "history_minimum_clamp \<Rightarrow> json" where
  "enc_clamp c = json_object [(''requested_seconds'', json_nat (requested_seconds c)),
     (''minimum_seconds'', json_nat (minimum_seconds c))]"

definition dec_clamp :: "json \<Rightarrow> history_minimum_clamp option" where
  "dec_clamp v = do {
     m \<leftarrow> known_fields [''requested_seconds'', ''minimum_seconds''] v;
     r \<leftarrow> required m ''requested_seconds'' decode_u64;
     n \<leftarrow> required m ''minimum_seconds'' decode_u64;
     Some \<lparr> requested_seconds = r, minimum_seconds = n \<rparr> }"

primrec enc_provenance :: "captured_policy_provenance \<Rightarrow> json" where
  "enc_provenance (NodeDefault node_policy) =
     JObject [(''node_default'', json_object [(''node_policy'', enc_node_policy node_policy)])]"
| "enc_provenance (ItemAuthored path requested effective clamp node_policy) =
     JObject [(''item_authored'', json_object [(''composed_path'', JString path),
       (''requested_seconds'', json_nat requested), (''effective_trust_class'', enc_effective_trust effective),
       (''minimum_clamp'', json_option enc_clamp clamp), (''node_policy'', enc_node_policy node_policy)])]"

definition dec_provenance :: "json \<Rightarrow> captured_policy_provenance option" where
  "dec_provenance v = do {
     (t, body) \<leftarrow> variant_of v;
     if t = ''node_default'' then do {
       m \<leftarrow> known_fields [''node_policy''] body;
       node_policy \<leftarrow> required m ''node_policy'' dec_node_policy;
       Some (NodeDefault node_policy) }
     else if t = ''item_authored'' then do {
       m \<leftarrow> known_fields [''composed_path'', ''requested_seconds'', ''effective_trust_class'', ''minimum_clamp'',
              ''node_policy''] body;
       path \<leftarrow> required m ''composed_path'' decode_string;
       requested \<leftarrow> required m ''requested_seconds'' decode_u64;
       effective \<leftarrow> required m ''effective_trust_class'' dec_effective_trust;
       clamp \<leftarrow> required m ''minimum_clamp'' (decode_option dec_clamp);
       node_policy \<leftarrow> required m ''node_policy'' dec_node_policy;
       Some (ItemAuthored path requested effective clamp node_policy) }
     else None }"

definition enc_policy :: "captured_thread_history_policy \<Rightarrow> json" where
  "enc_policy p =
     json_object [(''retention'', enc_retention (retention p)),
       (''canonical_item_ref'', JString (canonical_item_ref p)),
       (''item_content_hash'', JString (item_content_hash p)),
       (''item_signer_fingerprint'', json_option JString (item_signer_fingerprint p)),
       (''item_trust_class'', enc_item_trust (item_trust_class p)),
       (''kind_schema_content_hash'', JString (kind_schema_content_hash p)),
       (''resolved_from'', enc_provenance (resolved_from p))]"

definition dec_policy :: "json \<Rightarrow> captured_thread_history_policy option" where
  "dec_policy v = do {
     m \<leftarrow> known_fields [''retention'', ''canonical_item_ref'', ''item_content_hash'', ''item_signer_fingerprint'',
            ''item_trust_class'', ''kind_schema_content_hash'', ''resolved_from''] v;
     r \<leftarrow> required m ''retention'' dec_retention;
     item \<leftarrow> required m ''canonical_item_ref'' decode_string;
     content \<leftarrow> required m ''item_content_hash'' decode_string;
     signer \<leftarrow> required m ''item_signer_fingerprint'' (decode_option decode_string);
     trust \<leftarrow> required m ''item_trust_class'' dec_item_trust;
     schema \<leftarrow> required m ''kind_schema_content_hash'' decode_string;
     from \<leftarrow> required m ''resolved_from'' dec_provenance;
     Some \<lparr> retention = r, canonical_item_ref = item, item_content_hash = content,
            item_signer_fingerprint = signer, item_trust_class = trust,
            kind_schema_content_hash = schema, resolved_from = from \<rparr> }"

lemma json_wf_object:
  "distinct (map fst kvs) \<Longrightarrow>
     json_wf (json_object kvs) \<longleftrightarrow> (\<forall>(k, v) \<in> set kvs. valid_utf8 k \<and> json_wf v)"
  by (simp add: json_object_def json_wf_JObject bt_sorted_sort_key)

lemma json_wf_option: "json_wf (json_option f x) \<longleftrightarrow> (\<forall>y. x = Some y \<longrightarrow> json_wf (f y))"
  by (simp add: json_option_def split: option.split)

lemma json_wf_nat [simp]: "json_wf (json_nat n) \<longleftrightarrow> n < u64_bound"
  by (simp add: json_nat_def)

lemma json_object_not_null [simp]: "json_object kvs \<noteq> JNull"
  by (simp add: json_object_def)

lemma dec_retention_enc [codec]: "json_wf (enc_retention x) \<Longrightarrow> dec_retention (enc_retention x) = Some x"
  by (cases x) (simp_all add: dec_retention_def codec required_def json_wf_object)

lemma dec_trust_enc [codec]:
  "dec_item_trust (enc_item_trust t) = Some t" "dec_effective_trust (enc_effective_trust e) = Some e"
  "dec_space (enc_space s) = Some s"
  by (cases t; simp add: dec_item_trust_def) (cases e; cases s; simp add: dec_effective_trust_def dec_space_def)+

lemma dec_node_policy_enc [codec]: "dec_node_policy (enc_node_policy x) = Some x"
  by (cases x) (simp_all add: dec_node_policy_def codec required_def)

lemma dec_clamp_enc [codec]: "json_wf (enc_clamp x) \<Longrightarrow> dec_clamp (enc_clamp x) = Some x"
  by (simp add: dec_clamp_def enc_clamp_def codec required_def json_wf_object)

lemma decode_option_enc:
  assumes "\<And>y. json_wf (enc y) \<Longrightarrow> dec (enc y) = Some y" and "\<And>y. enc y \<noteq> JNull"
    and "json_wf (json_option enc x)"
  shows "decode_option dec (json_option enc x) = Some x"
  using decode_option_json_option [of x enc dec id] assms by (simp add: json_wf_option option.map_id)

lemma dec_option_clamp_enc [codec]:
  "json_wf (json_option enc_clamp x) \<Longrightarrow> decode_option dec_clamp (json_option enc_clamp x) = Some x"
  by (intro decode_option_enc dec_clamp_enc) (simp_all add: enc_clamp_def)

lemma dec_provenance_enc [codec]:
  "json_wf (enc_provenance x) \<Longrightarrow> dec_provenance (enc_provenance x) = Some x"
  by (cases x) (simp_all add: dec_provenance_def codec required_def json_wf_JObject json_wf_object)

lemma dec_policy_enc [codec]: "json_wf (enc_policy x) \<Longrightarrow> dec_policy (enc_policy x) = Some x"
  by (simp add: dec_policy_def enc_policy_def codec required_def json_wf_object)

section \<open>Usage\<close>

text \<open>A non-finite \<open>f64\<close> serializes as null.\<close>

definition enc_f64 :: "64 word \<Rightarrow> json" where
  "enc_f64 x = (if f64_is_finite x then JNumber (Float64 x) else JNull)"

definition enc_usage :: "thread_usage \<Rightarrow> json" where
  "enc_usage u =
     json_object ([(''completed_turns'', json_nat (completed_turns u)),
       (''input_tokens'', json_nat (input_tokens u)), (''output_tokens'', json_nat (output_tokens u)),
       (''spend_usd'', enc_f64 (spend_usd u)), (''spawns_used'', json_nat (spawns_used u)),
       (''started_at'', JString (usage_started_at u)), (''settled_at'', JString (usage_settled_at u)),
       (''last_settled_turn_seq'', json_nat (last_settled_turn_seq u)),
       (''elapsed_ms'', json_nat (elapsed_ms u))]
       @ skip_none ''provider_id'' JString (usage_provider_id u)
       @ skip_none ''model'' JString (usage_model u)
       @ skip_none ''profile'' JString (usage_profile u))"

definition dec_usage :: "json \<Rightarrow> thread_usage option" where
  "dec_usage v = do {
     m \<leftarrow> known_fields [''completed_turns'', ''input_tokens'', ''output_tokens'', ''spend_usd'', ''spawns_used'',
            ''started_at'', ''settled_at'', ''last_settled_turn_seq'', ''elapsed_ms'', ''provider_id'',
            ''model'', ''profile''] v;
     turns \<leftarrow> required m ''completed_turns'' decode_u32;
     input \<leftarrow> required m ''input_tokens'' decode_u64;
     output \<leftarrow> required m ''output_tokens'' decode_u64;
     spend \<leftarrow> required m ''spend_usd'' decode_f64;
     spawns \<leftarrow> required m ''spawns_used'' decode_u32;
     started \<leftarrow> required m ''started_at'' decode_string;
     settled \<leftarrow> required m ''settled_at'' decode_string;
     turn_seq \<leftarrow> required m ''last_settled_turn_seq'' decode_u64;
     elapsed \<leftarrow> required m ''elapsed_ms'' decode_u64;
     provider \<leftarrow> defaulted m ''provider_id'' decode_string;
     model \<leftarrow> defaulted m ''model'' decode_string;
     profile \<leftarrow> defaulted m ''profile'' decode_string;
     Some \<lparr> completed_turns = turns, input_tokens = input, output_tokens = output, spend_usd = spend,
            spawns_used = spawns, usage_started_at = started, usage_settled_at = settled,
            last_settled_turn_seq = turn_seq, elapsed_ms = elapsed, usage_provider_id = provider,
            usage_model = model, usage_profile = profile \<rparr> }"

definition usage_typed :: "thread_usage \<Rightarrow> bool" where
  "usage_typed u \<longleftrightarrow> completed_turns u < u32_bound \<and> spawns_used u < u32_bound"

lemma dec_usage_enc [codec]:
  assumes "json_wf (enc_usage u)" and "usage_typed u" and "f64_is_finite (spend_usd u)"
  shows "dec_usage (enc_usage u) = Some u"
  using assms
  by (cases "usage_provider_id u"; cases "usage_model u"; cases "usage_profile u")
     (simp_all add: dec_usage_def enc_usage_def usage_typed_def enc_f64_def codec required_def
        defaulted_def skip_none_def decode_option_def json_wf_object)

section \<open>Snapshots\<close>

primrec enc_status :: "thread_status \<Rightarrow> json" where
  "enc_status Created = JString ''created''"
| "enc_status Running = JString ''running''"
| "enc_status Completed = JString ''completed''"
| "enc_status Failed = JString ''failed''"
| "enc_status Cancelled = JString ''cancelled''"
| "enc_status Killed = JString ''killed''"
| "enc_status TimedOut = JString ''timed_out''"
| "enc_status Continued = JString ''continued''"

definition dec_status :: "json \<Rightarrow> thread_status option" where
  "dec_status v = do {
     s \<leftarrow> decode_string v;
     if s = ''created'' then Some Created else if s = ''running'' then Some Running
     else if s = ''completed'' then Some Completed else if s = ''failed'' then Some Failed
     else if s = ''cancelled'' then Some Cancelled else if s = ''killed'' then Some Killed
     else if s = ''timed_out'' then Some TimedOut else if s = ''continued'' then Some Continued
     else None }"

definition enc_facets :: "string btree \<Rightarrow> json" where
  "enc_facets m = JObject (map (map_prod id JString) m)"

definition snapshot_fields :: "thread_snapshot \<Rightarrow> (string \<times> json) list" where
  "snapshot_fields s =
     [(''schema'', json_nat (snap_schema s)), (''kind'', JString (snap_kind s)),
      (''thread_id'', JString (snap_thread_id s)), (''chain_root_id'', JString (snap_chain_root_id s)),
      (''status'', enc_status (snap_status s)), (''kind_name'', JString (snap_kind_name s)),
      (''item_ref'', JString (snap_item_ref s)), (''executor_ref'', JString (snap_executor_ref s)),
      (''launch_mode'', JString (snap_launch_mode s)),
      (''current_site_id'', JString (snap_current_site_id s)),
      (''origin_site_id'', JString (snap_origin_site_id s)),
      (''upstream_thread_id'', json_option JString (snap_upstream_thread_id s)),
      (''requested_by'', json_option JString (snap_requested_by s)),
      (''project_root'', json_option JString (snap_project_root s)),
      (''project_authority'', enc_authority (snap_project_authority s)),
      (''admitted_launch_capsule_hash'', json_option JString (snap_admitted_launch_capsule_hash s)),
      (''captured_history_policy'', json_option enc_policy (snap_captured_history_policy s)),
      (''base_project_snapshot_hash'', json_option JString (snap_base_project_snapshot_hash s)),
      (''result_project_snapshot_hash'', json_option JString (snap_result_project_snapshot_hash s)),
      (''created_at'', JString (snap_created_at s)), (''updated_at'', JString (snap_updated_at s)),
      (''started_at'', json_option JString (snap_started_at s)),
      (''finished_at'', json_option JString (snap_finished_at s)),
      (''result'', json_option id (snap_result s)),
      (''outcome_code'', json_option JString (snap_outcome_code s)),
      (''error'', json_option id (snap_error s)),
      (''budget'', json_option enc_usage (snap_budget s)),
      (''artifacts'', JArray (snap_artifacts s)), (''facets'', enc_facets (snap_facets s)),
      (''last_event_hash'', json_option JString (snap_last_event_hash s)),
      (''last_chain_seq'', json_nat (snap_last_chain_seq s)),
      (''last_thread_seq'', json_nat (snap_last_thread_seq s))]"

definition snapshot_to_value :: "thread_snapshot \<Rightarrow> json" where
  "snapshot_to_value s = json_object (snapshot_fields s)"

definition snapshot_keys :: "string list" where
  "snapshot_keys =
     [''schema'', ''kind'', ''thread_id'', ''chain_root_id'', ''status'', ''kind_name'', ''item_ref'',
      ''executor_ref'', ''launch_mode'', ''current_site_id'', ''origin_site_id'', ''upstream_thread_id'',
      ''requested_by'', ''project_root'', ''project_authority'', ''admitted_launch_capsule_hash'',
      ''captured_history_policy'', ''base_project_snapshot_hash'', ''result_project_snapshot_hash'',
      ''created_at'', ''updated_at'', ''started_at'', ''finished_at'', ''result'', ''outcome_code'',
      ''error'', ''budget'', ''artifacts'', ''facets'', ''last_event_hash'', ''last_chain_seq'',
      ''last_thread_seq'']"

definition snapshot_from_value :: "json \<Rightarrow> thread_snapshot option" where
  "snapshot_from_value v = do {
     m \<leftarrow> known_fields snapshot_keys v;
     schema \<leftarrow> required m ''schema'' decode_u32;
     kind \<leftarrow> required m ''kind'' decode_string;
     thread_id \<leftarrow> required m ''thread_id'' decode_string;
     chain_root_id \<leftarrow> required m ''chain_root_id'' decode_string;
     status \<leftarrow> required m ''status'' dec_status;
     kind_name \<leftarrow> required m ''kind_name'' decode_string;
     item_ref \<leftarrow> required m ''item_ref'' decode_string;
     executor_ref \<leftarrow> required m ''executor_ref'' decode_string;
     launch_mode \<leftarrow> required m ''launch_mode'' decode_string;
     current_site_id \<leftarrow> required m ''current_site_id'' decode_string;
     origin_site_id \<leftarrow> required m ''origin_site_id'' decode_string;
     upstream \<leftarrow> required m ''upstream_thread_id'' (decode_option decode_string);
     requested_by \<leftarrow> required m ''requested_by'' (decode_option decode_string);
     project_root \<leftarrow> required m ''project_root'' (decode_option decode_string);
     authority \<leftarrow> required m ''project_authority'' dec_authority;
     capsule \<leftarrow> required m ''admitted_launch_capsule_hash'' (decode_option decode_string);
     policy \<leftarrow> required m ''captured_history_policy'' (decode_option dec_policy);
     base \<leftarrow> required m ''base_project_snapshot_hash'' (decode_option decode_string);
     resulting \<leftarrow> required m ''result_project_snapshot_hash'' (decode_option decode_string);
     created_at \<leftarrow> required m ''created_at'' decode_string;
     updated_at \<leftarrow> required m ''updated_at'' decode_string;
     started_at \<leftarrow> required m ''started_at'' (decode_option decode_string);
     finished_at \<leftarrow> required m ''finished_at'' (decode_option decode_string);
     result \<leftarrow> required m ''result'' (decode_option Some);
     outcome_code \<leftarrow> required m ''outcome_code'' (decode_option decode_string);
     error \<leftarrow> required m ''error'' (decode_option Some);
     budget \<leftarrow> required m ''budget'' (decode_option dec_usage);
     artifacts \<leftarrow> required m ''artifacts'' (decode_list Some);
     facets \<leftarrow> required m ''facets'' (decode_map decode_string);
     last_event_hash \<leftarrow> required m ''last_event_hash'' (decode_option decode_string);
     last_chain_seq \<leftarrow> required m ''last_chain_seq'' decode_u64;
     last_thread_seq \<leftarrow> required m ''last_thread_seq'' decode_u64;
     Some \<lparr> snap_schema = schema, snap_kind = kind, snap_thread_id = thread_id,
       snap_chain_root_id = chain_root_id, snap_status = status, snap_kind_name = kind_name,
       snap_item_ref = item_ref, snap_executor_ref = executor_ref, snap_launch_mode = launch_mode,
       snap_current_site_id = current_site_id, snap_origin_site_id = origin_site_id,
       snap_upstream_thread_id = upstream, snap_requested_by = requested_by,
       snap_project_root = project_root, snap_project_authority = authority,
       snap_admitted_launch_capsule_hash = capsule, snap_captured_history_policy = policy,
       snap_base_project_snapshot_hash = base, snap_result_project_snapshot_hash = resulting,
       snap_created_at = created_at, snap_updated_at = updated_at, snap_started_at = started_at,
       snap_finished_at = finished_at, snap_result = result, snap_outcome_code = outcome_code,
       snap_error = error, snap_budget = budget, snap_artifacts = artifacts, snap_facets = facets,
       snap_last_event_hash = last_event_hash, snap_last_chain_seq = last_chain_seq,
       snap_last_thread_seq = last_thread_seq \<rparr> }"

text \<open>\<open>ThreadSnapshot::from_current_value\<close> and \<open>hash_snapshot\<close>.\<close>

definition snapshot_from_current_value :: "'z lib_env_scheme \<Rightarrow> json \<Rightarrow> thread_snapshot result" where
  "snapshot_from_current_value E v =
     (case v of
        JObject m \<Rightarrow>
          ebind (ok_or (required m ''kind'' decode_string) (Bail ''thread snapshot has no string kind'')) (\<lambda>kind.
          ebind (require (kind = ''thread_snapshot'') (Bail ''unexpected thread snapshot kind'')) (\<lambda>_.
          ebind (ok_or (required m ''schema'' decode_u64) (Bail ''thread snapshot has no numeric schema'')) (\<lambda>schema.
          ebind (require (schema = thread_snapshot_schema_version)
            (Bail ''thread snapshot is not the exact current contract'')) (\<lambda>_.
          ebind (ok_or (snapshot_from_value v) (Decode ''current thread snapshot'')) (\<lambda>snapshot.
          ebind (validate_snapshot E snapshot) (\<lambda>_. Inr snapshot))))))
      | _ \<Rightarrow> Inl (Bail ''thread snapshot must be an object''))"

definition hash_snapshot :: "'z lib_env_scheme \<Rightarrow> thread_snapshot \<Rightarrow> string" where
  "hash_snapshot E s = sha256_hex E (canonical_json E (snapshot_to_value s))"

text \<open>A stored null result or error reads back as absent.\<close>

definition absent_null :: "json option \<Rightarrow> json option" where
  "absent_null x = (if x = Some JNull then None else x)"

definition snap_norm :: "thread_snapshot \<Rightarrow> thread_snapshot" where
  "snap_norm s = s\<lparr> snap_result := absent_null (snap_result s), snap_error := absent_null (snap_error s) \<rparr>"

text \<open>The values of the Rust type that the codec carries: 32-bit counters and a finite spend.\<close>

definition snapshot_typed :: "thread_snapshot \<Rightarrow> bool" where
  "snapshot_typed s \<longleftrightarrow>
     json_wf (snapshot_to_value s) \<and> snap_schema s < u32_bound
     \<and> (\<forall>u. snap_budget s = Some u \<longrightarrow> usage_typed u \<and> f64_is_finite (spend_usd u))"

lemma distinct_snapshot_keys [simp]: "distinct snapshot_keys"
  by (simp add: snapshot_keys_def)

lemma map_fst_snapshot_fields [simp]: "map fst (snapshot_fields s) = snapshot_keys"
  by (simp add: snapshot_fields_def snapshot_keys_def)

lemma snapshot_fields_known: "list_all (\<lambda>(k, v). k \<in> set snapshot_keys) (snapshot_fields s)"
proof -
  have "fst ` set (snapshot_fields s) = set snapshot_keys"
    by (metis list.set_map map_fst_snapshot_fields)
  then show ?thesis by (force simp: list_all_iff)
qed

lemma dec_status_enc [codec]: "dec_status (enc_status s) = Some s"
  by (cases s) (simp_all add: dec_status_def)

lemma decode_map_enc_facets [codec]: "decode_map decode_string (enc_facets m) = Some m"
  by (induction m) (auto simp: enc_facets_def)

lemma those_map_id [simp]: "those (map Some vs) = Some vs"
  by (induction vs) auto

lemma decode_values [codec]:
  "decode_option Some (json_option id x) = Some (absent_null x)"
  "decode_list Some (JArray vs) = Some vs"
  by (cases x; auto simp: decode_option_def json_option_def absent_null_def)+

lemma json_wf_snapshot:
  "json_wf (snapshot_to_value s) \<longleftrightarrow> (\<forall>(k, v) \<in> set (snapshot_fields s). valid_utf8 k \<and> json_wf v)"
  by (simp add: snapshot_to_value_def json_wf_object)

lemma snapshot_from_value_to_value:
  assumes "snapshot_typed s"
  shows "snapshot_from_value (snapshot_to_value s) = Some (snap_norm s)"
proof -
  have wf: "snap_last_chain_seq s < u64_bound" "snap_last_thread_seq s < u64_bound"
    "json_wf (json_option enc_policy (snap_captured_history_policy s))"
    "json_wf (json_option enc_usage (snap_budget s))" "snap_schema s < u32_bound"
    using assms by (simp_all add: snapshot_typed_def json_wf_snapshot snapshot_fields_def)
  have p: "decode_option dec_policy (json_option enc_policy (snap_captured_history_policy s))
      = Some (snap_captured_history_policy s)"
    by (intro decode_option_enc dec_policy_enc) (use wf in \<open>simp_all add: enc_policy_def\<close>)
  have u: "decode_option dec_usage (json_option enc_usage (snap_budget s)) = Some (snap_budget s)"
    using decode_option_json_option [of "snap_budget s" enc_usage dec_usage id] assms wf(4)
    by (simp add: json_wf_option snapshot_typed_def codec option.map_id) (simp add: enc_usage_def)
  have f: "known_fields snapshot_keys (snapshot_to_value s) = Some (sort_key fst (snapshot_fields s))"
    unfolding snapshot_to_value_def by (intro fields_object) (simp_all add: snapshot_fields_known)
  show ?thesis
    unfolding snapshot_from_value_def f
    by (simp add: required_object)
       (simp add: required_def snapshot_fields_def codec p u wf snap_norm_def thread_snapshot.equality)
qed

end
