(* ===== verification/Chain_Objects.thy ===== *)
theory Chain_Objects
  imports Snapshot_Codec
begin

text \<open>
  Thread events and chain states, \<^verbatim>\<open>objects/thread_event.rs\<close> and \<^verbatim>\<open>objects/chain_state.rs\<close>:
  the records, their wire form, their validation, their hashes and the size zones of a chain
  state. Events are linked by hash along the chain and along their thread; a chain state names
  its predecessor, the newest event and, per thread, the newest snapshot and event.
\<close>

section \<open>Events\<close>

datatype event_durability = DurableEvent | Journal | Ephemeral

primrec durability_str :: "event_durability \<Rightarrow> string" where
  "durability_str DurableEvent = ''durable''"
| "durability_str Journal = ''journal''"
| "durability_str Ephemeral = ''ephemeral''"

definition is_cas_stored :: "event_durability \<Rightarrow> bool" where
  "is_cas_stored d \<longleftrightarrow> d \<in> {DurableEvent, Journal}"

definition is_projection_indexed :: "event_durability \<Rightarrow> bool" where
  "is_projection_indexed d \<longleftrightarrow> d = DurableEvent"

record thread_event =
  ev_schema :: nat
  ev_kind :: string
  ev_chain_root_id :: string
  ev_chain_seq :: nat
  ev_thread_id :: string
  ev_thread_seq :: nat
  ev_event_type :: string
  ev_durability :: event_durability
  ev_ts :: string
  ev_prev_chain_event_hash :: "string option"
  ev_prev_thread_event_hash :: "string option"
  ev_payload :: json

abbreviation schema_version :: nat where
  "schema_version \<equiv> 1"

abbreviation max_thread_event_serialized_bytes :: nat where
  "max_thread_event_serialized_bytes \<equiv> 512 * 1024"

definition dec_durability :: "json \<Rightarrow> event_durability option" where
  "dec_durability v = do {
     s \<leftarrow> decode_string v;
     if s = ''durable'' then Some DurableEvent else if s = ''journal'' then Some Journal
     else if s = ''ephemeral'' then Some Ephemeral else None }"

definition event_fields :: "thread_event \<Rightarrow> (string \<times> json) list" where
  "event_fields e =
     [(''schema'', json_nat (ev_schema e)), (''kind'', JString (ev_kind e)),
      (''chain_root_id'', JString (ev_chain_root_id e)), (''chain_seq'', json_nat (ev_chain_seq e)),
      (''thread_id'', JString (ev_thread_id e)), (''thread_seq'', json_nat (ev_thread_seq e)),
      (''event_type'', JString (ev_event_type e)),
      (''durability'', JString (durability_str (ev_durability e))), (''ts'', JString (ev_ts e)),
      (''prev_chain_event_hash'', json_option JString (ev_prev_chain_event_hash e)),
      (''prev_thread_event_hash'', json_option JString (ev_prev_thread_event_hash e)),
      (''payload'', ev_payload e)]"

definition event_to_value :: "thread_event \<Rightarrow> json" where
  "event_to_value e = json_object (event_fields e)"

definition event_keys :: "string list" where
  "event_keys = [''schema'', ''kind'', ''chain_root_id'', ''chain_seq'', ''thread_id'', ''thread_seq'',
     ''event_type'', ''durability'', ''ts'', ''prev_chain_event_hash'', ''prev_thread_event_hash'', ''payload'']"

definition event_from_value :: "json \<Rightarrow> thread_event option" where
  "event_from_value v = do {
     m \<leftarrow> known_fields event_keys v;
     schema \<leftarrow> required m ''schema'' decode_u32;
     kind \<leftarrow> required m ''kind'' decode_string;
     chain_root_id \<leftarrow> required m ''chain_root_id'' decode_string;
     chain_seq \<leftarrow> required m ''chain_seq'' decode_u64;
     thread_id \<leftarrow> required m ''thread_id'' decode_string;
     thread_seq \<leftarrow> required m ''thread_seq'' decode_u64;
     event_type \<leftarrow> required m ''event_type'' decode_string;
     durability \<leftarrow> required m ''durability'' dec_durability;
     ts \<leftarrow> required m ''ts'' decode_string;
     prev_chain \<leftarrow> defaulted m ''prev_chain_event_hash'' decode_string;
     prev_thread \<leftarrow> defaulted m ''prev_thread_event_hash'' decode_string;
     payload \<leftarrow> required m ''payload'' Some;
     Some \<lparr> ev_schema = schema, ev_kind = kind, ev_chain_root_id = chain_root_id,
       ev_chain_seq = chain_seq, ev_thread_id = thread_id, ev_thread_seq = thread_seq,
       ev_event_type = event_type, ev_durability = durability, ev_ts = ts,
       ev_prev_chain_event_hash = prev_chain, ev_prev_thread_event_hash = prev_thread,
       ev_payload = payload \<rparr> }"

definition validate_event :: "'z lib_env_scheme \<Rightarrow> thread_event \<Rightarrow> unit result" where
  "validate_event E e =
     ebind (validate_object_kind (ev_kind e) ''thread_event'') (\<lambda>_.
     ebind (require (ev_schema e = schema_version) (Bail ''unexpected schema version'')) (\<lambda>_.
     ebind (require (ev_chain_root_id e \<noteq> []) (Bail ''chain_root_id must not be empty'')) (\<lambda>_.
     ebind (require (ev_thread_id e \<noteq> []) (Bail ''thread_id must not be empty'')) (\<lambda>_.
     ebind (require (ev_event_type e \<noteq> []) (Bail ''event_type must not be empty'')) (\<lambda>_.
     ebind (parse_canonical_timestamp E (ev_ts e)) (\<lambda>_.
     ebind (if_some (validate_canonical_hash ''prev_chain_event_hash'') (ev_prev_chain_event_hash e)) (\<lambda>_.
     ebind (if_some (validate_canonical_hash ''prev_thread_event_hash'') (ev_prev_thread_event_hash e)) (\<lambda>_.
     require (\<not> length (canonical_json E (event_to_value e)) > max_thread_event_serialized_bytes)
       (Bail ''thread event is too large'')))))))))"

definition hash_event :: "'z lib_env_scheme \<Rightarrow> thread_event \<Rightarrow> string" where
  "hash_event E e = sha256_hex E (canonical_json E (event_to_value e))"

text \<open>\<open>NewEvent::new\<close> followed by \<open>build_with_ts\<close>; a setter in between is a record update.\<close>

definition built_event :: "string \<Rightarrow> string \<Rightarrow> string \<Rightarrow> string \<Rightarrow> thread_event" where
  "built_event ts chain_root_id thread_id event_type =
     \<lparr> ev_schema = schema_version, ev_kind = ''thread_event'', ev_chain_root_id = chain_root_id,
       ev_chain_seq = 0, ev_thread_id = thread_id, ev_thread_seq = 0, ev_event_type = event_type,
       ev_durability = DurableEvent, ev_ts = ts, ev_prev_chain_event_hash = None,
       ev_prev_thread_event_hash = None, ev_payload = JObject [] \<rparr>"

section \<open>Chain states\<close>

record chain_thread_entry =
  entry_snapshot_hash :: string
  entry_last_event_hash :: "string option"
  entry_last_thread_seq :: nat
  entry_status :: thread_status

record chain_state =
  cs_schema :: nat
  cs_kind :: string
  cs_chain_root_id :: string
  cs_prev_chain_state_hash :: "string option"
  cs_last_event_hash :: "string option"
  cs_last_chain_seq :: nat
  cs_updated_at :: string
  cs_threads :: "chain_thread_entry btree"

definition enc_entry :: "chain_thread_entry \<Rightarrow> json" where
  "enc_entry e =
     json_object [(''snapshot_hash'', JString (entry_snapshot_hash e)),
       (''last_event_hash'', json_option JString (entry_last_event_hash e)),
       (''last_thread_seq'', json_nat (entry_last_thread_seq e)), (''status'', enc_status (entry_status e))]"

definition dec_entry :: "json \<Rightarrow> chain_thread_entry option" where
  "dec_entry v = do {
     m \<leftarrow> known_fields [''snapshot_hash'', ''last_event_hash'', ''last_thread_seq'', ''status''] v;
     hash \<leftarrow> required m ''snapshot_hash'' decode_string;
     event \<leftarrow> defaulted m ''last_event_hash'' decode_string;
     seq \<leftarrow> required m ''last_thread_seq'' decode_u64;
     status \<leftarrow> required m ''status'' dec_status;
     Some \<lparr> entry_snapshot_hash = hash, entry_last_event_hash = event, entry_last_thread_seq = seq,
            entry_status = status \<rparr> }"

definition enc_threads :: "chain_thread_entry btree \<Rightarrow> json" where
  "enc_threads m = JObject (map (map_prod id enc_entry) m)"

definition state_fields :: "chain_state \<Rightarrow> (string \<times> json) list" where
  "state_fields s =
     [(''schema'', json_nat (cs_schema s)), (''kind'', JString (cs_kind s)),
      (''chain_root_id'', JString (cs_chain_root_id s)),
      (''prev_chain_state_hash'', json_option JString (cs_prev_chain_state_hash s)),
      (''last_event_hash'', json_option JString (cs_last_event_hash s)),
      (''last_chain_seq'', json_nat (cs_last_chain_seq s)), (''updated_at'', JString (cs_updated_at s)),
      (''threads'', enc_threads (cs_threads s))]"

definition state_to_value :: "chain_state \<Rightarrow> json" where
  "state_to_value s = json_object (state_fields s)"

definition state_keys :: "string list" where
  "state_keys = [''schema'', ''kind'', ''chain_root_id'', ''prev_chain_state_hash'', ''last_event_hash'',
     ''last_chain_seq'', ''updated_at'', ''threads'']"

definition state_from_value :: "json \<Rightarrow> chain_state option" where
  "state_from_value v = do {
     m \<leftarrow> known_fields state_keys v;
     schema \<leftarrow> required m ''schema'' decode_u32;
     kind \<leftarrow> required m ''kind'' decode_string;
     chain_root_id \<leftarrow> required m ''chain_root_id'' decode_string;
     prev \<leftarrow> defaulted m ''prev_chain_state_hash'' decode_string;
     event \<leftarrow> defaulted m ''last_event_hash'' decode_string;
     seq \<leftarrow> required m ''last_chain_seq'' decode_u64;
     updated_at \<leftarrow> required m ''updated_at'' decode_string;
     threads \<leftarrow> required m ''threads'' (decode_map dec_entry);
     Some \<lparr> cs_schema = schema, cs_kind = kind, cs_chain_root_id = chain_root_id,
       cs_prev_chain_state_hash = prev, cs_last_event_hash = event, cs_last_chain_seq = seq,
       cs_updated_at = updated_at, cs_threads = threads \<rparr> }"

definition validate_entry :: "chain_thread_entry \<Rightarrow> unit result" where
  "validate_entry e =
     ebind (require (entry_snapshot_hash e \<noteq> []) (Bail ''snapshot_hash must not be empty'')) (\<lambda>_.
     ebind (validate_canonical_hash ''snapshot_hash'' (entry_snapshot_hash e)) (\<lambda>_.
     if_some (validate_canonical_hash ''last_event_hash'') (entry_last_event_hash e)))"

definition validate_state :: "'z lib_env_scheme \<Rightarrow> chain_state \<Rightarrow> unit result" where
  "validate_state E s =
     ebind (validate_object_kind (cs_kind s) ''chain_state'') (\<lambda>_.
     ebind (require (cs_schema s = schema_version) (Bail ''unexpected schema version'')) (\<lambda>_.
     ebind (require (cs_chain_root_id s \<noteq> []) (Bail ''chain_root_id must not be empty'')) (\<lambda>_.
     ebind (if_some (validate_canonical_hash ''prev_chain_state_hash'') (cs_prev_chain_state_hash s)) (\<lambda>_.
     ebind (if_some (validate_canonical_hash ''last_event_hash'') (cs_last_event_hash s)) (\<lambda>_.
     ebind (parse_canonical_timestamp E (cs_updated_at s)) (\<lambda>_.
     ebind (for_each (\<lambda>(thread_id, entry).
         ebind (require (thread_id \<noteq> []) (Bail ''thread_id in threads map must not be empty'')) (\<lambda>_.
         validate_entry entry)) (cs_threads s)) (\<lambda>_.
     require (map_of (cs_threads s) (cs_chain_root_id s) \<noteq> None)
       (Bail ''chain_root_id must exist in threads map''))))))))"

definition hash_chain_state :: "'z lib_env_scheme \<Rightarrow> chain_state \<Rightarrow> string" where
  "hash_chain_state E s = sha256_hex E (canonical_json E (state_to_value s))"

text \<open>The size zones.\<close>

definition estimated_size_bytes :: "'z lib_env_scheme \<Rightarrow> chain_state \<Rightarrow> nat" where
  "estimated_size_bytes E s = length (canonical_json E (state_to_value s))"

definition is_green :: "'z lib_env_scheme \<Rightarrow> chain_state \<Rightarrow> bool" where
  "is_green E s \<longleftrightarrow> length (cs_threads s) < 200 \<and> estimated_size_bytes E s < 256 * 1024"

definition is_yellow :: "'z lib_env_scheme \<Rightarrow> chain_state \<Rightarrow> bool" where
  "is_yellow E s \<longleftrightarrow>
     length (cs_threads s) \<ge> 200 \<and> length (cs_threads s) < 500 \<and> estimated_size_bytes E s < 1024 * 1024"

definition is_red :: "'z lib_env_scheme \<Rightarrow> chain_state \<Rightarrow> bool" where
  "is_red E s \<longleftrightarrow> length (cs_threads s) \<ge> 500 \<or> estimated_size_bytes E s \<ge> 1024 * 1024"

section \<open>The codec reads back what it wrote\<close>

text \<open>The values of the Rust types: their JSON is well-formed, the schema is 32 bits wide.\<close>

definition event_typed :: "thread_event \<Rightarrow> bool" where
  "event_typed e \<longleftrightarrow> json_wf (event_to_value e) \<and> ev_schema e < u32_bound"

definition state_typed :: "chain_state \<Rightarrow> bool" where
  "state_typed s \<longleftrightarrow> json_wf (state_to_value s) \<and> cs_schema s < u32_bound"

lemma distinct_keys [simp]: "distinct event_keys" "distinct state_keys"
  by (simp_all add: event_keys_def state_keys_def)

lemma map_fst_fields [simp]: "map fst (event_fields e) = event_keys" "map fst (state_fields s) = state_keys"
  by (simp_all add: event_fields_def event_keys_def state_fields_def state_keys_def)

lemma fields_known:
  "list_all (\<lambda>(k, v). k \<in> set event_keys) (event_fields e)"
  "list_all (\<lambda>(k, v). k \<in> set state_keys) (state_fields s)"
  by (simp_all add: event_fields_def event_keys_def state_fields_def state_keys_def)

lemma dec_durability_enc [codec]: "dec_durability (JString (durability_str d)) = Some d"
  by (cases d) (simp_all add: dec_durability_def)

lemma json_wf_event:
  "json_wf (event_to_value e) \<longleftrightarrow> (\<forall>(k, v) \<in> set (event_fields e). valid_utf8 k \<and> json_wf v)"
  by (simp add: event_to_value_def json_wf_object)

lemma json_wf_state:
  "json_wf (state_to_value s) \<longleftrightarrow> (\<forall>(k, v) \<in> set (state_fields s). valid_utf8 k \<and> json_wf v)"
  by (simp add: state_to_value_def json_wf_object)

lemma defaulted_option [codec]:
  "map_of m k = Some (json_option JString x) \<Longrightarrow> defaulted m k decode_string = Some x"
  by (simp add: defaulted_def codec)

lemma event_from_value_to_value:
  assumes "event_typed e"
  shows "event_from_value (event_to_value e) = Some e"
proof -
  have f: "known_fields event_keys (event_to_value e) = Some (sort_key fst (event_fields e))"
    unfolding event_to_value_def by (intro fields_object) (simp_all add: fields_known)
  have "ev_chain_seq e < u64_bound" "ev_thread_seq e < u64_bound" "ev_schema e < u32_bound"
    using assms by (simp_all add: event_typed_def json_wf_event event_fields_def)
  then show ?thesis
    unfolding event_from_value_def f
    by (simp add: required_object defaulted_object)
       (simp add: required_def defaulted_def event_fields_def codec thread_event.equality)
qed

lemma dec_entry_enc [codec]: "json_wf (enc_entry e) \<Longrightarrow> dec_entry (enc_entry e) = Some e"
  by (simp add: dec_entry_def enc_entry_def codec required_def defaulted_def json_wf_object
      chain_thread_entry.equality)

lemma decode_map_enc_threads:
  "(\<And>k e. (k, e) \<in> set m \<Longrightarrow> json_wf (enc_entry e)) \<Longrightarrow> decode_map dec_entry (enc_threads m) = Some m"
proof (induction m)
  case (Cons x m)
  obtain k e where x: "x = (k, e)" by (cases x)
  have "dec_entry (enc_entry e) = Some e" using Cons.prems x by (intro codec) auto
  moreover have "decode_map dec_entry (enc_threads m) = Some m" using Cons by auto
  ultimately show ?case using x by (simp add: enc_threads_def)
qed (simp add: enc_threads_def)

lemma json_wf_enc_threads:
  "json_wf (enc_threads m) \<longleftrightarrow>
     bt_sorted m \<and> (\<forall>(k, e) \<in> set m. valid_utf8 k \<and> json_wf (enc_entry e))"
  by (auto simp: enc_threads_def json_wf_JObject bt_sorted_def comp_def)

lemma state_from_value_to_value:
  assumes "state_typed s"
  shows "state_from_value (state_to_value s) = Some s"
proof -
  have f: "known_fields state_keys (state_to_value s) = Some (sort_key fst (state_fields s))"
    unfolding state_to_value_def by (intro fields_object) (simp_all add: fields_known)
  have "cs_last_chain_seq s < u64_bound" "cs_schema s < u32_bound" "json_wf (enc_threads (cs_threads s))"
    using assms by (simp_all add: state_typed_def json_wf_state state_fields_def)
  moreover from this(3) have "decode_map dec_entry (enc_threads (cs_threads s)) = Some (cs_threads s)"
    by (intro decode_map_enc_threads) (auto simp: json_wf_enc_threads)
  ultimately show ?thesis
    unfolding state_from_value_def f
    by (simp add: required_object defaulted_object)
       (simp add: required_def defaulted_def state_fields_def codec chain_state.equality)
qed

end
