(* ===== verification/Cas_Store.thy ===== *)
theory Cas_Store
  imports Chain_Objects
begin

text \<open>
  The content-addressed store of \<^verbatim>\<open>crates/kernel/lillux/src/cas.rs\<close> as the chain code uses it:
  \<open>get_object\<close> and the batch write, and the three readers \<open>load_hashed_chain_state\<close>,
  \<open>load_hashed_snapshot\<close>, \<open>load_hashed_event\<close> of \<^verbatim>\<open>chain/validation.rs\<close>. The store maps the hash in
  an entry's name to the entry's bytes; \<open>shard_path\<close> is injective on hashes, so the paths need
  no model of their own. Which system calls fail is the argument \<open>os\<close>.
\<close>

section \<open>The operating system's answers\<close>

text \<open>
  Each call that can fail has a site; sites that occur several times in one operation are
  numbered in the order of the code. A file is published by a rename and a directory sync: a
  fault of the first leaves the old file, a fault of the second the new one. \<open>os_clock\<close> gives
  the readings of the wall clock; the last three fields are what \<open>unique_id\<close> reads.
\<close>

datatype os_site =
    BatchPrepare nat | BatchFlush | BatchPublish nat | BatchSync
  | BatchRoot | CasRoot nat | TargetRoot | HistoryRoot | LockInode nat
  | HeadRead nat | HeadWrite | HeadSync | HeadRemove | HeadRemoveSync
  | PendingRead nat | PendingWrite nat | PendingSync nat | PendingRemove | PendingRemoveSync

record os =
  os_fault :: "os_site \<Rightarrow> bool"
  os_clock :: "nat \<Rightarrow> int"
  os_nanos :: nat
  os_process_id :: nat
  os_sequence :: nat

definition os_call :: "os \<Rightarrow> os_site \<Rightarrow> unit result" where
  "os_call os site = require (\<not> os_fault os site) (Io ''system call'')"

lemma os_call_eq_Inr [result_iff]: "os_call os site = Inr u \<longleftrightarrow> \<not> os_fault os site"
  by (simp add: os_call_def result_iff)

section \<open>Reading\<close>

type_synonym cas = "string btree"

definition read_verified_entry :: "'z lib_env_scheme \<Rightarrow> string \<Rightarrow> string \<Rightarrow> string result" where
  "read_verified_entry E hash bytes =
     (if sha256_hex E bytes \<noteq> hash then Inl (Bail ''CAS corruption'') else Inr bytes)"

definition get_object :: "'z lib_env_scheme \<Rightarrow> cas \<Rightarrow> string \<Rightarrow> json option result" where
  "get_object E cas hash =
     (if \<not> canonical_cas_hash hash then Inr None
      else (case map_of cas hash of
          None \<Rightarrow> Inr None
        | Some bytes \<Rightarrow>
            ebind (read_verified_entry E hash bytes) (\<lambda>data.
            ebind (ok_or (json_from_slice E data) (Decode ''CAS object'')) (\<lambda>v.
            if canonical_json E v \<noteq> data then Inl (Bail ''canonical JSON contract'')
            else Inr (Some v)))))"

definition load_hashed ::
  "'z lib_env_scheme \<Rightarrow> (json \<Rightarrow> 'o result) \<Rightarrow> ('o \<Rightarrow> json) \<Rightarrow> cas \<Rightarrow> string \<Rightarrow> 'o result" where
  "load_hashed E dec enc cas hash =
     ebind (get_object E cas hash) (\<lambda>found.
     ebind (ok_or found (Bail ''authoritative object is absent'')) (\<lambda>v.
     ebind (dec v) (\<lambda>obj.
     if sha256_hex E (canonical_json E (enc obj)) \<noteq> hash
     then Inl (Bail ''authoritative object is not canonically encoded'') else Inr obj)))"

definition state_decode :: "json \<Rightarrow> chain_state result" where
  "state_decode v = ok_or (state_from_value v) (Decode ''ChainState'')"

definition event_decode :: "json \<Rightarrow> thread_event result" where
  "event_decode v = ok_or (event_from_value v) (Decode ''ThreadEvent'')"

definition load_hashed_chain_state :: "'z lib_env_scheme \<Rightarrow> cas \<Rightarrow> string \<Rightarrow> chain_state result" where
  "load_hashed_chain_state E = load_hashed E state_decode state_to_value"

definition load_hashed_snapshot :: "'z lib_env_scheme \<Rightarrow> cas \<Rightarrow> string \<Rightarrow> thread_snapshot result" where
  "load_hashed_snapshot E = load_hashed E (snapshot_from_current_value E) snapshot_to_value"

definition load_hashed_event :: "'z lib_env_scheme \<Rightarrow> cas \<Rightarrow> string \<Rightarrow> thread_event result" where
  "load_hashed_event E = load_hashed E event_decode event_to_value"

section \<open>Writing\<close>

definition verify_batch_entry :: "cas \<Rightarrow> string \<Rightarrow> string \<Rightarrow> unit result" where
  "verify_batch_entry cas hash data =
     (case map_of cas hash of
        None \<Rightarrow> Inl (Bail ''CAS batch entry disappeared'')
      | Some existing \<Rightarrow> require (existing = data) (Bail ''immutable CAS batch entry differs''))"

fun batch_prepare ::
  "os \<Rightarrow> cas \<Rightarrow> nat \<Rightarrow> (string \<times> string) list \<Rightarrow> (string \<times> string) list result" where
  "batch_prepare os cas i [] = Inr []"
| "batch_prepare os cas i ((hash, data) # writes) =
     ebind (os_call os (BatchPrepare i)) (\<lambda>_.
     if map_of cas hash = None
     then ebind (batch_prepare os cas (Suc i) writes) (\<lambda>prepared. Inr ((hash, data) # prepared))
     else ebind (verify_batch_entry cas hash data) (\<lambda>_. batch_prepare os cas (Suc i) writes))"

fun batch_publish ::
  "os \<Rightarrow> nat \<Rightarrow> (string \<times> string) list \<Rightarrow> cas \<Rightarrow> unit result \<times> cas" where
  "batch_publish os i [] cas = (Inr (), cas)"
| "batch_publish os i ((hash, data) # prepared) cas =
     (case os_call os (BatchPublish i) of
        Inl e \<Rightarrow> (Inl e, cas)
      | Inr _ \<Rightarrow>
          if map_of cas hash = None then batch_publish os (Suc i) prepared (bt_insert hash data cas)
          else (case verify_batch_entry cas hash data of
              Inl e \<Rightarrow> (Inl e, cas)
            | Inr _ \<Rightarrow> batch_publish os (Suc i) prepared cas))"

definition atomic_write_batch :: "os \<Rightarrow> cas \<Rightarrow> (string \<times> string) list \<Rightarrow> unit result \<times> cas" where
  "atomic_write_batch os cas writes =
     (case batch_prepare os cas 0 writes of
        Inl e \<Rightarrow> (Inl e, cas)
      | Inr prepared \<Rightarrow>
          if prepared = [] then (Inr (), cas)
          else (case os_call os BatchFlush of
              Inl e \<Rightarrow> (Inl e, cas)
            | Inr _ \<Rightarrow>
                (let (r, cas') = batch_publish os 0 prepared cas
                 in (ebind r (\<lambda>_. os_call os BatchSync), cas'))))"

section \<open>The contract of an immutable store\<close>

locale immutable_store =
  fixes get :: "'s \<Rightarrow> string \<Rightarrow> string option"
    and put_all :: "'p \<Rightarrow> 's \<Rightarrow> (string \<times> string) list \<Rightarrow> unit result \<times> 's"
  assumes keeps: "get s h = Some b \<Longrightarrow> get (snd (put_all p s ws)) h = Some b"
    and adds_only: "get (snd (put_all p s ws)) h = Some b \<Longrightarrow> get s h = Some b \<or> (h, b) \<in> set ws"
    and stores: "put_all p s ws = (Inr (), s') \<Longrightarrow> (h, b) \<in> set ws \<Longrightarrow> get s' h = Some b"
begin

lemma succeeded: "fst (put_all p s ws) = Inr () \<Longrightarrow> (h, b) \<in> set ws \<Longrightarrow> get (snd (put_all p s ws)) h = Some b"
  using stores [of p s ws] by (metis prod.collapse)

lemma no_collision:
  assumes "fst (put_all p s ws) = Inr ()" and "(h, b) \<in> set ws"
  shows "get s h \<in> {None, Some b}" and "(h, c) \<in> set ws \<Longrightarrow> c = b"
proof -
  have b: "get (snd (put_all p s ws)) h = Some b" using succeeded assms by blast
  show "get s h \<in> {None, Some b}"
    using keeps [of s h _ p ws] b by (cases "get s h") auto
  show "c = b" if "(h, c) \<in> set ws" using succeeded [OF assms(1) that] b by simp
qed

lemma submap: "get s \<subseteq>\<^sub>m get (snd (put_all p s ws))"
  using keeps by (auto simp: map_le_def dom_def)

end

lemma verify_batch_entry_eq_Inr [result_iff]:
  "verify_batch_entry cas h b = Inr u \<longleftrightarrow> map_of cas h = Some b"
  by (auto simp: verify_batch_entry_def result_iff split: option.split)

lemma batch_prepare_ok:
  "batch_prepare os cas i ws = Inr prepared \<Longrightarrow>
     set prepared \<subseteq> set ws \<and> (\<forall>(h, b) \<in> set ws. (h, b) \<in> set prepared \<or> map_of cas h = Some b)"
proof (induction os cas i ws arbitrary: prepared rule: batch_prepare.induct)
  case (2 os cas i hash data writes)
  show ?case
  proof (cases "map_of cas hash")
    case None
    with "2.prems" obtain p where "batch_prepare os cas (Suc i) writes = Inr p" "prepared = (hash, data) # p"
      by (auto simp: result_iff)
    with "2.IH"(1) [OF _ None] "2.prems" show ?thesis by (force simp: result_iff)
  next
    case (Some d)
    with "2.prems" have "batch_prepare os cas (Suc i) writes = Inr prepared" "d = data"
      by (auto simp: result_iff)
    with "2.IH"(2) Some "2.prems" show ?thesis by (force simp: result_iff)
  qed
qed simp

lemma batch_publish_keeps:
  "map_of cas h = Some b \<Longrightarrow> map_of (snd (batch_publish os i prepared cas)) h = Some b"
proof (induction os i prepared cas rule: batch_publish.induct)
  case (2 os i hash data prepared cas)
  show ?case
  proof (cases "map_of cas hash")
    case None
    then have "h \<noteq> hash" using "2.prems" by auto
    with 2 None show ?thesis by (auto split: sum.split)
  next
    case (Some d)
    with 2 show ?thesis by (auto split: sum.split)
  qed
qed simp

lemma batch_publish_adds_only:
  "map_of (snd (batch_publish os i prepared cas)) h = Some b \<Longrightarrow>
     map_of cas h = Some b \<or> (h, b) \<in> set prepared"
  by (induction os i prepared cas rule: batch_publish.induct) (auto split: sum.splits if_splits)

lemma batch_publish_stores:
  "batch_publish os i prepared cas = (Inr (), cas') \<Longrightarrow> (h, b) \<in> set prepared \<Longrightarrow> map_of cas' h = Some b"
proof (induction os i prepared cas rule: batch_publish.induct)
  case (2 os i hash data prepared cas)
  obtain c where c: "batch_publish os (Suc i) prepared c = (Inr (), cas')" "map_of c hash = Some data"
    using "2.prems"(1) by (auto simp: result_iff split: sum.splits if_splits)
  show ?case
  proof (cases "(h, b) = (hash, data)")
    case True
    with c batch_publish_keeps [OF c(2), of os "Suc i" prepared] show ?thesis by simp
  next
    case False
    with 2 show ?thesis by (auto split: sum.splits if_splits)
  qed
qed simp

interpretation batch: immutable_store map_of atomic_write_batch
proof
  fix s :: cas and h b p ws
  show "map_of s h = Some b \<Longrightarrow> map_of (snd (atomic_write_batch p s ws)) h = Some b"
    by (auto simp: atomic_write_batch_def case_prod_beta batch_publish_keeps split: sum.split)
  show "map_of (snd (atomic_write_batch p s ws)) h = Some b \<Longrightarrow> map_of s h = Some b \<or> (h, b) \<in> set ws"
    using batch_publish_adds_only [of p 0 _ s h b] batch_prepare_ok [of p s 0 ws]
    by (auto simp: atomic_write_batch_def case_prod_beta split: sum.splits if_splits)
  fix s' assume ok: "atomic_write_batch p s ws = (Inr (), s')" and w: "(h, b) \<in> set ws"
  obtain prepared where prepared: "batch_prepare p s 0 ws = Inr prepared"
    using ok by (auto simp: atomic_write_batch_def split: sum.splits)
  from batch_prepare_ok [OF this] w consider "(h, b) \<in> set prepared" | "map_of s h = Some b" by auto
  then show "map_of s' h = Some b"
  proof cases
    case 1
    with ok prepared have "batch_publish p 0 prepared s = (Inr (), s')"
      by (auto simp: atomic_write_batch_def result_iff case_prod_beta prod_eq_iff split: sum.splits if_splits)
    with 1 show ?thesis using batch_publish_stores by blast
  next
    case 2
    have "s' = s \<or> s' = snd (batch_publish p 0 prepared s)"
      using ok prepared by (auto simp: atomic_write_batch_def case_prod_beta split: sum.splits if_splits)
    with 2 batch_publish_keeps show ?thesis by auto
  qed
qed

section \<open>The contract of a typed object\<close>

definition value_hash :: "'z lib_env_scheme \<Rightarrow> json \<Rightarrow> string" where
  "value_hash E v = sha256_hex E (canonical_json E v)"

lemma hash_objects:
  "hash_event E e = value_hash E (event_to_value e)"
  "hash_snapshot E s = value_hash E (snapshot_to_value s)"
  "hash_chain_state E c = value_hash E (state_to_value c)"
  by (simp_all add: value_hash_def hash_event_def hash_snapshot_def hash_chain_state_def)

lemma get_object_iff:
  "get_object E cas h = Inr (Some v) \<longleftrightarrow>
     canonical_cas_hash h \<and> map_of cas h = Some (canonical_json E v)
     \<and> sha256_hex E (canonical_json E v) = h \<and> json_from_slice E (canonical_json E v) = Some v"
  by (auto simp: get_object_def read_verified_entry_def result_iff split: option.splits if_splits)

text \<open>
  What the readers rely on of a codec: an object that may be stored has a storable encoding,
  decoding the encoding gives the object up to \<open>norm\<close>, and \<open>norm\<close> does not change the encoding.
\<close>

locale hashed_codec =
  fixes E :: "'z lib_env_scheme"
    and enc :: "'o \<Rightarrow> json"
    and dec :: "json \<Rightarrow> 'o result"
    and stored_ok :: "'o \<Rightarrow> bool"
    and norm :: "'o \<Rightarrow> 'o"
  assumes storable: "stored_ok x \<Longrightarrow> json_storable E 127 (enc x)"
    and dec_enc: "stored_ok x \<Longrightarrow> dec (enc x) = Inr (norm x)"
    and enc_norm: "enc (norm x) = enc x"
begin

lemma load_iff:
  "load_hashed E dec enc cas h = Inr x \<longleftrightarrow>
     (\<exists>v. get_object E cas h = Inr (Some v) \<and> dec v = Inr x) \<and> value_hash E (enc x) = h"
  by (auto simp: load_hashed_def result_iff value_hash_def)

lemma load_stored:
  assumes "json_parser E" and "\<And>s. canonical_cas_hash (sha256 E s)"
    and "stored_ok x" and "map_of cas (value_hash E (enc x)) = Some (canonical_json E (enc x))"
  shows "load_hashed E dec enc cas (value_hash E (enc x)) = Inr (norm x)"
proof -
  have "json_from_slice E (canonical_json E (enc x)) = Some (enc x)"
    using assms(1) storable [OF assms(3)] by (simp add: json_parser_def)
  then have "get_object E cas (value_hash E (enc x)) = Inr (Some (enc x))"
    using assms(2,4) by (simp add: get_object_iff value_hash_def sha256_hex_def)
  then show ?thesis
    using dec_enc [OF assms(3)] enc_norm [of x]
    by (auto simp: load_iff value_hash_def)
qed

lemma load_mono:
  assumes "load_hashed E dec enc cas h = Inr x" and "map_of cas \<subseteq>\<^sub>m map_of cas'"
  shows "load_hashed E dec enc cas' h = Inr x"
proof -
  obtain v where v: "get_object E cas h = Inr (Some v)" "dec v = Inr x" "value_hash E (enc x) = h"
    using assms(1) by (auto simp: load_iff)
  then have "get_object E cas' h = Inr (Some v)"
    using assms(2) by (auto simp: get_object_iff map_le_def) (metis domI)
  with v show ?thesis by (auto simp: load_iff)
qed

text \<open>
  Two stores that load different objects under one hash exhibit a collision of the digest.
\<close>

lemma load_collision:
  assumes "load_hashed E dec enc cas h = Inr x" and "load_hashed E dec enc cas' h = Inr y" and "x \<noteq> y"
  shows "\<exists>b b'. b \<noteq> b' \<and> sha256_hex E b = h \<and> sha256_hex E b' = h
    \<and> map_of cas h = Some b \<and> map_of cas' h = Some b'"
proof -
  obtain v w where v: "get_object E cas h = Inr (Some v)" "dec v = Inr x"
    and w: "get_object E cas' h = Inr (Some w)" "dec w = Inr y"
    using assms(1,2) by (auto simp: load_iff)
  then have "v \<noteq> w" using assms(3) by auto
  with v w have "canonical_json E v \<noteq> canonical_json E w" by (auto simp: get_object_iff)
  with v w show ?thesis by (auto simp: get_object_iff)
qed

lemma load_present: "load_hashed E dec enc cas h = Inr x \<Longrightarrow> h \<in> fst ` set cas"
  by (auto simp: load_iff get_object_iff dest: map_of_SomeD intro: rev_image_eqI)

end

section \<open>The objects of the chain meet it\<close>

definition storable_event :: "'z lib_env_scheme \<Rightarrow> thread_event \<Rightarrow> bool" where
  "storable_event E e \<longleftrightarrow> json_storable E 127 (event_to_value e) \<and> ev_schema e < u32_bound"

definition storable_state :: "'z lib_env_scheme \<Rightarrow> chain_state \<Rightarrow> bool" where
  "storable_state E s \<longleftrightarrow> json_storable E 127 (state_to_value s) \<and> cs_schema s < u32_bound"

definition storable_snapshot :: "'z lib_env_scheme \<Rightarrow> thread_snapshot \<Rightarrow> bool" where
  "storable_snapshot E s \<longleftrightarrow>
     json_storable E 127 (snapshot_to_value s) \<and> (\<forall>u. snap_budget s = Some u \<longrightarrow> usage_typed u)
     \<and> validate_snapshot E s = Inr ()"

lemma snapshot_to_value_norm: "snapshot_to_value (snap_norm s) = snapshot_to_value s"
  by (simp add: snapshot_to_value_def snapshot_fields_def snap_norm_def absent_null_def json_option_def)

lemma snap_norm_simps [simp]:
  "snap_schema (snap_norm s) = snap_schema s" "snap_kind (snap_norm s) = snap_kind s"
  "snap_thread_id (snap_norm s) = snap_thread_id s"
  "snap_chain_root_id (snap_norm s) = snap_chain_root_id s" "snap_status (snap_norm s) = snap_status s"
  "snap_kind_name (snap_norm s) = snap_kind_name s" "snap_item_ref (snap_norm s) = snap_item_ref s"
  "snap_executor_ref (snap_norm s) = snap_executor_ref s"
  "snap_launch_mode (snap_norm s) = snap_launch_mode s"
  "snap_current_site_id (snap_norm s) = snap_current_site_id s"
  "snap_origin_site_id (snap_norm s) = snap_origin_site_id s"
  "snap_upstream_thread_id (snap_norm s) = snap_upstream_thread_id s"
  "snap_requested_by (snap_norm s) = snap_requested_by s"
  "snap_project_root (snap_norm s) = snap_project_root s"
  "snap_project_authority (snap_norm s) = snap_project_authority s"
  "snap_admitted_launch_capsule_hash (snap_norm s) = snap_admitted_launch_capsule_hash s"
  "snap_captured_history_policy (snap_norm s) = snap_captured_history_policy s"
  "snap_base_project_snapshot_hash (snap_norm s) = snap_base_project_snapshot_hash s"
  "snap_result_project_snapshot_hash (snap_norm s) = snap_result_project_snapshot_hash s"
  "snap_created_at (snap_norm s) = snap_created_at s" "snap_updated_at (snap_norm s) = snap_updated_at s"
  "snap_started_at (snap_norm s) = snap_started_at s" "snap_finished_at (snap_norm s) = snap_finished_at s"
  "snap_budget (snap_norm s) = snap_budget s"
  "snap_last_event_hash (snap_norm s) = snap_last_event_hash s"
  "snap_last_chain_seq (snap_norm s) = snap_last_chain_seq s"
  "snap_last_thread_seq (snap_norm s) = snap_last_thread_seq s"
  by (simp_all add: snap_norm_def)

lemma validate_snapshot_norm: "validate_snapshot E (snap_norm s) = validate_snapshot E s"
  by (simp only: validate_snapshot_def validate_snapshot_history_def validate_snapshot_times_def snap_norm_simps)

lemma snapshot_from_current_value_enc:
  assumes "storable_snapshot E s"
  shows "snapshot_from_current_value E (snapshot_to_value s) = Inr (snap_norm s)"
proof -
  have v: "validate_snapshot E s = Inr ()" using assms by (simp add: storable_snapshot_def)
  then have k: "snap_kind s = ''thread_snapshot''" "snap_schema s = 6"
    "\<And>u. snap_budget s = Some u \<Longrightarrow> f64_is_finite (spend_usd u)"
    by (auto simp: validate_snapshot_def result_iff validate_object_kind_def validate_usage_def)
  then have "snapshot_typed s"
    using assms by (simp add: storable_snapshot_def snapshot_typed_def json_storable_def)
  from snapshot_from_value_to_value [OF this]
  have d: "snapshot_from_value (JObject (sort_key fst (snapshot_fields s))) = Some (snap_norm s)"
    by (simp add: snapshot_to_value_def json_object_def)
  have "required (sort_key fst (snapshot_fields s)) ''kind'' decode_string = Some ''thread_snapshot''"
    "required (sort_key fst (snapshot_fields s)) ''schema'' decode_u64 = Some 6"
    using k by (simp_all add: required_object) (simp_all add: required_def snapshot_fields_def codec)
  with d v show ?thesis
    by (simp add: snapshot_from_current_value_def snapshot_to_value_def json_object_def validate_snapshot_norm)
qed

interpretation event_codec: hashed_codec E event_to_value event_decode "storable_event E" "\<lambda>e. e"
  for E :: "'z lib_env_scheme"
  by unfold_locales
    (auto simp: storable_event_def event_decode_def event_from_value_to_value event_typed_def json_storable_def)

interpretation state_codec: hashed_codec E state_to_value state_decode "storable_state E" "\<lambda>s. s"
  for E :: "'z lib_env_scheme"
  by unfold_locales
    (auto simp: storable_state_def state_decode_def state_from_value_to_value state_typed_def json_storable_def)

interpretation snapshot_codec: hashed_codec E snapshot_to_value "snapshot_from_current_value E"
    "storable_snapshot E" snap_norm
  for E :: "'z lib_env_scheme"
  by unfold_locales
    (auto simp: snapshot_from_current_value_enc snapshot_to_value_norm storable_snapshot_def)

end
