(* ===== verification/Chain_Validation.thy ===== *)
theory Chain_Validation
  imports Cas_Store
begin

text \<open>
  The validator of authoritative history and the normalizers of prospective objects,
  \<^verbatim>\<open>chain/validation.rs\<close>. A chain's history is valid when the signed chain state has a closed
  event history (the closure), and every earlier chain state is reached by a legal transition
  from a legal genesis. The callback \<open>check\<close>, which lets a caller interrupt the validator, is
  the one of \<open>validate_authoritative_history_with_cas\<close> and always succeeds.
\<close>

section \<open>Positions\<close>

record thread_event_cursor =
  next_hash :: "string option"
  next_sequence :: nat

record event_position =
  pos_thread_id :: string
  pos_chain_sequence :: nat
  pos_thread_sequence :: nat
  pos_timestamp :: string
  pos_prev_chain_hash :: "string option"
  pos_prev_thread_hash :: "string option"

record snapshot_event_position =
  sep_thread_id :: string
  sep_event_hash :: string
  sep_chain_sequence :: nat
  sep_thread_sequence :: nat

definition expect :: "'a option \<Rightarrow> string \<Rightarrow> 'a result" where
  "expect x msg = ok_or x (Panic msg)"

definition validate_predecessor_link :: "nat \<Rightarrow> string option \<Rightarrow> unit result" where
  "validate_predecessor_link sequence predecessor =
     (if sequence = 0 then Inl (Bail ''has sequence zero'')
      else if sequence = 1 then
        (case predecessor of None \<Rightarrow> Inr () | Some _ \<Rightarrow> Inl (Bail ''sequence one has a predecessor''))
      else
        (case predecessor of None \<Rightarrow> Inl (Bail ''is missing its predecessor'') | Some _ \<Rightarrow> Inr ()))"

definition validate_hash_sequence_pair :: "nat \<Rightarrow> string option \<Rightarrow> unit result" where
  "validate_hash_sequence_pair sequence last_event_hash =
     (case last_event_hash of
        None \<Rightarrow> (if sequence = 0 then Inr () else Inl (Bail ''is missing its event hash''))
      | Some _ \<Rightarrow> (if sequence = 0 then Inl (Bail ''has an event hash at sequence zero'') else Inr ()))"

definition validate_chain_positions :: "'z lib_env_scheme \<Rightarrow> chain_state \<Rightarrow> unit result" where
  "validate_chain_positions E state =
     ebind (validate_hash_sequence_pair (cs_last_chain_seq state) (cs_last_event_hash state)) (\<lambda>_.
     ebind (parse_canonical_timestamp E (cs_updated_at state)) (\<lambda>_.
     for_each (\<lambda>(thread_id, entry).
         ebind (validate_hash_sequence_pair (entry_last_thread_seq entry) (entry_last_event_hash entry)) (\<lambda>_.
         require (\<not> entry_last_thread_seq entry > cs_last_chain_seq state)
           (Bail ''thread sequence exceeds chain sequence''))) (cs_threads state)))"

definition validate_stored_snapshot ::
  "'z lib_env_scheme \<Rightarrow> chain_state \<Rightarrow> string \<Rightarrow> chain_thread_entry \<Rightarrow> thread_snapshot \<Rightarrow> unit result" where
  "validate_stored_snapshot E state thread_id entry snapshot =
     ebind (validate_snapshot E snapshot) (\<lambda>_.
     ebind (require (snap_thread_id snapshot = thread_id) (Bail ''snapshot thread_id mismatch'')) (\<lambda>_.
     ebind (require (snap_chain_root_id snapshot = cs_chain_root_id state)
       (Bail ''snapshot chain_root_id mismatch'')) (\<lambda>_.
     ebind (require (snap_status snapshot = entry_status entry) (Bail ''snapshot status mismatch'')) (\<lambda>_.
     ebind (require (\<not> snap_last_chain_seq snapshot > cs_last_chain_seq state)
       (Bail ''snapshot chain sequence exceeds authoritative chain sequence'')) (\<lambda>_.
     ebind (require (\<not> snap_last_thread_seq snapshot > entry_last_thread_seq entry)
       (Bail ''snapshot thread sequence exceeds authoritative thread sequence'')) (\<lambda>_.
     ebind (require (\<not> snap_last_thread_seq snapshot > snap_last_chain_seq snapshot)
       (Bail ''snapshot thread sequence exceeds its chain sequence'')) (\<lambda>_.
     ebind (validate_hash_sequence_pair (snap_last_thread_seq snapshot) (snap_last_event_hash snapshot)) (\<lambda>_.
     require (\<not> (snap_last_thread_seq snapshot = entry_last_thread_seq entry
         \<and> snap_last_event_hash snapshot \<noteq> entry_last_event_hash entry))
       (Bail ''snapshot last_event_hash disagrees with the authoritative thread entry'')))))))))"

definition validate_snapshot_last_event ::
  "'z lib_env_scheme \<Rightarrow> thread_snapshot \<Rightarrow> string \<Rightarrow> thread_event \<Rightarrow> unit result" where
  "validate_snapshot_last_event E snapshot event_hash event =
     ebind (validate_event E event) (\<lambda>_.
     ebind (parse_canonical_timestamp E (ev_ts event)) (\<lambda>_.
     ebind (require (snap_last_event_hash snapshot = Some event_hash)
       (Bail ''snapshot does not name the event supplied as its last event'')) (\<lambda>_.
     ebind (require (ev_chain_root_id event = snap_chain_root_id snapshot
         \<and> ev_thread_id event = snap_thread_id snapshot)
       (Bail ''snapshot last event belongs to a different chain or thread'')) (\<lambda>_.
     ebind (require (ev_thread_seq event = snap_last_thread_seq snapshot)
       (Bail ''snapshot thread sequence disagrees with last event sequence'')) (\<lambda>_.
     require (\<not> ev_chain_seq event > snap_last_chain_seq snapshot)
       (Bail ''snapshot last event chain sequence exceeds snapshot chain sequence''))))))"

section \<open>The closure of one chain state\<close>

fun closure_threads ::
  "'z lib_env_scheme \<Rightarrow> cas \<Rightarrow> chain_state \<Rightarrow> int \<Rightarrow> (string \<times> chain_thread_entry) list
    \<Rightarrow> thread_event_cursor btree \<Rightarrow> snapshot_event_position list
    \<Rightarrow> (thread_event_cursor btree \<times> snapshot_event_position list) result" where
  "closure_threads E cas state state_updated_at [] cursors positions = Inr (cursors, positions)"
| "closure_threads E cas state state_updated_at ((thread_id, entry) # entries) cursors positions =
     ebind (load_hashed_snapshot E cas (entry_snapshot_hash entry)) (\<lambda>snapshot.
     ebind (validate_stored_snapshot E state thread_id entry snapshot) (\<lambda>_.
     ebind (parse_canonical_timestamp E (snap_updated_at snapshot)) (\<lambda>snapshot_updated_at.
     ebind (require (\<not> snapshot_updated_at > state_updated_at)
       (Bail ''snapshot updated_at exceeds authoritative chain updated_at'')) (\<lambda>_.
     closure_threads E cas state state_updated_at entries
       (bt_insert thread_id \<lparr> next_hash = entry_last_event_hash entry,
                              next_sequence = entry_last_thread_seq entry \<rparr> cursors)
       (case snap_last_event_hash snapshot of
          None \<Rightarrow> positions
        | Some h \<Rightarrow> positions @ [\<lparr> sep_thread_id = thread_id, sep_event_hash = h,
            sep_chain_sequence = snap_last_chain_seq snapshot,
            sep_thread_sequence = snap_last_thread_seq snapshot \<rparr>])))))"

definition position_of :: "thread_event \<Rightarrow> event_position" where
  "position_of e = \<lparr> pos_thread_id = ev_thread_id e, pos_chain_sequence = ev_chain_seq e,
     pos_thread_sequence = ev_thread_seq e, pos_timestamp = ev_ts e,
     pos_prev_chain_hash = ev_prev_chain_event_hash e, pos_prev_thread_hash = ev_prev_thread_event_hash e \<rparr>"

fun walk_events ::
  "'z lib_env_scheme \<Rightarrow> cas \<Rightarrow> string \<Rightarrow> nat \<Rightarrow> string option \<Rightarrow> int \<Rightarrow> string list
    \<Rightarrow> thread_event_cursor btree \<Rightarrow> event_position btree
    \<Rightarrow> (string option \<times> thread_event_cursor btree \<times> event_position btree) result" where
  "walk_events E cas root 0 current newer visited cursors events = Inr (current, cursors, events)"
| "walk_events E cas root (Suc n) current newer visited cursors events =
     ebind (ok_or current (Bail ''chain event history ended'')) (\<lambda>event_hash.
     ebind (require (event_hash \<notin> set visited) (Bail ''cycle in chain event history'')) (\<lambda>_.
     ebind (load_hashed_event E cas event_hash) (\<lambda>event.
     ebind (validate_event E event) (\<lambda>_.
     ebind (require (ev_chain_root_id event = root) (Bail ''event belongs to another chain'')) (\<lambda>_.
     ebind (require (ev_chain_seq event = Suc n) (Bail ''event chain sequence mismatch'')) (\<lambda>_.
     ebind (parse_canonical_timestamp E (ev_ts event)) (\<lambda>event_timestamp.
     ebind (require (\<not> event_timestamp > newer)
       (Bail ''event timestamp exceeds the next authoritative chain timestamp'')) (\<lambda>_.
     ebind (ok_or (map_of cursors (ev_thread_id event))
       (Bail ''event names a thread absent from the authoritative head'')) (\<lambda>cursor.
     ebind (require (next_hash cursor = Some event_hash) (Bail ''thread event link mismatch'')) (\<lambda>_.
     ebind (require (ev_thread_seq event = next_sequence cursor)
       (Bail ''event thread sequence mismatch'')) (\<lambda>_.
     ebind (validate_predecessor_link (ev_chain_seq event) (ev_prev_chain_event_hash event)) (\<lambda>_.
     ebind (validate_predecessor_link (ev_thread_seq event) (ev_prev_thread_event_hash event)) (\<lambda>_.
     walk_events E cas root n (ev_prev_chain_event_hash event) event_timestamp (event_hash # visited)
       (bt_modify (ev_thread_id event)
          (\<lambda>c. \<lparr> next_hash = ev_prev_thread_event_hash event, next_sequence = next_sequence c - 1 \<rparr>) cursors)
       (bt_insert event_hash (position_of event) events))))))))))))))"

definition validate_authoritative_closure ::
  "'z lib_env_scheme \<Rightarrow> cas \<Rightarrow> chain_state \<Rightarrow> event_position btree result" where
  "validate_authoritative_closure E cas state =
     ebind (validate_state E state) (\<lambda>_.
     ebind (validate_chain_positions E state) (\<lambda>_.
     ebind (parse_canonical_timestamp E (cs_updated_at state)) (\<lambda>state_updated_at.
     ebind (closure_threads E cas state state_updated_at (cs_threads state) [] []) (\<lambda>(cursors, positions).
     ebind (walk_events E cas (cs_chain_root_id state) (cs_last_chain_seq state)
         (cs_last_event_hash state) state_updated_at [] cursors []) (\<lambda>(current, cursors, events).
     ebind (require (current = None) (Bail ''chain event history continues before sequence one'')) (\<lambda>_.
     ebind (for_each (\<lambda>(thread_id, cursor).
         require (\<not> (next_sequence cursor \<noteq> 0 \<or> next_hash cursor \<noteq> None))
           (Bail ''thread event history is not fully represented by the chain event history''))
         cursors) (\<lambda>_.
     ebind (for_each (\<lambda>snapshot.
         ebind (ok_or (map_of events (sep_event_hash snapshot))
           (Bail ''snapshot references an event outside the authoritative chain history'')) (\<lambda>event.
         require (\<not> (pos_thread_id event \<noteq> sep_thread_id snapshot
             \<or> pos_thread_sequence event \<noteq> sep_thread_sequence snapshot
             \<or> pos_chain_sequence event > sep_chain_sequence snapshot))
           (Bail ''snapshot event position mismatch''))) positions) (\<lambda>_.
     Inr events))))))))"

section \<open>Legal transitions\<close>

definition validate_new_thread_project_snapshots ::
  "thread_snapshot \<Rightarrow> string option \<Rightarrow> unit result" where
  "validate_new_thread_project_snapshots snapshot continuation_source =
     ebind (require (snap_result_project_snapshot_hash snapshot = None)
       (Bail ''new created snapshot cannot carry a result project snapshot hash'')) (\<lambda>_.
     if snap_base_project_snapshot_hash snapshot \<noteq> None
     then if_some (\<lambda>source. require (snap_upstream_thread_id snapshot = Some source)
            (Bail ''continuation successor upstream does not match continuation source'')) continuation_source
     else Inr ())"

definition validate_new_thread_snapshot :: "thread_snapshot \<Rightarrow> string option \<Rightarrow> unit result" where
  "validate_new_thread_snapshot snapshot continuation_source =
     ebind (require (snap_status snapshot = Created)
       (Bail ''new authoritative thread must begin in created status'')) (\<lambda>_.
     validate_new_thread_project_snapshots snapshot continuation_source)"

definition validate_snapshot_event_position ::
  "thread_snapshot \<Rightarrow> event_position btree \<Rightarrow> unit result" where
  "validate_snapshot_event_position snapshot events =
     if_some (\<lambda>hash.
       ebind (ok_or (map_of events hash) (Bail ''snapshot references event outside chain history'')) (\<lambda>event.
       require (\<not> (pos_thread_id event \<noteq> snap_thread_id snapshot
           \<or> pos_thread_sequence event \<noteq> snap_last_thread_seq snapshot
           \<or> pos_chain_sequence event > snap_last_chain_seq snapshot))
         (Bail ''snapshot event identity or position mismatch''))) (snap_last_event_hash snapshot)"

definition validate_entry_event_position ::
  "chain_state \<Rightarrow> string \<Rightarrow> chain_thread_entry \<Rightarrow> event_position btree \<Rightarrow> unit result" where
  "validate_entry_event_position state thread_id entry events =
     if_some (\<lambda>hash.
       ebind (ok_or (map_of events hash) (Bail ''entry references event outside chain history'')) (\<lambda>event.
       require (\<not> (pos_thread_id event \<noteq> thread_id
           \<or> pos_thread_sequence event \<noteq> entry_last_thread_seq entry
           \<or> pos_chain_sequence event > cs_last_chain_seq state))
         (Bail ''entry event position mismatch''))) (entry_last_event_hash entry)"

definition validate_published_snapshot ::
  "'z lib_env_scheme \<Rightarrow> chain_state \<Rightarrow> string \<Rightarrow> chain_thread_entry \<Rightarrow> thread_snapshot
    \<Rightarrow> event_position btree \<Rightarrow> unit result" where
  "validate_published_snapshot E state thread_id entry snapshot events =
     ebind (validate_stored_snapshot E state thread_id entry snapshot) (\<lambda>_.
     ebind (require (\<not> (snap_last_chain_seq snapshot \<noteq> cs_last_chain_seq state
         \<or> snap_last_thread_seq snapshot \<noteq> entry_last_thread_seq entry
         \<or> snap_last_event_hash snapshot \<noteq> entry_last_event_hash entry))
       (Bail ''new snapshot does not carry its exact publication position'')) (\<lambda>_.
     ebind (parse_canonical_timestamp E (snap_updated_at snapshot)) (\<lambda>snapshot_time.
     ebind (parse_canonical_timestamp E (cs_updated_at state)) (\<lambda>state_time.
     ebind (require (\<not> snapshot_time > state_time)
       (Bail ''snapshot exceeds its publishing ChainState time'')) (\<lambda>_.
     validate_snapshot_event_position snapshot events)))))"

definition validate_status_transition :: "thread_status \<Rightarrow> thread_status \<Rightarrow> unit result" where
  "validate_status_transition previous new =
     (let valid = (case previous of
          Created \<Rightarrow> new = Running \<or> is_terminal new
        | Running \<Rightarrow> is_terminal new
        | status \<Rightarrow> False)
      in require valid (Bail ''illegal thread status transition''))"

text \<open>The derived equalities on values that hold paths.\<close>

fun node_policy_eq :: "node_history_policy_provenance \<Rightarrow> node_history_policy_provenance \<Rightarrow> bool" where
  "node_policy_eq MissingConfig MissingConfig \<longleftrightarrow> True"
| "node_policy_eq (SignedConfig p s c f) (SignedConfig p' s' c' f') \<longleftrightarrow>
     path_eq p p' \<and> s = s' \<and> c = c' \<and> f = f'"
| "node_policy_eq _ _ \<longleftrightarrow> False"

fun provenance_eq :: "captured_policy_provenance \<Rightarrow> captured_policy_provenance \<Rightarrow> bool" where
  "provenance_eq (NodeDefault n) (NodeDefault n') \<longleftrightarrow> node_policy_eq n n'"
| "provenance_eq (ItemAuthored p r t c n) (ItemAuthored p' r' t' c' n') \<longleftrightarrow>
     p = p' \<and> r = r' \<and> t = t' \<and> c = c' \<and> node_policy_eq n n'"
| "provenance_eq _ _ \<longleftrightarrow> False"

definition policy_eq :: "captured_thread_history_policy \<Rightarrow> captured_thread_history_policy \<Rightarrow> bool" where
  "policy_eq p q \<longleftrightarrow>
     retention p = retention q \<and> canonical_item_ref p = canonical_item_ref q
     \<and> item_content_hash p = item_content_hash q \<and> item_signer_fingerprint p = item_signer_fingerprint q
     \<and> item_trust_class p = item_trust_class q \<and> kind_schema_content_hash p = kind_schema_content_hash q
     \<and> provenance_eq (resolved_from p) (resolved_from q)"

fun policy_option_eq ::
  "captured_thread_history_policy option \<Rightarrow> captured_thread_history_policy option \<Rightarrow> bool" where
  "policy_option_eq None None \<longleftrightarrow> True"
| "policy_option_eq (Some p) (Some q) \<longleftrightarrow> policy_eq p q"
| "policy_option_eq _ _ \<longleftrightarrow> False"

fun authority_eq :: "execution_project_authority \<Rightarrow> execution_project_authority \<Rightarrow> bool" where
  "authority_eq (Projectless e) (Projectless e') \<longleftrightarrow> e = e'"
| "authority_eq (LiveProject a i r l e c p) (LiveProject a' i' r' l' e' c' p') \<longleftrightarrow>
     a = a' \<and> i = i' \<and> path_eq r r' \<and> l = l' \<and> e = e' \<and> c = c' \<and> p = p'"
| "authority_eq (PinnedGeneration i d h re e c p) (PinnedGeneration i' d' h' re' e' c' p') \<longleftrightarrow>
     i = i' \<and> path_option_eq d d' \<and> h = h' \<and> re = re' \<and> e = e' \<and> c = c' \<and> p = p'"
| "authority_eq _ _ \<longleftrightarrow> False"

definition validate_snapshot_transition_identity ::
  "thread_snapshot \<Rightarrow> thread_snapshot \<Rightarrow> unit result" where
  "validate_snapshot_transition_identity previous new =
     ebind (require (snap_schema previous = snap_schema new) (Bail ''immutable field schema'')) (\<lambda>_.
     ebind (require (snap_kind previous = snap_kind new) (Bail ''immutable field kind'')) (\<lambda>_.
     ebind (require (snap_thread_id previous = snap_thread_id new) (Bail ''immutable field thread_id'')) (\<lambda>_.
     ebind (require (snap_chain_root_id previous = snap_chain_root_id new)
       (Bail ''immutable field chain_root_id'')) (\<lambda>_.
     ebind (require (snap_kind_name previous = snap_kind_name new) (Bail ''immutable field kind_name'')) (\<lambda>_.
     ebind (require (snap_item_ref previous = snap_item_ref new) (Bail ''immutable field item_ref'')) (\<lambda>_.
     ebind (require (snap_executor_ref previous = snap_executor_ref new)
       (Bail ''immutable field executor_ref'')) (\<lambda>_.
     ebind (require (snap_launch_mode previous = snap_launch_mode new)
       (Bail ''immutable field launch_mode'')) (\<lambda>_.
     ebind (require (snap_origin_site_id previous = snap_origin_site_id new)
       (Bail ''immutable field origin_site_id'')) (\<lambda>_.
     ebind (require (snap_upstream_thread_id previous = snap_upstream_thread_id new)
       (Bail ''immutable field upstream_thread_id'')) (\<lambda>_.
     ebind (require (snap_requested_by previous = snap_requested_by new)
       (Bail ''immutable field requested_by'')) (\<lambda>_.
     ebind (require (path_option_eq (snap_project_root previous) (snap_project_root new))
       (Bail ''immutable field project_root'')) (\<lambda>_.
     ebind (require (authority_eq (snap_project_authority previous) (snap_project_authority new))
       (Bail ''immutable field project_authority'')) (\<lambda>_.
     ebind (require (policy_option_eq (snap_captured_history_policy previous) (snap_captured_history_policy new))
       (Bail ''immutable field captured_history_policy'')) (\<lambda>_.
     ebind (require (snap_created_at previous = snap_created_at new)
       (Bail ''immutable field created_at'')) (\<lambda>_.
     ebind (validate_status_transition (snap_status previous) (snap_status new)) (\<lambda>_.
     ebind (require (snap_base_project_snapshot_hash previous = snap_base_project_snapshot_hash new)
       (Bail ''base_project_snapshot_hash is immutable'')) (\<lambda>_.
     ebind (require (snap_result_project_snapshot_hash previous = snap_result_project_snapshot_hash new
         \<or> snap_result_project_snapshot_hash previous = None
           \<and> snap_result_project_snapshot_hash new \<noteq> None \<and> is_terminal (snap_status new))
       (Bail ''result_project_snapshot_hash may only be established by a terminal transition'')) (\<lambda>_.
     require (\<not> (snap_started_at previous \<noteq> None \<and> snap_started_at previous \<noteq> snap_started_at new))
       (Bail ''cannot change or clear started_at once established'')))))))))))))))))))"

definition validate_historical_snapshot_transition ::
  "'z lib_env_scheme \<Rightarrow> thread_snapshot \<Rightarrow> thread_snapshot \<Rightarrow> string option \<Rightarrow> unit result" where
  "validate_historical_snapshot_transition E previous new appended_through =
     ebind (require (appended_through \<noteq> None)
       (Bail ''existing thread snapshot changed without an event append'')) (\<lambda>_.
     ebind (validate_snapshot_transition_identity previous new) (\<lambda>_.
     ebind (validate_snapshot E new) (\<lambda>_.
     ebind (parse_canonical_timestamp E (snap_updated_at previous)) (\<lambda>previous_updated_at.
     ebind (parse_canonical_timestamp E (snap_updated_at new)) (\<lambda>new_updated_at.
     ebind (require (\<not> new_updated_at < previous_updated_at) (Bail ''snapshot updated_at moved backwards'')) (\<lambda>_.
     ebind (if snap_started_at previous = None
       then ebind (map_transpose (parse_canonical_timestamp E) (snap_started_at new)) (\<lambda>started.
            require (\<not> (case started of None \<Rightarrow> False | Some t \<Rightarrow> t < previous_updated_at))
              (Bail ''new snapshot started_at precedes its predecessor update''))
       else Inr ()) (\<lambda>_.
     ebind (expect appended_through ''snapshot changes require an appended event timestamp'') (\<lambda>through.
     ebind (parse_canonical_timestamp E through) (\<lambda>appended.
     ebind (require (\<not> new_updated_at < appended)
       (Bail ''snapshot updated_at precedes its publishing event append'')) (\<lambda>_.
     ebind (map_transpose (parse_canonical_timestamp E) (snap_finished_at new)) (\<lambda>finished.
     require (\<not> (case finished of None \<Rightarrow> False | Some t \<Rightarrow> t < previous_updated_at \<or> t < appended))
       (Bail ''snapshot finished_at precedes its predecessor or publishing append''))))))))))))"

datatype event_history = ChainHistory | ThreadHistory string

fun event_advance_loop ::
  "event_position btree \<Rightarrow> event_history \<Rightarrow> nat \<Rightarrow> nat \<Rightarrow> string option \<Rightarrow> string option \<Rightarrow> string option
    \<Rightarrow> (string option \<times> string option \<times> string option) result" where
  "event_advance_loop events history previous_sequence 0 hash oldest newest = Inr (hash, oldest, newest)"
| "event_advance_loop events history previous_sequence (Suc n) hash oldest newest =
     ebind (ok_or hash (Bail ''event history ended'')) (\<lambda>current_hash.
     ebind (ok_or (map_of events current_hash)
       (Bail ''event is outside the authoritative chain history'')) (\<lambda>event.
     ebind (case history of
         ChainHistory \<Rightarrow> Inr (pos_chain_sequence event, pos_prev_chain_hash event)
       | ThreadHistory thread_id \<Rightarrow>
           ebind (require (pos_thread_id event = thread_id) (Bail ''thread history crosses into another thread'')) (\<lambda>_.
           Inr (pos_thread_sequence event, pos_prev_thread_hash event))) (\<lambda>(actual_sequence, predecessor).
     ebind (require (actual_sequence = previous_sequence + Suc n) (Bail ''event sequence mismatch'')) (\<lambda>_.
     event_advance_loop events history previous_sequence n predecessor (Some (pos_timestamp event))
       (if newest = None then Some (pos_timestamp event) else newest)))))"

definition validate_event_advance ::
  "event_position btree \<Rightarrow> event_history \<Rightarrow> string option \<Rightarrow> nat \<Rightarrow> string option \<Rightarrow> nat
    \<Rightarrow> (string \<times> string) option result" where
  "validate_event_advance events history previous_hash previous_sequence new_hash new_sequence =
     (if new_sequence < previous_sequence then Inl (Bail ''event sequence moved backwards'')
      else if new_sequence = previous_sequence then
        (if new_hash \<noteq> previous_hash then Inl (Bail ''event hash changed without advancing its sequence'')
         else Inr None)
      else
        ebind (event_advance_loop events history previous_sequence (new_sequence - previous_sequence)
            new_hash None None) (\<lambda>(hash, oldest, newest).
        ebind (require (hash = previous_hash)
          (Bail ''event advance does not join the predecessor history'')) (\<lambda>_.
        ebind (expect oldest ''a positive sequence advance visits an event'') (\<lambda>oldest.
        ebind (expect newest ''a positive sequence advance visits an event'') (\<lambda>newest.
        Inr (Some (oldest, newest)))))))"

definition validate_genesis_state ::
  "'z lib_env_scheme \<Rightarrow> cas \<Rightarrow> chain_state \<Rightarrow> event_position btree \<Rightarrow> unit result" where
  "validate_genesis_state E cas state events =
     ebind (require (cs_prev_chain_state_hash state = None) (Bail ''genesis ChainState has a predecessor'')) (\<lambda>_.
     ebind (require (length (cs_threads state) = 1)
       (Bail ''genesis ChainState must contain only its root thread'')) (\<lambda>_.
     ebind (expect (map_of (cs_threads state) (cs_chain_root_id state))
       ''ChainState::validate requires its root entry'') (\<lambda>entry.
     ebind (load_hashed_snapshot E cas (entry_snapshot_hash entry)) (\<lambda>snapshot.
     ebind (validate_published_snapshot E state (cs_chain_root_id state) entry snapshot events) (\<lambda>_.
     ebind (validate_new_thread_snapshot snapshot None) (\<lambda>_.
     if cs_last_chain_seq state = 0 then
       require (cs_last_event_hash state = None) (Bail ''zero-event genesis ChainState carries an event hash'')
     else
       ebind (require (\<not> (entry_last_thread_seq entry \<noteq> cs_last_chain_seq state
           \<or> entry_last_event_hash entry \<noteq> cs_last_event_hash state))
         (Bail ''historical event-bearing genesis must contain one root-only event history'')) (\<lambda>_.
       ebind (expect (cs_last_event_hash state) ''positive chain sequence requires an event hash'') (\<lambda>last_hash.
       ebind (expect (map_of events last_hash)
         ''authoritative closure validation loaded the final event'') (\<lambda>last_event.
       ebind (require (\<not> (pos_thread_id last_event \<noteq> cs_chain_root_id state
           \<or> pos_thread_sequence last_event \<noteq> cs_last_chain_seq state))
         (Bail ''historical event-bearing genesis must contain only contiguous root events'')) (\<lambda>_.
       ebind (parse_canonical_timestamp E (snap_updated_at snapshot)) (\<lambda>snapshot_time.
       ebind (parse_canonical_timestamp E (pos_timestamp last_event)) (\<lambda>event_time.
       require (\<not> snapshot_time < event_time)
         (Bail ''historical genesis snapshot predates its final initial event'')))))))))))))"

definition validate_entry_transition ::
  "'z lib_env_scheme \<Rightarrow> cas \<Rightarrow> chain_state \<Rightarrow> chain_state \<Rightarrow> event_position btree
    \<Rightarrow> (string \<times> string) option \<Rightarrow> string \<Rightarrow> chain_thread_entry \<Rightarrow> unit result" where
  "validate_entry_transition E cas previous new events appended_times thread_id new_entry =
     ebind (validate_entry_event_position new thread_id new_entry events) (\<lambda>_.
     case map_of (cs_threads previous) thread_id of
       None \<Rightarrow>
         ebind (validate_event_advance events (ThreadHistory thread_id) None 0
           (entry_last_event_hash new_entry) (entry_last_thread_seq new_entry)) (\<lambda>_.
         ebind (load_hashed_snapshot E cas (entry_snapshot_hash new_entry)) (\<lambda>snapshot.
         ebind (validate_published_snapshot E new thread_id new_entry snapshot events) (\<lambda>_.
         let continuation_source =
           (case (snap_base_project_snapshot_hash snapshot, snap_upstream_thread_id snapshot) of
              (Some _, Some source) \<Rightarrow>
                (if map_of (cs_threads previous) source \<noteq> None then Some source else None)
            | _ \<Rightarrow> None)
         in validate_new_thread_snapshot snapshot continuation_source)))
     | Some previous_entry \<Rightarrow>
         ebind (validate_event_advance events (ThreadHistory thread_id)
           (entry_last_event_hash previous_entry) (entry_last_thread_seq previous_entry)
           (entry_last_event_hash new_entry) (entry_last_thread_seq new_entry)) (\<lambda>_.
         if entry_snapshot_hash previous_entry = entry_snapshot_hash new_entry then
           require (entry_status previous_entry = entry_status new_entry)
             (Bail ''thread changed status without publishing a new snapshot'')
         else
           ebind (load_hashed_snapshot E cas (entry_snapshot_hash previous_entry)) (\<lambda>previous_snapshot.
           ebind (load_hashed_snapshot E cas (entry_snapshot_hash new_entry)) (\<lambda>new_snapshot.
           ebind (validate_published_snapshot E new thread_id new_entry new_snapshot events) (\<lambda>_.
           validate_historical_snapshot_transition E previous_snapshot new_snapshot
             (map_option snd appended_times))))))"

definition validate_chain_state_transition ::
  "'z lib_env_scheme \<Rightarrow> cas \<Rightarrow> string \<Rightarrow> chain_state \<Rightarrow> chain_state \<Rightarrow> event_position btree \<Rightarrow> unit result" where
  "validate_chain_state_transition E cas previous_hash previous new events =
     ebind (require (cs_prev_chain_state_hash new = Some previous_hash)
       (Bail ''ChainState does not name its direct predecessor'')) (\<lambda>_.
     ebind (require (\<not> (cs_schema new \<noteq> cs_schema previous \<or> cs_kind new \<noteq> cs_kind previous
         \<or> cs_chain_root_id new \<noteq> cs_chain_root_id previous))
       (Bail ''ChainState transition changed immutable chain identity'')) (\<lambda>_.
     ebind (parse_canonical_timestamp E (cs_updated_at previous)) (\<lambda>previous_updated_at.
     ebind (parse_canonical_timestamp E (cs_updated_at new)) (\<lambda>new_updated_at.
     ebind (require (\<not> new_updated_at < previous_updated_at) (Bail ''ChainState updated_at moved backwards'')) (\<lambda>_.
     ebind (validate_event_advance events ChainHistory (cs_last_event_hash previous) (cs_last_chain_seq previous)
       (cs_last_event_hash new) (cs_last_chain_seq new)) (\<lambda>appended_times.
     ebind (if_some (\<lambda>(oldest, newest).
         ebind (parse_canonical_timestamp E oldest) (\<lambda>oldest_time.
         ebind (require (\<not> oldest_time < previous_updated_at)
           (Bail ''new chain events precede the previous ChainState timestamp'')) (\<lambda>_.
         ebind (parse_canonical_timestamp E newest) (\<lambda>newest_time.
         require (\<not> newest_time > new_updated_at)
           (Bail ''new chain events exceed the successor ChainState timestamp''))))) appended_times) (\<lambda>_.
     ebind (for_each (\<lambda>(thread_id, entry).
         require (map_of (cs_threads new) thread_id \<noteq> None) (Bail ''ChainState transition removed thread''))
         (cs_threads previous)) (\<lambda>_.
     for_each (\<lambda>(thread_id, new_entry).
         validate_entry_transition E cas previous new events appended_times thread_id new_entry)
       (cs_threads new)))))))))"

section \<open>The whole history\<close>

lemma load_hashed_chain_state_present:
  "load_hashed_chain_state E cas h = Inr s \<Longrightarrow> h \<in> fst ` set cas"
  unfolding load_hashed_chain_state_def by (rule state_codec.load_present)

function collect_history ::
  "'z lib_env_scheme \<Rightarrow> cas \<Rightarrow> string \<Rightarrow> string list \<Rightarrow> string option \<Rightarrow> string list \<Rightarrow> string list result" where
  "collect_history E cas root visited None newest_to_oldest = Inr newest_to_oldest"
| "collect_history E cas root visited (Some hash) newest_to_oldest =
     (if hash \<in> set visited then Inl (Bail ''cycle in ChainState history'')
      else
        ebind (load_hashed_chain_state E cas hash) (\<lambda>state.
        ebind (validate_state E state) (\<lambda>_.
        ebind (validate_chain_positions E state) (\<lambda>_.
        ebind (require (cs_chain_root_id state = root)
          (Bail ''historical ChainState belongs to another chain'')) (\<lambda>_.
        collect_history E cas root (hash # visited) (cs_prev_chain_state_hash state)
          (newest_to_oldest @ [hash]))))))"
  by pat_completeness auto
termination
proof (relation "measure (\<lambda>(E, cas, root, visited, current, acc). card (fst ` set cas - set visited))")
  fix E :: "'z lib_env_scheme" and cas root visited hash acc state x xa xb
  assume "hash \<notin> set visited" and "load_hashed_chain_state E cas hash = Inr state"
  then have "hash \<in> fst ` set cas - set visited" using load_hashed_chain_state_present by blast
  then have "card (fst ` set cas - set (hash # visited)) < card (fst ` set cas - set visited)"
    by (intro psubset_card_mono) auto
  then show "((E, cas, root, hash # visited, cs_prev_chain_state_hash state, acc @ [hash]),
      E, cas, root, visited, Some hash, acc) \<in>
      measure (\<lambda>(E, cas, root, visited, current, acc). card (fst ` set cas - set visited))"
    by simp
qed simp

declare collect_history.simps [simp del]

fun check_transitions ::
  "'z lib_env_scheme \<Rightarrow> cas \<Rightarrow> event_position btree \<Rightarrow> string \<Rightarrow> chain_state \<Rightarrow> string list \<Rightarrow> unit result" where
  "check_transitions E cas events previous_hash previous [] = Inr ()"
| "check_transitions E cas events previous_hash previous (new_hash # hashes) =
     ebind (load_hashed_chain_state E cas new_hash) (\<lambda>new.
     ebind (validate_chain_state_transition E cas previous_hash previous new events) (\<lambda>_.
     check_transitions E cas events new_hash new hashes))"

definition validate_authoritative_history ::
  "'z lib_env_scheme \<Rightarrow> cas \<Rightarrow> string \<Rightarrow> string \<Rightarrow> string option \<Rightarrow> unit result" where
  "validate_authoritative_history E cas chain_root_id target_hash expected_ancestor =
     ebind (load_hashed_chain_state E cas target_hash) (\<lambda>target.
     ebind (require (cs_chain_root_id target = chain_root_id) (Bail ''target chain root mismatch'')) (\<lambda>_.
     ebind (validate_authoritative_closure E cas target) (\<lambda>events.
     ebind (collect_history E cas chain_root_id [] (Some target_hash) []) (\<lambda>newest_to_oldest.
     ebind (if_some (\<lambda>expected. require (expected \<in> set newest_to_oldest)
         (Bail ''target ChainState does not advance from expected current head'')) expected_ancestor) (\<lambda>_.
     (case rev newest_to_oldest of
        [] \<Rightarrow> Inl (Bail ''empty ChainState history'')
      | genesis_hash # later \<Rightarrow>
          ebind (load_hashed_chain_state E cas genesis_hash) (\<lambda>genesis.
          ebind (validate_genesis_state E cas genesis events) (\<lambda>_.
          check_transitions E cas events genesis_hash genesis later))))))))"

section \<open>Normalizing prospective objects\<close>

definition validate_update_identity :: "string \<Rightarrow> thread_snapshot \<Rightarrow> string \<Rightarrow> unit result" where
  "validate_update_identity update_thread_id snapshot chain_root_id =
     ebind (require (update_thread_id = snap_thread_id snapshot)
       (Bail ''snapshot update thread_id does not match snapshot thread_id'')) (\<lambda>_.
     require (snap_chain_root_id snapshot = chain_root_id)
       (Bail ''snapshot update belongs to another chain''))"

fun clamp_events ::
  "'z lib_env_scheme \<Rightarrow> string \<Rightarrow> thread_event list \<Rightarrow> (string \<times> thread_event list) result" where
  "clamp_events E cursor [] = Inr (cursor, [])"
| "clamp_events E cursor (event # events) =
     ebind (clamp_timestamp E (ev_ts event) cursor) (\<lambda>ts.
     ebind (clamp_events E ts events) (\<lambda>(final, clamped).
     Inr (final, event\<lparr> ev_ts := ts \<rparr> # clamped)))"

definition normalize_event_timestamps ::
  "'z lib_env_scheme \<Rightarrow> thread_event list \<Rightarrow> string \<Rightarrow> (string \<times> thread_event list) result" where
  "normalize_event_timestamps E events floor =
     ebind (parse_canonical_timestamp E floor) (\<lambda>_. clamp_events E floor events)"

definition normalize_started ::
  "'z lib_env_scheme \<Rightarrow> thread_snapshot \<Rightarrow> thread_snapshot \<Rightarrow> thread_snapshot result" where
  "normalize_started E previous new =
     (case snap_started_at new of
        None \<Rightarrow> Inr new
      | Some started_at \<Rightarrow>
          ebind (clamp_timestamp E started_at (snap_created_at new)) (\<lambda>s1.
          ebind (if snap_started_at previous = None then clamp_timestamp E s1 (snap_updated_at previous)
                 else Inr s1) (\<lambda>s2.
          ebind (clamp_timestamp E (snap_updated_at new) s2) (\<lambda>u.
          Inr (new\<lparr> snap_started_at := Some s2, snap_updated_at := u \<rparr>)))))"

definition normalize_finished ::
  "'z lib_env_scheme \<Rightarrow> thread_snapshot \<Rightarrow> thread_snapshot \<Rightarrow> string \<Rightarrow> thread_snapshot result" where
  "normalize_finished E previous new append_timestamp =
     (case snap_finished_at new of
        None \<Rightarrow> Inr new
      | Some finished_at \<Rightarrow>
          ebind (clamp_timestamp E finished_at (snap_created_at new)) (\<lambda>f1.
          ebind (clamp_timestamp E f1 (snap_updated_at previous)) (\<lambda>f2.
          ebind (clamp_timestamp E f2 append_timestamp) (\<lambda>f3.
          ebind (case snap_started_at new of None \<Rightarrow> Inr f3
                 | Some started_at \<Rightarrow> clamp_timestamp E f3 started_at) (\<lambda>f4.
          ebind (clamp_timestamp E (snap_updated_at new) f4) (\<lambda>u.
          Inr (new\<lparr> snap_finished_at := Some f4, snap_updated_at := u \<rparr>)))))))"

definition normalize_and_validate_snapshot_transition ::
  "'z lib_env_scheme \<Rightarrow> thread_snapshot \<Rightarrow> thread_snapshot \<Rightarrow> string \<Rightarrow> thread_snapshot result" where
  "normalize_and_validate_snapshot_transition E previous new append_timestamp =
     ebind (validate_snapshot_transition_identity previous new) (\<lambda>_.
     ebind (clamp_timestamp E (snap_updated_at new) (snap_updated_at previous)) (\<lambda>u.
     ebind (normalize_started E previous (new\<lparr> snap_updated_at := u \<rparr>)) (\<lambda>n1.
     ebind (normalize_finished E previous n1 append_timestamp) (\<lambda>n2.
     ebind (clamp_timestamp E (snap_updated_at n2) append_timestamp) (\<lambda>u'.
     let n3 = n2\<lparr> snap_updated_at := u' \<rparr>
     in ebind (validate_snapshot E n3) (\<lambda>_. Inr n3))))))"

definition normalize_and_validate_new_thread ::
  "'z lib_env_scheme \<Rightarrow> thread_snapshot \<Rightarrow> string \<Rightarrow> string \<Rightarrow> string option \<Rightarrow> thread_snapshot result" where
  "normalize_and_validate_new_thread E snapshot chain_root_id timestamp_floor continuation_source =
     ebind (require (snap_chain_root_id snapshot = chain_root_id) (Bail ''snapshot chain_root_id mismatch'')) (\<lambda>_.
     ebind (require (snap_status snapshot = Created)
       (Bail ''new thread snapshot must start in created status'')) (\<lambda>_.
     ebind (validate_new_thread_project_snapshots snapshot continuation_source) (\<lambda>_.
     ebind (parse_canonical_timestamp E (snap_created_at snapshot)) (\<lambda>_.
     ebind (clamp_timestamp E (snap_updated_at snapshot) (snap_created_at snapshot)) (\<lambda>u1.
     ebind (clamp_timestamp E u1 timestamp_floor) (\<lambda>u2.
     let s = snapshot\<lparr> snap_updated_at := u2 \<rparr>
     in ebind (validate_snapshot E s) (\<lambda>_. Inr s)))))))"

definition stamp_snapshot_position ::
  "thread_snapshot \<Rightarrow> chain_thread_entry \<Rightarrow> nat \<Rightarrow> thread_snapshot" where
  "stamp_snapshot_position snapshot entry chain_sequence =
     snapshot\<lparr> snap_last_event_hash := entry_last_event_hash entry,
       snap_last_thread_seq := entry_last_thread_seq entry, snap_last_chain_seq := chain_sequence \<rparr>"

definition validate_untouched_entries ::
  "chain_thread_entry btree \<Rightarrow> chain_thread_entry btree \<Rightarrow> string list \<Rightarrow> unit result" where
  "validate_untouched_entries previous new updated_threads =
     (let expected = fold bt_remove updated_threads previous
      in for_each (\<lambda>(thread_id, expected_entry).
           ebind (ok_or (map_of new thread_id) (Bail ''prospective chain removed thread'')) (\<lambda>actual.
           require (actual = expected_entry) (Bail ''prospective chain changed untouched thread''))) expected)"

end
