(* ===== verification/Event_Log.thy ===== *)
theory Event_Log
  imports Chain_Validation
begin

text \<open>
  What the validator of \<^verbatim>\<open>chain/validation.rs\<close> accepts, stated without its loops. The events of
  a chain form a log, oldest first, in which an event's sequence numbers and links are
  determined by the events before it; a chain state is closed when its positions are those of
  such a log. The lemmas show that the closure of the validator accepts exactly the closed
  states.
\<close>

section \<open>Event logs\<close>

type_synonym event_log = "(string \<times> thread_event) list"

definition last_hash :: "(string \<times> 'e) list \<Rightarrow> string option" where
  "last_hash xs = (if xs = [] then None else Some (fst (last xs)))"

definition of_thread :: "string \<Rightarrow> event_log \<Rightarrow> event_log" where
  "of_thread thread_id log = filter (\<lambda>(h, e). ev_thread_id e = thread_id) log"

definition not_after :: "'z lib_env_scheme \<Rightarrow> event_log \<Rightarrow> int \<Rightarrow> bool" where
  "not_after E log t \<longleftrightarrow> (log \<noteq> [] \<longrightarrow> instant E (ev_ts (snd (last log))) \<le> t)"

inductive linked_log :: "'z lib_env_scheme \<Rightarrow> cas \<Rightarrow> string \<Rightarrow> event_log \<Rightarrow> bool"
  for E cas root where
  empty: "linked_log E cas root []"
| extend: "\<lbrakk> linked_log E cas root log; load_hashed_event E cas h = Inr e; validate_event E e = Inr ();
     ev_chain_root_id e = root;
     ev_chain_seq e = Suc (length log); ev_prev_chain_event_hash e = last_hash log;
     ev_thread_seq e = Suc (length (of_thread (ev_thread_id e) log));
     ev_prev_thread_event_hash e = last_hash (of_thread (ev_thread_id e) log);
     not_after E log (instant E (ev_ts e)) \<rbrakk>
   \<Longrightarrow> linked_log E cas root (log @ [(h, e)])"

inductive_simps linked_log_snoc: "linked_log E cas root (log @ [(h, e)])"

lemma last_hash_simps [simp]:
  "last_hash [] = None" "last_hash (xs @ [(h, e)]) = Some h" "last_hash xs = None \<longleftrightarrow> xs = []"
  by (simp_all add: last_hash_def)

lemma of_thread_simps [simp]:
  "of_thread t [] = []" "of_thread t (xs @ ys) = of_thread t xs @ of_thread t ys"
  "of_thread t ((h, e) # xs) = (if ev_thread_id e = t then (h, e) # of_thread t xs else of_thread t xs)"
  by (simp_all add: of_thread_def)

lemma not_after_simps [simp]:
  "not_after E [] t" "not_after E (xs @ [(h, e)]) t \<longleftrightarrow> instant E (ev_ts e) \<le> t"
  by (simp_all add: not_after_def)

lemma not_after_mono: "not_after E log t \<Longrightarrow> t \<le> t' \<Longrightarrow> not_after E log t'"
  by (auto simp: not_after_def)

lemma validate_predecessor_link_eq_Inr [result_iff]:
  "validate_predecessor_link n p = Inr u \<longleftrightarrow> n \<noteq> 0 \<and> (n = 1 \<longleftrightarrow> p = None)"
  by (auto simp: validate_predecessor_link_def split: option.splits)

lemma validate_event_ts: "validate_event E e = Inr () \<Longrightarrow> canonical_ts E (ev_ts e)"
  by (auto simp: validate_event_def result_iff)

lemma linked_log_member:
  assumes "linked_log E cas root log" and "(h, e) \<in> set log"
  shows "load_hashed_event E cas h = Inr e" and "0 < ev_chain_seq e \<and> ev_chain_seq e \<le> length log"
    and "ev_thread_seq e \<le> length (of_thread (ev_thread_id e) log)" and "validate_event E e = Inr ()"
  using assms by (induction rule: linked_log.induct) (auto split: if_splits)

lemma linked_log_seq:
  assumes "linked_log E cas root log" and "i < length log"
  shows "ev_chain_seq (snd (log ! i)) = Suc i"
  using assms by (induction rule: linked_log.induct) (auto simp: nth_append less_Suc_eq)

lemma linked_log_distinct: "linked_log E cas root log \<Longrightarrow> distinct (map fst log)"
proof (induction rule: linked_log.induct)
  case (extend log h e)
  have "h \<notin> fst ` set log"
  proof
    assume "h \<in> fst ` set log"
    then obtain e' where m: "(h, e') \<in> set log" by auto
    from linked_log_member(1,2) [OF extend.hyps(1) m] extend.hyps(2,5) show False by auto
  qed
  with extend.IH show ?case by simp
qed simp

section \<open>The walk of the validator\<close>

definition log_positions :: "event_log \<Rightarrow> event_position btree \<Rightarrow> event_position btree" where
  "log_positions log events = fold (\<lambda>(h, e). bt_insert h (position_of e)) (rev log) events"

definition cursors_at :: "thread_event_cursor btree \<Rightarrow> event_log \<Rightarrow> bool" where
  "cursors_at cursors log \<longleftrightarrow>
     (\<forall>(t, c) \<in> set cursors. next_hash c = last_hash (of_thread t log)
        \<and> next_sequence c = length (of_thread t log))"

lemma log_positions_simps [simp]:
  "log_positions [] events = events"
  "log_positions (log @ [(h, e)]) events = log_positions log (bt_insert h (position_of e) events)"
  by (simp_all add: log_positions_def)

lemma cursors_at_empty: "cursors_at cursors [] \<longleftrightarrow> (\<forall>(t, c) \<in> set cursors. next_sequence c = 0 \<and> next_hash c = None)"
  by (auto simp: cursors_at_def)

lemma set_bt_modify:
  assumes "distinct (map fst m)" and "map_of m k = Some c"
  shows "set (bt_modify k f m) = insert (k, f c) {x \<in> set m. fst x \<noteq> k}"
proof -
  have in_m: "(k, c) \<in> set m" using assms(2) by (rule map_of_SomeD)
  have other: "x = (k, c)" if "x \<in> set m" "fst x = k" for x
    using that assms by (metis map_of_is_SomeI option.inject prod.collapse)
  have "set (bt_modify k f m) = (\<lambda>x. if fst x = k then (k, f (snd x)) else x) ` set m"
    unfolding bt_modify_def set_map by (intro image_cong refl) auto
  also have "\<dots> = insert (k, f c) {x \<in> set m. fst x \<noteq> k}" (is "?g ` _ = _")
  proof (intro equalityI subsetI)
    fix y assume "y \<in> ?g ` set m"
    then obtain x where x: "x \<in> set m" "y = ?g x" by blast
    show "y \<in> insert (k, f c) {x \<in> set m. fst x \<noteq> k}"
    proof (cases "fst x = k")
      case True
      with other [OF x(1)] x(2) show ?thesis by simp
    qed (use x in simp)
  next
    fix y assume "y \<in> insert (k, f c) {x \<in> set m. fst x \<noteq> k}"
    then have "y = ?g (k, c) \<or> y \<in> set m \<and> y = ?g y" by auto
    with in_m show "y \<in> ?g ` set m" by blast
  qed
  finally show ?thesis .
qed

lemma cursors_at_step:
  assumes "distinct (map fst cursors)" and "map_of cursors (ev_thread_id e) = Some c"
    and "next_hash c = Some h" and "next_sequence c = ev_thread_seq e" and "ev_thread_seq e \<noteq> 0"
  shows "cursors_at (bt_modify (ev_thread_id e)
      (\<lambda>c. \<lparr> next_hash = ev_prev_thread_event_hash e, next_sequence = next_sequence c - 1 \<rparr>) cursors) log
    \<longleftrightarrow> cursors_at cursors (log @ [(h, e)])
        \<and> ev_thread_seq e = Suc (length (of_thread (ev_thread_id e) log))
        \<and> ev_prev_thread_event_hash e = last_hash (of_thread (ev_thread_id e) log)"
proof -
  let ?t = "ev_thread_id e"
  let ?f = "\<lambda>c. \<lparr> next_hash = ev_prev_thread_event_hash e, next_sequence = next_sequence c - 1 \<rparr>"
  let ?ok = "\<lambda>(t, c). next_hash c = last_hash (of_thread t log) \<and> next_sequence c = length (of_thread t log)"
  let ?ok' = "\<lambda>(t, c). next_hash c = last_hash (of_thread t (log @ [(h, e)]))
    \<and> next_sequence c = length (of_thread t (log @ [(h, e)]))"
  have in_c: "(?t, c) \<in> set cursors" using assms(2) by (rule map_of_SomeD)
  have other: "x \<in> set cursors \<Longrightarrow> fst x = ?t \<Longrightarrow> x = (?t, c)" for x
    using assms(1,2) by (metis map_of_is_SomeI option.inject prod.collapse)
  have l: "cursors_at (bt_modify ?t ?f cursors) log \<longleftrightarrow> ?ok (?t, ?f c) \<and> (\<forall>x \<in> set cursors. fst x \<noteq> ?t \<longrightarrow> ?ok x)"
    unfolding cursors_at_def set_bt_modify [OF assms(1,2)] by blast
  have "(\<forall>x \<in> set cursors. ?ok' x) \<longleftrightarrow> ?ok' (?t, c) \<and> (\<forall>x \<in> set cursors. fst x \<noteq> ?t \<longrightarrow> ?ok' x)"
    using other in_c by blast
  also have "(\<forall>x \<in> set cursors. fst x \<noteq> ?t \<longrightarrow> ?ok' x) \<longleftrightarrow> (\<forall>x \<in> set cursors. fst x \<noteq> ?t \<longrightarrow> ?ok x)"
    by (intro ball_cong refl) auto
  finally have r: "cursors_at cursors (log @ [(h, e)]) \<longleftrightarrow>
      ?ok' (?t, c) \<and> (\<forall>x \<in> set cursors. fst x \<noteq> ?t \<longrightarrow> ?ok x)"
    unfolding cursors_at_def .
  show ?thesis unfolding l r using assms(3-5) by auto
qed

lemma walk_events_sound:
  assumes "walk_events E cas root n current newer visited cursors events = Inr (None, cursors', events')"
    and "cursors_at cursors' []" and "distinct (map fst cursors)"
  shows "\<exists>log. linked_log E cas root log \<and> length log = n \<and> last_hash log = current \<and> not_after E log newer
    \<and> cursors_at cursors log \<and> (\<forall>(h, e) \<in> set log. map_of cursors (ev_thread_id e) \<noteq> None)
    \<and> events' = log_positions log events"
  using assms
proof (induction n arbitrary: current newer visited cursors events)
  case (Suc n)
  let ?cs = "\<lambda>e. bt_modify (ev_thread_id e)
      (\<lambda>c. \<lparr> next_hash = ev_prev_thread_event_hash e, next_sequence = next_sequence c - 1 \<rparr>) cursors"
  obtain h e c where h: "current = Some h" "load_hashed_event E cas h = Inr e" "validate_event E e = Inr ()"
      "ev_chain_root_id e = root" "ev_chain_seq e = Suc n" "instant E (ev_ts e) \<le> newer"
      "map_of cursors (ev_thread_id e) = Some c" "next_hash c = Some h" "ev_thread_seq e = next_sequence c"
      "ev_thread_seq e \<noteq> 0"
    and w: "walk_events E cas root n (ev_prev_chain_event_hash e) (instant E (ev_ts e)) (h # visited) (?cs e)
      (bt_insert h (position_of e) events) = Inr (None, cursors', events')"
    using Suc.prems(1) by (auto simp: result_iff)
  from Suc.IH [OF w Suc.prems(2)] Suc.prems(3) obtain log where log:
      "linked_log E cas root log" "length log = n" "last_hash log = ev_prev_chain_event_hash e"
      "not_after E log (instant E (ev_ts e))" "cursors_at (?cs e) log"
      "\<forall>(h, e') \<in> set log. map_of (?cs e) (ev_thread_id e') \<noteq> None"
      "events' = log_positions log (bt_insert h (position_of e) events)"
    by auto
  have c: "cursors_at cursors (log @ [(h, e)])" "ev_thread_seq e = Suc (length (of_thread (ev_thread_id e) log))"
      "ev_prev_thread_event_hash e = last_hash (of_thread (ev_thread_id e) log)"
    using log(5) cursors_at_step [OF Suc.prems(3) h(7,8) h(9) [symmetric] h(10)] by blast+
  have "linked_log E cas root (log @ [(h, e)])"
    by (rule linked_log.extend) (use log h c in simp_all)
  moreover have "\<forall>(h, e) \<in> set (log @ [(h, e)]). map_of cursors (ev_thread_id e) \<noteq> None"
    using log(6) h(7) by (auto split: if_splits)
  ultimately show ?case
    using log h c by (intro exI [of _ "log @ [(h, e)]"]) simp
qed (auto intro!: exI [of _ "[]"] linked_log.empty)

lemma walk_events_complete:
  assumes "linked_log E cas root log" and "not_after E log newer" and "cursors_at cursors log"
    and "distinct (map fst cursors)" and "\<forall>(h, e) \<in> set log. map_of cursors (ev_thread_id e) \<noteq> None"
    and "fst ` set log \<inter> set visited = {}"
  shows "\<exists>cursors'. cursors_at cursors' [] \<and>
    walk_events E cas root (length log) (last_hash log) newer visited cursors events =
      Inr (None, cursors', log_positions log events)"
  using assms
proof (induction arbitrary: newer cursors visited events rule: linked_log.induct)
  case (extend log h e)
  let ?cs = "bt_modify (ev_thread_id e)
      (\<lambda>c. \<lparr> next_hash = ev_prev_thread_event_hash e, next_sequence = next_sequence c - 1 \<rparr>) cursors"
  obtain c where c: "map_of cursors (ev_thread_id e) = Some c" using extend.prems(4) by auto
  then have "(ev_thread_id e, c) \<in> set cursors" by (rule map_of_SomeD)
  then have cn: "next_hash c = Some h" "next_sequence c = ev_thread_seq e"
    using extend.prems(2) extend.hyps(7) unfolding cursors_at_def by fastforce+
  have dist: "distinct (map fst (log @ [(h, e)]))"
    using linked_log.extend [OF extend.hyps] by (rule linked_log_distinct)
  have "\<exists>cursors'. cursors_at cursors' [] \<and>
      walk_events E cas root (length log) (last_hash log) (instant E (ev_ts e)) (h # visited) ?cs
        (bt_insert h (position_of e) events) = Inr (None, cursors', log_positions log (bt_insert h (position_of e) events))"
  proof (rule extend.IH)
    show "not_after E log (instant E (ev_ts e))" by (rule extend.hyps)
    show "cursors_at ?cs log"
      using cursors_at_step [OF extend.prems(3) c cn] extend.hyps(7,8) extend.prems(2) by simp
    show "distinct (map fst ?cs)" using extend.prems(3) by simp
    show "\<forall>(h, e') \<in> set log. map_of ?cs (ev_thread_id e') \<noteq> None" using extend.prems(4) by auto
    show "fst ` set log \<inter> set (h # visited) = {}" using dist extend.prems(5) by auto
  qed
  moreover have "h \<notin> set visited" using extend.prems(5) by auto
  moreover have "canonical_ts E (ev_ts e)" using extend.hyps(3) by (rule validate_event_ts)
  ultimately show ?case
    using extend.hyps extend.prems(1) c cn by (simp add: result_iff)
qed (simp add: cursors_at_empty)

section \<open>Closed chain states\<close>

text \<open>The positions a chain state records are those of a log.\<close>

definition closed_log :: "'z lib_env_scheme \<Rightarrow> cas \<Rightarrow> chain_state \<Rightarrow> event_log \<Rightarrow> bool" where
  "closed_log E cas state log \<longleftrightarrow>
     linked_log E cas (cs_chain_root_id state) log
     \<and> cs_last_chain_seq state = length log \<and> cs_last_event_hash state = last_hash log
     \<and> not_after E log (instant E (cs_updated_at state))
     \<and> (\<forall>(t, entry) \<in> set (cs_threads state). entry_last_event_hash entry = last_hash (of_thread t log)
          \<and> entry_last_thread_seq entry = length (of_thread t log))
     \<and> (\<forall>(h, e) \<in> set log. map_of (cs_threads state) (ev_thread_id e) \<noteq> None)"

text \<open>The snapshot an entry names is stored, valid and not newer than the state.\<close>

definition snapshot_closed ::
  "'z lib_env_scheme \<Rightarrow> cas \<Rightarrow> chain_state \<Rightarrow> event_position btree \<Rightarrow> string \<Rightarrow> chain_thread_entry \<Rightarrow> bool" where
  "snapshot_closed E cas state events thread_id entry \<longleftrightarrow>
     (\<exists>snapshot. load_hashed_snapshot E cas (entry_snapshot_hash entry) = Inr snapshot
        \<and> validate_stored_snapshot E state thread_id entry snapshot = Inr ()
        \<and> canonical_ts E (snap_updated_at snapshot)
        \<and> instant E (snap_updated_at snapshot) \<le> instant E (cs_updated_at state)
        \<and> validate_snapshot_event_position snapshot events = Inr ())"

definition entry_cursor :: "chain_thread_entry \<Rightarrow> thread_event_cursor" where
  "entry_cursor entry = \<lparr> next_hash = entry_last_event_hash entry, next_sequence = entry_last_thread_seq entry \<rparr>"

definition snapshot_position :: "string \<Rightarrow> thread_snapshot \<Rightarrow> snapshot_event_position list" where
  "snapshot_position thread_id snapshot =
     (case snap_last_event_hash snapshot of
        None \<Rightarrow> []
      | Some h \<Rightarrow> [\<lparr> sep_thread_id = thread_id, sep_event_hash = h,
          sep_chain_sequence = snap_last_chain_seq snapshot, sep_thread_sequence = snap_last_thread_seq snapshot \<rparr>])"

lemma closure_threads_iff:
  "closure_threads E cas state t entries cursors positions = Inr (cursors', positions') \<longleftrightarrow>
     (\<exists>snapshots. list_all2 (\<lambda>(thread_id, entry) snapshot.
          load_hashed_snapshot E cas (entry_snapshot_hash entry) = Inr snapshot
          \<and> validate_stored_snapshot E state thread_id entry snapshot = Inr ()
          \<and> canonical_ts E (snap_updated_at snapshot) \<and> instant E (snap_updated_at snapshot) \<le> t) entries snapshots
        \<and> cursors' = fold (\<lambda>(thread_id, entry). bt_insert thread_id (entry_cursor entry)) entries cursors
        \<and> positions' = positions @ concat (map2 (\<lambda>(thread_id, entry) s. snapshot_position thread_id s) entries snapshots))"
proof (induction entries arbitrary: cursors positions)
  case (Cons x entries)
  obtain thread_id entry where x: "x = (thread_id, entry)" by fastforce
  have pos: "(case snap_last_event_hash s of None \<Rightarrow> positions
      | Some h \<Rightarrow> positions @ [\<lparr> sep_thread_id = thread_id, sep_event_hash = h,
          sep_chain_sequence = snap_last_chain_seq s, sep_thread_sequence = snap_last_thread_seq s \<rparr>])
      = positions @ snapshot_position thread_id s" for s
    by (simp add: snapshot_position_def split: option.split)
  show ?case
    unfolding x closure_threads.simps pos entry_cursor_def [symmetric] list_all2_Cons1
    by (simp only: result_iff Cons.IH) (fastforce simp: not_less)
qed auto

lemma fold_bt_insert:
  assumes "bt_sorted m" and "\<forall>k \<in> fst ` set c. \<forall>k' \<in> fst ` set m. k < k'" and "bt_sorted c"
  shows "fold (\<lambda>(k, v). bt_insert k (f v)) m c = c @ map (\<lambda>(k, v). (k, f v)) m"
  using assms
proof (induction m arbitrary: c)
  case (Cons x m)
  obtain k v where x: "x = (k, v)" by fastforce
  have ins: "\<forall>j \<in> fst ` set c. j < k \<Longrightarrow> bt_insert k (f v) c = c @ [(k, f v)]" for c
    by (induction c) fastforce+
  have "bt_insert k (f v) c = c @ [(k, f v)]" using Cons.prems x by (intro ins) auto
  moreover have "bt_sorted (c @ [(k, f v)])"
    using bt_sorted_insert [OF Cons.prems(3), of k "f v"] calculation by simp
  ultimately show ?case
    using Cons.IH [of "c @ [(k, f v)]"] Cons.prems x by (auto simp: bt_sorted_Cons)
qed simp

lemma map_of_map_entries: "map_of (map (\<lambda>(k, v). (k, f v)) m) k = map_option f (map_of m k)"
  by (induction m) auto

lemma validate_snapshot_event_position_eq_Inr [result_iff]:
  "validate_snapshot_event_position snapshot events = Inr u \<longleftrightarrow>
     (\<forall>h. snap_last_event_hash snapshot = Some h \<longrightarrow>
        (\<exists>p. map_of events h = Some p \<and> pos_thread_id p = snap_thread_id snapshot
           \<and> pos_thread_sequence p = snap_last_thread_seq snapshot
           \<and> pos_chain_sequence p \<le> snap_last_chain_seq snapshot))"
  by (auto simp: validate_snapshot_event_position_def result_iff)

lemma stored_snapshot_thread:
  "validate_stored_snapshot E state thread_id entry snapshot = Inr () \<Longrightarrow> snap_thread_id snapshot = thread_id"
  by (auto simp: validate_stored_snapshot_def result_iff)

lemma snapshot_positions_ok:
  assumes "list_all2 (\<lambda>(thread_id, entry) snapshot. P thread_id entry snapshot
       \<and> snap_thread_id snapshot = thread_id) entries snapshots"
  shows "(\<forall>p \<in> set (concat (map2 (\<lambda>(thread_id, entry) s. snapshot_position thread_id s) entries snapshots)).
      \<exists>e. map_of events (sep_event_hash p) = Some e \<and> pos_thread_id e = sep_thread_id p
        \<and> pos_thread_sequence e = sep_thread_sequence p \<and> pos_chain_sequence e \<le> sep_chain_sequence p)
    \<longleftrightarrow> (\<forall>s \<in> set snapshots. validate_snapshot_event_position s events = Inr ())"
  using assms
proof (induction rule: list_all2_induct)
  case (Cons x xs s ss)
  obtain thread_id entry where x: "x = (thread_id, entry)" by fastforce
  with Cons.hyps(1) have t: "snap_thread_id s = thread_id" by simp
  have "(\<forall>p \<in> set (snapshot_position thread_id s).
      \<exists>e. map_of events (sep_event_hash p) = Some e \<and> pos_thread_id e = sep_thread_id p
        \<and> pos_thread_sequence e = sep_thread_sequence p \<and> pos_chain_sequence e \<le> sep_chain_sequence p)
    \<longleftrightarrow> validate_snapshot_event_position s events = Inr ()"
    using t by (auto simp: snapshot_position_def result_iff split: option.split)
  with Cons.IH x show ?case by (simp add: ball_Un)
qed simp


lemma ex_list_all2: "(\<exists>ys. list_all2 R xs ys) \<longleftrightarrow> (\<forall>x \<in> set xs. \<exists>y. R x y)"
  by (induction xs) (auto simp: list_all2_Cons1)

lemma list_all2_and_right:
  "list_all2 R xs ys \<and> (\<forall>y \<in> set ys. P y) \<longleftrightarrow> list_all2 (\<lambda>x y. R x y \<and> P y) xs ys"
  by (auto simp: list_all2_conv_all_nth all_set_conv_all_nth)

lemma closure_snapshots:
  "(\<exists>snapshots. list_all2 (\<lambda>(t, entry) snapshot.
        load_hashed_snapshot E cas (entry_snapshot_hash entry) = Inr snapshot
        \<and> validate_stored_snapshot E state t entry snapshot = Inr ()
        \<and> canonical_ts E (snap_updated_at snapshot)
        \<and> instant E (snap_updated_at snapshot) \<le> instant E (cs_updated_at state)) entries snapshots
      \<and> (\<forall>p \<in> set (concat (map2 (\<lambda>(t, entry) s. snapshot_position t s) entries snapshots)).
      \<exists>e. map_of events (sep_event_hash p) = Some e \<and> pos_thread_id e = sep_thread_id p
        \<and> pos_thread_sequence e = sep_thread_sequence p \<and> pos_chain_sequence e \<le> sep_chain_sequence p))
   \<longleftrightarrow> (\<forall>(t, entry) \<in> set entries. snapshot_closed E cas state events t entry)"
    (is "(\<exists>ss. list_all2 ?R entries ss \<and> ?pos ss) \<longleftrightarrow> _")
proof -
  have "list_all2 ?R entries ss \<and> ?pos ss \<longleftrightarrow>
      list_all2 (\<lambda>x s. ?R x s \<and> validate_snapshot_event_position s events = Inr ()) entries ss" for ss
  proof (cases "list_all2 ?R entries ss")
    case True
    then have "list_all2 (\<lambda>(t, entry) snapshot. True \<and> snap_thread_id snapshot = t) entries ss"
      by (rule list_all2_mono) (auto dest: stored_snapshot_thread)
    from snapshot_positions_ok [OF this, of events]
    show ?thesis unfolding list_all2_and_right [symmetric] by (rule conj_cong [OF refl])
  next
    case False
    then show ?thesis unfolding list_all2_and_right [symmetric] by simp
  qed
  then have "(\<exists>ss. list_all2 ?R entries ss \<and> ?pos ss) \<longleftrightarrow>
      (\<forall>x \<in> set entries. \<exists>s. ?R x s \<and> validate_snapshot_event_position s events = Inr ())"
    by (simp only: ex_list_all2)
  also have "\<dots> \<longleftrightarrow> (\<forall>(t, entry) \<in> set entries. snapshot_closed E cas state events t entry)"
    unfolding snapshot_closed_def case_prod_unfold conj_assoc ..
  finally show ?thesis .
qed

lemma validate_state_ts: "validate_state E state = Inr () \<Longrightarrow> canonical_ts E (cs_updated_at state)"
  by (auto simp: validate_state_def result_iff)

lemma cursors_at_entries:
  "cursors_at (map (\<lambda>(k, v). (k, entry_cursor v)) threads) log \<longleftrightarrow>
     (\<forall>(t, entry) \<in> set threads. entry_last_event_hash entry = last_hash (of_thread t log)
        \<and> entry_last_thread_seq entry = length (of_thread t log))"
  by (auto simp: cursors_at_def entry_cursor_def)

lemma closure_walk:
  assumes "bt_sorted (cs_threads state)"
  shows "(\<exists>cursors. walk_events E cas (cs_chain_root_id state) (cs_last_chain_seq state) (cs_last_event_hash state)
        (instant E (cs_updated_at state)) [] (map (\<lambda>(k, v). (k, entry_cursor v)) (cs_threads state)) []
        = Inr (None, cursors, events) \<and> cursors_at cursors [])
    \<longleftrightarrow> (\<exists>log. closed_log E cas state log \<and> events = log_positions log [])"
    (is "?l \<longleftrightarrow> ?r")
proof
  have d: "distinct (map fst (map (\<lambda>(k, v). (k, entry_cursor v)) (cs_threads state)))"
    using bt_sorted_distinct [OF assms] by (simp add: comp_def case_prod_unfold)
  { assume ?l
    then obtain cursors where w: "walk_events E cas (cs_chain_root_id state) (cs_last_chain_seq state)
        (cs_last_event_hash state) (instant E (cs_updated_at state)) []
        (map (\<lambda>(k, v). (k, entry_cursor v)) (cs_threads state)) [] = Inr (None, cursors, events)"
      "cursors_at cursors []" by blast
    obtain log where "linked_log E cas (cs_chain_root_id state) log" "length log = cs_last_chain_seq state"
        "last_hash log = cs_last_event_hash state" "not_after E log (instant E (cs_updated_at state))"
        "cursors_at (map (\<lambda>(k, v). (k, entry_cursor v)) (cs_threads state)) log"
        "\<forall>(h, e) \<in> set log. map_of (cs_threads state) (ev_thread_id e) \<noteq> None" "events = log_positions log []"
      using walk_events_sound [OF w d] unfolding map_of_map_entries option.map_disc_iff by blast
    then show ?r unfolding closed_log_def cursors_at_entries [symmetric] by metis }
  assume ?r
  then obtain log where log: "closed_log E cas state log" "events = log_positions log []" by blast
  note c = log(1) [unfolded closed_log_def cursors_at_entries [symmetric]]
  have "\<forall>(h, e) \<in> set log. map_of (map (\<lambda>(k, v). (k, entry_cursor v)) (cs_threads state)) (ev_thread_id e) \<noteq> None"
    using c unfolding map_of_map_entries option.map_disc_iff by blast
  with walk_events_complete [of E cas "cs_chain_root_id state" log "instant E (cs_updated_at state)", OF _ _ _ d,
      where visited = "[]" and events = "[]"] c log(2)
  show ?l by auto
qed

lemma closure_iff:
  assumes "bt_sorted (cs_threads state)"
  shows "validate_authoritative_closure E cas state = Inr events \<longleftrightarrow>
     validate_state E state = Inr () \<and> validate_chain_positions E state = Inr ()
     \<and> (\<exists>log. closed_log E cas state log \<and> events = log_positions log [])
     \<and> (\<forall>(t, entry) \<in> set (cs_threads state). snapshot_closed E cas state events t entry)"
proof -
  have f: "fold (\<lambda>(thread_id, entry). bt_insert thread_id (entry_cursor entry)) (cs_threads state) []
      = map (\<lambda>(k, v). (k, entry_cursor v)) (cs_threads state)"
    using fold_bt_insert [OF assms, of "[]" entry_cursor] by simp
  have c: "(\<forall>x \<in> set cursors. (case x of (t, c) \<Rightarrow>
      require (next_sequence c = 0 \<and> next_hash c = None) e) = Inr ()) \<longleftrightarrow> cursors_at cursors []" for cursors and e :: error
    by (auto simp: cursors_at_empty result_iff)
  show ?thesis
  proof (cases "validate_state E state = Inr ()")
    case True
    have ts: "canonical_ts E (cs_updated_at state)" using validate_state_ts [OF True] .
    show ?thesis
      unfolding closure_walk [OF assms, symmetric] closure_snapshots [symmetric]
        validate_authoritative_closure_def
      apply (simp only: True ts result_iff closure_threads_iff f split_paired_Ex prod.case append_Nil not_not de_Morgan_disj not_less)
      apply (simp add: c del: set_concat)
      apply (rule conj_cong [OF refl])
      apply blast
      done
  qed (simp add: validate_authoritative_closure_def result_iff)
qed

section \<open>Positions in a log\<close>

lemma map_of_log_positions:
  assumes "linked_log E cas root log"
  shows "map_of (log_positions log []) h = map_option position_of (map_of log h)"
proof -
  have "map_of (log_positions log events) h =
      (case map_of log h of None \<Rightarrow> map_of events h | Some e \<Rightarrow> Some (position_of e))"
    if "distinct (map fst log)" for events
    using that
  proof (induction log arbitrary: events rule: rev_induct)
    case (snoc x log)
    obtain k e where x: "x = (k, e)" by fastforce
    have "map_of log k = None" using snoc.prems x by (simp add: map_of_eq_None_iff)
    with snoc x show ?case by (auto simp: map_add_def split: option.split)
  qed simp
  from this [OF linked_log_distinct [OF assms], of "[]"] show ?thesis by (simp split: option.split)
qed

lemma linked_log_nth:
  assumes "linked_log E cas root log" and "i < length log"
  shows "ev_chain_seq (snd (log ! i)) = Suc i"
    and "ev_prev_chain_event_hash (snd (log ! i)) = last_hash (take i log)"
  using assms by (induction rule: linked_log.induct) (auto simp: nth_append less_Suc_eq)

lemma linked_log_thread_nth:
  assumes "linked_log E cas root log" and "i < length (of_thread t log)"
  shows "ev_thread_id (snd (of_thread t log ! i)) = t \<and> ev_thread_seq (snd (of_thread t log ! i)) = Suc i
    \<and> ev_prev_thread_event_hash (snd (of_thread t log ! i)) = last_hash (take i (of_thread t log))"
  using assms by (induction rule: linked_log.induct) (auto simp: nth_append less_Suc_eq split: if_splits)

lemma linked_log_prefix: "linked_log E cas root log \<Longrightarrow> linked_log E cas root (take n log)"
proof (induction rule: linked_log.induct)
  case (extend log h e)
  show ?case
  proof (cases "n \<le> length log")
    case False
    then have "take n (log @ [(h, e)]) = log @ [(h, e)]" by simp
    then show ?thesis using linked_log.extend [OF extend.hyps] by simp
  qed (use extend.IH in simp)
qed (simp add: linked_log.empty)

lemma of_thread_subset: "set (of_thread t log) \<subseteq> set log"
  by (auto simp: of_thread_def)

lemma position_nth:
  assumes "linked_log E cas root log" and "(h, e) \<in> set log"
  shows "map_of (log_positions log []) h = Some (position_of e)"
  using assms linked_log_distinct [OF assms(1)] by (simp add: map_of_log_positions)

text \<open>The positions that a history of \<open>validate_event_advance\<close> visits, oldest first.\<close>

definition history_visits :: "event_position btree \<Rightarrow> event_history \<Rightarrow> event_log \<Rightarrow> bool" where
  "history_visits events history L \<longleftrightarrow>
     (\<forall>i < length L. \<exists>p. map_of events (fst (L ! i)) = Some p \<and> pos_timestamp p = ev_ts (snd (L ! i))
        \<and> (case history of
            ChainHistory \<Rightarrow> pos_chain_sequence p = Suc i \<and> pos_prev_chain_hash p = last_hash (take i L)
          | ThreadHistory t \<Rightarrow> pos_thread_id p = t \<and> pos_thread_sequence p = Suc i
              \<and> pos_prev_thread_hash p = last_hash (take i L)))"

lemma history_visits_chain:
  assumes "linked_log E cas root log"
  shows "history_visits (log_positions log []) ChainHistory log"
  unfolding history_visits_def
proof (intro allI impI)
  fix i assume i: "i < length log"
  have "map_of (log_positions log []) (fst (log ! i)) = Some (position_of (snd (log ! i)))"
    by (rule position_nth [OF assms]) (simp add: i)
  with linked_log_nth [OF assms i] show "\<exists>p. map_of (log_positions log []) (fst (log ! i)) = Some p
      \<and> pos_timestamp p = ev_ts (snd (log ! i))
      \<and> (case ChainHistory of ChainHistory \<Rightarrow> pos_chain_sequence p = Suc i \<and> pos_prev_chain_hash p = last_hash (take i log)
          | ThreadHistory t \<Rightarrow> pos_thread_id p = t \<and> pos_thread_sequence p = Suc i
              \<and> pos_prev_thread_hash p = last_hash (take i log))"
    by (simp add: position_of_def)
qed

lemma history_visits_thread:
  assumes "linked_log E cas root log"
  shows "history_visits (log_positions log []) (ThreadHistory t) (of_thread t log)"
  unfolding history_visits_def
proof (intro allI impI)
  fix i assume i: "i < length (of_thread t log)"
  then have "of_thread t log ! i \<in> set log" using of_thread_subset nth_mem by blast
  then have "map_of (log_positions log []) (fst (of_thread t log ! i)) = Some (position_of (snd (of_thread t log ! i)))"
    by (intro position_nth [OF assms]) simp
  with linked_log_thread_nth [OF assms i] show "\<exists>p. map_of (log_positions log []) (fst (of_thread t log ! i)) = Some p
      \<and> pos_timestamp p = ev_ts (snd (of_thread t log ! i))
      \<and> (case ThreadHistory t of ChainHistory \<Rightarrow> pos_chain_sequence p = Suc i
            \<and> pos_prev_chain_hash p = last_hash (take i (of_thread t log))
          | ThreadHistory t' \<Rightarrow> pos_thread_id p = t' \<and> pos_thread_sequence p = Suc i
              \<and> pos_prev_thread_hash p = last_hash (take i (of_thread t log)))"
    by (simp add: position_of_def)
qed

lemma last_hash_take_Suc: "i < length L \<Longrightarrow> last_hash (take (Suc i) L) = Some (fst (L ! i))"
  by (simp add: last_hash_def take_Suc_conv_app_nth)

lemma event_advance_loop_visits:
  assumes "history_visits events history L" and "m + k \<le> length L"
  shows "event_advance_loop events history m k (last_hash (take (m + k) L)) oldest newest =
    Inr (last_hash (take m L), if k = 0 then oldest else Some (ev_ts (snd (L ! m))),
         if newest = None \<and> k \<noteq> 0 then Some (ev_ts (snd (L ! (m + k - 1)))) else newest)"
  using assms(2)
proof (induction k arbitrary: oldest newest)
  case (Suc k)
  obtain p where p: "map_of events (fst (L ! (m + k))) = Some p" "pos_timestamp p = ev_ts (snd (L ! (m + k)))"
    and step: "(case history of
            ChainHistory \<Rightarrow> pos_chain_sequence p = Suc (m + k) \<and> pos_prev_chain_hash p = last_hash (take (m + k) L)
          | ThreadHistory t \<Rightarrow> pos_thread_id p = t \<and> pos_thread_sequence p = Suc (m + k)
              \<and> pos_prev_thread_hash p = last_hash (take (m + k) L))"
    using assms(1) [unfolded history_visits_def, rule_format, of "m + k"] Suc.prems by fastforce
  have "(case history of
         ChainHistory \<Rightarrow> Inr (pos_chain_sequence p, pos_prev_chain_hash p)
       | ThreadHistory thread_id \<Rightarrow>
           ebind (require (pos_thread_id p = thread_id) (Bail ''thread history crosses into another thread'')) (\<lambda>_.
           Inr (pos_thread_sequence p, pos_prev_thread_hash p)))
      = Inr (Suc (m + k), last_hash (take (m + k) L))"
    using step by (cases history) auto
  moreover have "last_hash (take (m + Suc k) L) = Some (fst (L ! (m + k)))"
    using Suc.prems by (simp add: last_hash_take_Suc)
  moreover have "event_advance_loop events history m k (last_hash (take (m + k) L)) o1 n1 =
    Inr (last_hash (take m L), if k = 0 then o1 else Some (ev_ts (snd (L ! m))),
         if n1 = None \<and> k \<noteq> 0 then Some (ev_ts (snd (L ! (m + k - 1)))) else n1)" for o1 n1
    using Suc.IH Suc.prems by simp
  ultimately show ?case using p by simp
qed simp

lemma validate_event_advance_visits:
  assumes "history_visits events history L" and "m \<le> n" and "n \<le> length L"
  shows "validate_event_advance events history (last_hash (take m L)) m (last_hash (take n L)) n =
    Inr (if m = n then None else Some (ev_ts (snd (L ! m)), ev_ts (snd (L ! (n - 1)))))"
  using assms event_advance_loop_visits [OF assms(1), of m "n - m" None None]
  by (auto simp: validate_event_advance_def expect_def)

section \<open>The validator is monotone\<close>

text \<open>What is accepted stays accepted when the store and the known events grow.\<close>

lemma map_le_Some: "m \<subseteq>\<^sub>m m' \<Longrightarrow> m k = Some v \<Longrightarrow> m' k = Some v"
  by (metis domI map_le_def)

lemma lookup_mono [result_mono]:
  "map_of m \<subseteq>\<^sub>m map_of m' \<Longrightarrow> result_le (ok_or (map_of m k) e) (ok_or (map_of m' k) e)"
  by (rule result_le_ok_or) (rule map_le_Some)

lemma load_hashed_mono [result_mono]:
  assumes "map_of cas \<subseteq>\<^sub>m map_of cas'"
  shows "result_le (load_hashed_event E cas h) (load_hashed_event E cas' h)"
    and "result_le (load_hashed_snapshot E cas h) (load_hashed_snapshot E cas' h)"
    and "result_le (load_hashed_chain_state E cas h) (load_hashed_chain_state E cas' h)"
  using event_codec.load_mono [OF _ assms] snapshot_codec.load_mono [OF _ assms] state_codec.load_mono [OF _ assms]
  unfolding load_hashed_event_def load_hashed_snapshot_def load_hashed_chain_state_def result_le_def by blast+

lemma linked_log_mono:
  assumes "linked_log E cas root log" and "map_of cas \<subseteq>\<^sub>m map_of cas'"
  shows "linked_log E cas' root log"
  using assms
  by (induction rule: linked_log.induct) (auto intro: linked_log.intros load_hashed_mono [THEN result_leD])

lemma snapshot_event_position_mono [result_mono]:
  "map_of events \<subseteq>\<^sub>m map_of events'
    \<Longrightarrow> result_le (validate_snapshot_event_position s events) (validate_snapshot_event_position s events')"
  unfolding validate_snapshot_event_position_def by (intro result_mono)

lemma entry_event_position_mono [result_mono]:
  "map_of events \<subseteq>\<^sub>m map_of events'
    \<Longrightarrow> result_le (validate_entry_event_position state t entry events)
         (validate_entry_event_position state t entry events')"
  unfolding validate_entry_event_position_def by (intro result_mono)

lemma published_snapshot_mono [result_mono]:
  "map_of events \<subseteq>\<^sub>m map_of events'
    \<Longrightarrow> result_le (validate_published_snapshot E state t entry s events)
         (validate_published_snapshot E state t entry s events')"
  unfolding validate_published_snapshot_def by (intro result_mono)

lemma event_advance_loop_mono [result_mono]:
  "map_of events \<subseteq>\<^sub>m map_of events'
    \<Longrightarrow> result_le (event_advance_loop events history m k hash oldest newest)
         (event_advance_loop events' history m k hash oldest newest)"
proof (induction k arbitrary: hash oldest newest)
  case (Suc k)
  show ?case unfolding event_advance_loop.simps by (intro result_mono Suc)
qed (simp add: result_mono)

lemma event_advance_mono [result_mono]:
  "map_of events \<subseteq>\<^sub>m map_of events'
    \<Longrightarrow> result_le (validate_event_advance events history h m h' n) (validate_event_advance events' history h m h' n)"
  unfolding validate_event_advance_def by (intro result_mono)

lemma entry_transition_mono [result_mono]:
  "\<lbrakk> map_of cas \<subseteq>\<^sub>m map_of cas'; map_of events \<subseteq>\<^sub>m map_of events' \<rbrakk>
    \<Longrightarrow> result_le (validate_entry_transition E cas previous new events appended t entry)
         (validate_entry_transition E cas' previous new events' appended t entry)"
  unfolding validate_entry_transition_def Let_def by (intro result_mono)

lemma chain_state_transition_mono [result_mono]:
  "\<lbrakk> map_of cas \<subseteq>\<^sub>m map_of cas'; map_of events \<subseteq>\<^sub>m map_of events' \<rbrakk>
    \<Longrightarrow> result_le (validate_chain_state_transition E cas h previous new events)
         (validate_chain_state_transition E cas' h previous new events')"
  unfolding validate_chain_state_transition_def by (intro result_mono)

lemma genesis_state_mono [result_mono]:
  "\<lbrakk> map_of cas \<subseteq>\<^sub>m map_of cas'; map_of events \<subseteq>\<^sub>m map_of events' \<rbrakk>
    \<Longrightarrow> result_le (validate_genesis_state E cas state events) (validate_genesis_state E cas' state events')"
  unfolding validate_genesis_state_def expect_def by (intro result_mono)

lemma closure_threads_mono [result_mono]:
  assumes "map_of cas \<subseteq>\<^sub>m map_of cas'"
  shows "result_le (closure_threads E cas state t entries cursors positions)
    (closure_threads E cas' state t entries cursors positions)"
proof (induction entries arbitrary: cursors positions)
  case (Cons x entries)
  obtain k entry where x: "x = (k, entry)" by fastforce
  show ?case unfolding x closure_threads.simps by (intro result_mono assms Cons)
qed (simp add: result_mono)

lemma walk_events_mono [result_mono]:
  assumes "map_of cas \<subseteq>\<^sub>m map_of cas'"
  shows "result_le (walk_events E cas root n current newer visited cursors events)
    (walk_events E cas' root n current newer visited cursors events)"
proof (induction n arbitrary: current newer visited cursors events)
  case (Suc n)
  show ?case unfolding walk_events.simps by (intro result_mono assms Suc)
qed (simp add: result_mono)

lemma closure_mono [result_mono]:
  "map_of cas \<subseteq>\<^sub>m map_of cas'
    \<Longrightarrow> result_le (validate_authoritative_closure E cas state) (validate_authoritative_closure E cas' state)"
  unfolding validate_authoritative_closure_def by (intro result_mono)

end
