(* ===== verification/State_History.thy ===== *)
theory State_History
  imports Event_Log
begin

text \<open>
  The chain states of a history, oldest first, each naming its predecessor: what
  \<open>validate_authoritative_history\<close> accepts, stated without its loops, and how an accepted
  history grows by one state.
\<close>

section \<open>Chains of states\<close>

type_synonym state_log = "(string \<times> chain_state) list"

inductive state_chain :: "'z lib_env_scheme \<Rightarrow> cas \<Rightarrow> string \<Rightarrow> state_log \<Rightarrow> bool"
  for E cas root where
  genesis: "\<lbrakk> load_hashed_chain_state E cas h = Inr s; validate_state E s = Inr ();
      validate_chain_positions E s = Inr (); cs_chain_root_id s = root; cs_prev_chain_state_hash s = None \<rbrakk>
    \<Longrightarrow> state_chain E cas root [(h, s)]"
| extend: "\<lbrakk> state_chain E cas root states; load_hashed_chain_state E cas h = Inr s; validate_state E s = Inr ();
      validate_chain_positions E s = Inr (); cs_chain_root_id s = root;
      cs_prev_chain_state_hash s = last_hash states \<rbrakk>
    \<Longrightarrow> state_chain E cas root (states @ [(h, s)])"

lemma state_chain_nonempty: "state_chain E cas root states \<Longrightarrow> states \<noteq> []"
  by (cases rule: state_chain.cases) auto

lemma state_chain_loaded:
  "state_chain E cas root states \<Longrightarrow> (h, s) \<in> set states \<Longrightarrow> load_hashed_chain_state E cas h = Inr s"
  by (induction rule: state_chain.induct) auto

lemma state_chain_last:
  assumes "state_chain E cas root states"
  shows "\<exists>h s. last states = (h, s) \<and> load_hashed_chain_state E cas h = Inr s \<and> validate_state E s = Inr ()
    \<and> validate_chain_positions E s = Inr () \<and> cs_chain_root_id s = root"
  using assms by (cases rule: state_chain.cases) auto

lemma state_chain_mono:
  assumes "state_chain E cas root states" and "map_of cas \<subseteq>\<^sub>m map_of cas'"
  shows "state_chain E cas' root states"
  using assms
  by (induction rule: state_chain.induct) (auto intro: state_chain.intros load_hashed_mono [THEN result_leD])

lemma state_chain_snoc:
  "state_chain E cas root (states @ [(h, s)]) \<longleftrightarrow>
     load_hashed_chain_state E cas h = Inr s \<and> validate_state E s = Inr () \<and> validate_chain_positions E s = Inr ()
     \<and> cs_chain_root_id s = root \<and> cs_prev_chain_state_hash s = last_hash states
     \<and> (states = [] \<or> state_chain E cas root states)" (is "?l \<longleftrightarrow> ?r")
proof
  show ?r if ?l using that by (cases rule: state_chain.cases) auto
  show ?l if ?r
  proof (cases "states = []")
    case True
    with \<open>?r\<close> show ?thesis by (simp add: state_chain.genesis)
  next
    case False
    with \<open>?r\<close> show ?thesis by (simp add: state_chain.extend)
  qed
qed

lemma state_chain_unique:
  assumes "state_chain E cas root c" and "state_chain E cas root d" and "last_hash c = last_hash d"
  shows "c = d"
  using assms
proof (induction c arbitrary: d rule: rev_induct)
  case (snoc x c)
  obtain h s where x: "x = (h, s)" by fastforce
  obtain d' y where d: "d = d' @ [y]" using state_chain_nonempty [OF snoc.prems(2)] by (cases d rule: rev_cases) auto
  obtain h' s' where y: "y = (h', s')" by fastforce
  have h: "h' = h" using snoc.prems(3) by (simp add: x d y)
  note c = snoc.prems(1) [unfolded x state_chain_snoc] and d' = snoc.prems(2) [unfolded d y state_chain_snoc]
  have s: "s' = s" using c d' h by simp
  then have l: "last_hash c = last_hash d'" using c d' by metis
  show ?case
  proof (cases "c = []")
    case True
    with l have "last_hash d' = None" by simp
    with True show ?thesis by (simp add: d x y h s)
  next
    case False
    then have "last_hash d' \<noteq> None" using l by (metis last_hash_simps(3))
    then have "d' \<noteq> []" by auto
    with False snoc.IH [of d'] c d' l show ?thesis by (simp add: d x y h s)
  qed
qed (use state_chain_nonempty in blast)

lemma state_chain_take: "state_chain E cas root states \<Longrightarrow> 0 < n \<Longrightarrow> state_chain E cas root (take n states)"
proof (induction rule: state_chain.induct)
  case (genesis h s)
  then show ?case by (cases n) (simp_all add: state_chain.genesis)
next
  case (extend states h s)
  show ?case
  proof (cases "n \<le> length states")
    case False
    then have "take n (states @ [(h, s)]) = states @ [(h, s)]" by simp
    then show ?thesis using state_chain.extend [OF extend.hyps] by simp
  qed (use extend in simp)
qed

lemma state_chain_distinct:
  assumes "state_chain E cas root states"
  shows "distinct (map fst states)"
proof (rule ccontr)
  assume "\<not> distinct (map fst states)"
  then obtain i j where ij: "i < j" "j < length states" "fst (states ! i) = fst (states ! j)"
    by (auto simp: distinct_conv_nth) (metis linorder_neqE_nat)
  have "take (Suc i) states = take (Suc j) states"
    by (rule state_chain_unique [OF state_chain_take [OF assms] state_chain_take [OF assms]])
      (use ij in \<open>simp_all add: last_hash_take_Suc\<close>)
  then have "length (take (Suc i) states) = length (take (Suc j) states)" by simp
  with ij show False by simp
qed

section \<open>The loops of the validator\<close>

lemma collect_history_sound:
  assumes "collect_history E cas root visited current acc = Inr hashes"
  shows "case current of None \<Rightarrow> hashes = acc
    | Some h \<Rightarrow> \<exists>states. state_chain E cas root states \<and> last_hash states = Some h
        \<and> hashes = acc @ rev (map fst states)"
  using assms
proof (induction E cas root visited current acc rule: collect_history.induct)
  case (2 E cas root visited hash acc)
  from "2.prems" obtain s where s: "hash \<notin> set visited" "load_hashed_chain_state E cas hash = Inr s"
      "validate_state E s = Inr ()" "validate_chain_positions E s = Inr ()" "cs_chain_root_id s = root"
      "collect_history E cas root (hash # visited) (cs_prev_chain_state_hash s) (acc @ [hash]) = Inr hashes"
    by (auto simp: collect_history.simps result_iff split: if_splits)
  have IH: "case cs_prev_chain_state_hash s of None \<Rightarrow> hashes = acc @ [hash]
      | Some h \<Rightarrow> \<exists>states. state_chain E cas root states \<and> last_hash states = Some h
          \<and> hashes = (acc @ [hash]) @ rev (map fst states)"
    using "2.IH" [OF s(1,2,3,4) _ s(6)] s(5) by (simp add: result_iff)
  show ?case
  proof (cases "cs_prev_chain_state_hash s")
    case None
    with IH have "hashes = acc @ rev (map fst [(hash, s)])" by simp
    moreover have "state_chain E cas root [(hash, s)]" using s None by (intro state_chain.genesis)
    moreover have "last_hash [(hash, s)] = Some hash" by (simp add: last_hash_def)
    ultimately show ?thesis unfolding option.case by blast
  next
    case (Some h)
    with IH obtain states where st: "state_chain E cas root states" "last_hash states = Some h"
      "hashes = (acc @ [hash]) @ rev (map fst states)" by auto
    have "state_chain E cas root (states @ [(hash, s)])"
      using s Some st by (intro state_chain.extend) simp_all
    moreover have "hashes = acc @ rev (map fst (states @ [(hash, s)]))" using st(3) by simp
    ultimately show ?thesis unfolding option.case by (metis last_hash_simps(2))
  qed
qed (simp add: collect_history.simps)

lemma collect_history_complete:
  assumes "state_chain E cas root states" and "fst ` set states \<inter> set visited = {}"
  shows "collect_history E cas root visited (last_hash states) acc = Inr (acc @ rev (map fst states))"
  using assms
proof (induction arbitrary: visited acc rule: state_chain.induct)
  case (genesis h s)
  then show ?case by (simp add: collect_history.simps last_hash_def result_iff)
next
  case (extend states h s)
  have "distinct (map fst (states @ [(h, s)]))"
    using state_chain.extend [OF extend.hyps] by (rule state_chain_distinct)
  then have "collect_history E cas root (h # visited) (last_hash states) (acc @ [h])
      = Inr ((acc @ [h]) @ rev (map fst states))"
    using extend.prems by (intro extend.IH) auto
  moreover have "h \<notin> set visited" using extend.prems by auto
  ultimately show ?case using extend.hyps by (simp add: collect_history.simps result_iff)
qed

definition legal_steps :: "'z lib_env_scheme \<Rightarrow> cas \<Rightarrow> event_position btree \<Rightarrow> state_log \<Rightarrow> bool" where
  "legal_steps E cas events states \<longleftrightarrow>
     successively (\<lambda>(h, s) (h', s'). validate_chain_state_transition E cas h s s' events = Inr ()) states"

lemma check_transitions_iff:
  assumes "\<forall>(h, s) \<in> set states. load_hashed_chain_state E cas h = Inr s"
  shows "check_transitions E cas events h s (map fst states) = Inr () \<longleftrightarrow> legal_steps E cas events ((h, s) # states)"
  using assms
proof (induction states arbitrary: h s)
  case (Cons x states)
  obtain h' s' where "x = (h', s')" by fastforce
  with Cons show ?case by (simp add: legal_steps_def result_iff)
qed (simp add: legal_steps_def)

definition accepted_history ::
  "'z lib_env_scheme \<Rightarrow> cas \<Rightarrow> string \<Rightarrow> state_log \<Rightarrow> event_position btree \<Rightarrow> bool" where
  "accepted_history E cas root states events \<longleftrightarrow>
     state_chain E cas root states
     \<and> validate_authoritative_closure E cas (snd (last states)) = Inr events
     \<and> validate_genesis_state E cas (snd (hd states)) events = Inr ()
     \<and> legal_steps E cas events states"

lemma history_iff:
  "validate_authoritative_history E cas root target ancestor = Inr () \<longleftrightarrow>
     (\<exists>states events. accepted_history E cas root states events \<and> last_hash states = Some target
        \<and> (\<forall>h. ancestor = Some h \<longrightarrow> h \<in> fst ` set states))"
proof -
  have tail: "(case rev (rev (map fst states)) of [] \<Rightarrow> Inl (Bail ''empty ChainState history'')
      | genesis_hash # later \<Rightarrow>
          ebind (load_hashed_chain_state E cas genesis_hash) (\<lambda>genesis.
          ebind (validate_genesis_state E cas genesis events) (\<lambda>_.
          check_transitions E cas events genesis_hash genesis later))) = Inr ()
    \<longleftrightarrow> validate_genesis_state E cas (snd (hd states)) events = Inr () \<and> legal_steps E cas events states"
    if sc: "state_chain E cas root states" for states events
  proof -
    obtain h s rest where st: "states = (h, s) # rest" using state_chain_nonempty [OF sc] by (cases states) auto
    have l: "\<forall>(h, s) \<in> set rest. load_hashed_chain_state E cas h = Inr s" "load_hashed_chain_state E cas h = Inr s"
      using state_chain_loaded [OF sc] st by auto
    show ?thesis using check_transitions_iff [OF l(1), of events h s] l(2) by (simp add: st result_iff)
  qed
  have last: "load_hashed_chain_state E cas target = Inr (snd (last states)) \<and> cs_chain_root_id (snd (last states)) = root"
    if "state_chain E cas root states" "last_hash states = Some target" for states
    using state_chain_last [OF that(1)] that(2) state_chain_nonempty [OF that(1)] by (auto simp: last_hash_def)
  show ?thesis (is "?l \<longleftrightarrow> ?r")
  proof
    assume ?l
    then obtain t events hashes where t: "load_hashed_chain_state E cas target = Inr t"
        "validate_authoritative_closure E cas t = Inr events"
        "collect_history E cas root [] (Some target) [] = Inr hashes"
        "\<forall>h. ancestor = Some h \<longrightarrow> h \<in> set hashes"
        "(case rev hashes of [] \<Rightarrow> Inl (Bail ''empty ChainState history'')
          | genesis_hash # later \<Rightarrow>
            ebind (load_hashed_chain_state E cas genesis_hash) (\<lambda>genesis.
            ebind (validate_genesis_state E cas genesis events) (\<lambda>_.
            check_transitions E cas events genesis_hash genesis later))) = Inr ()"
      unfolding validate_authoritative_history_def
      by (auto simp only: ebind_eq_Inr if_some_eq_Inr require_eq_Inr)
    obtain states where st: "state_chain E cas root states" "last_hash states = Some target"
        "hashes = rev (map fst states)"
      using collect_history_sound [OF t(3)] by auto
    have "accepted_history E cas root states events"
      using t st last [OF st(1,2)] tail [OF st(1), of events] by (simp add: accepted_history_def)
    moreover have "\<forall>h. ancestor = Some h \<longrightarrow> h \<in> fst ` set states" using t(4) st(3) by simp
    ultimately show ?r using st(2) by blast
  next
    assume ?r
    then obtain states events where a: "accepted_history E cas root states events" "last_hash states = Some target"
        "\<forall>h. ancestor = Some h \<longrightarrow> h \<in> fst ` set states" by blast
    then have sc: "state_chain E cas root states" by (simp add: accepted_history_def)
    have "collect_history E cas root [] (Some target) [] = Inr (rev (map fst states))"
      using collect_history_complete [OF sc, of "[]" "[]"] a(2) by simp
    then show ?l
      using a last [OF sc a(2)] tail [OF sc, of events]
      unfolding validate_authoritative_history_def accepted_history_def
      by (simp add: ebind_eq_Inr if_some_eq_Inr require_eq_Inr)
  qed
qed

section \<open>Growing histories\<close>

lemma legal_steps_mono:
  "\<lbrakk> legal_steps E cas events states; map_of cas \<subseteq>\<^sub>m map_of cas'; map_of events \<subseteq>\<^sub>m map_of events' \<rbrakk>
    \<Longrightarrow> legal_steps E cas' events' states"
  unfolding legal_steps_def
  by (erule successively_mono) (auto intro: chain_state_transition_mono [THEN result_leD])

lemma accepted_history_extend:
  assumes old: "accepted_history E cas root states events" and sub: "map_of cas \<subseteq>\<^sub>m map_of cas'"
    and load: "load_hashed_chain_state E cas' h = Inr s"
    and closure: "validate_authoritative_closure E cas' s = Inr events'" and ev: "map_of events \<subseteq>\<^sub>m map_of events'"
    and prev: "cs_prev_chain_state_hash s = last_hash states" and root: "cs_chain_root_id s = root"
    and step: "validate_chain_state_transition E cas' (fst (last states)) (snd (last states)) s events' = Inr ()"
  shows "accepted_history E cas' root (states @ [(h, s)]) events'"
proof -
  have sc: "state_chain E cas root states" using old by (simp add: accepted_history_def)
  have ne: "states \<noteq> []" using state_chain_nonempty [OF sc] .
  have v: "validate_state E s = Inr ()" "validate_chain_positions E s = Inr ()"
    using closure by (auto simp: validate_authoritative_closure_def ebind_eq_Inr)
  have "state_chain E cas' root (states @ [(h, s)])"
    using state_chain_mono [OF sc sub] load v root prev by (intro state_chain.extend)
  moreover have "validate_genesis_state E cas (snd (hd states)) events = Inr ()"
    using old by (simp add: accepted_history_def)
  from genesis_state_mono [OF sub ev, THEN result_leD, OF this]
  have "validate_genesis_state E cas' (snd (hd (states @ [(h, s)]))) events' = Inr ()" using ne by simp
  moreover have "legal_steps E cas' events' (states @ [(h, s)])"
    using legal_steps_mono [OF _ sub ev] old step ne
    by (auto simp: accepted_history_def legal_steps_def successively_append_iff case_prod_unfold)
  ultimately show ?thesis using closure by (simp add: accepted_history_def)
qed

section \<open>Loaded and storable chain states\<close>

definition state_wf :: "chain_state \<Rightarrow> bool" where
  "state_wf s \<longleftrightarrow> bt_sorted (cs_threads s) \<and> valid_utf8 (cs_chain_root_id s) \<and> cs_last_chain_seq s < u64_bound
     \<and> (\<forall>(t, entry) \<in> set (cs_threads s). valid_utf8 t \<and> entry_last_thread_seq entry < u64_bound)"

lemma decode_uint_bound: "decode_uint b v = Some n \<Longrightarrow> n < b"
  by (induction b v rule: decode_uint.induct) (auto split: if_splits)

lemma known_fields_wf: "known_fields ks v = Some m \<Longrightarrow> json_wf v \<Longrightarrow> map_of m k = Some w \<Longrightarrow> json_wf w"
  by (cases v) (auto simp: json_wf_JObject split: if_splits dest!: map_of_SomeD)

lemma decode_map_entries:
  assumes "those (map (\<lambda>(k, v). map_option (Pair k) (f v)) m) = Some r"
  shows "map fst r = map fst m" and "\<forall>(k, x) \<in> set r. \<exists>v. f v = Some x"
proof -
  have "map fst r = map fst m \<and> (\<forall>(k, x) \<in> set r. \<exists>v. f v = Some x)"
    using assms
  proof (induction m arbitrary: r)
    case (Cons y m)
    obtain k v where y: "y = (k, v)" by fastforce
    from Cons.prems obtain x r' where "f v = Some x" "those (map (\<lambda>(k, v). map_option (Pair k) (f v)) m) = Some r'"
      "r = (k, x) # r'" by (auto simp: y split: option.splits)
    with Cons.IH [of r'] y show ?case by auto
  qed simp
  then show "map fst r = map fst m" "\<forall>(k, x) \<in> set r. \<exists>v. f v = Some x" by blast+
qed

lemma decode_threads_wf:
  assumes "decode_map dec_entry v = Some threads" and "json_wf v"
  shows "bt_sorted threads" and "\<forall>(t, entry) \<in> set threads. valid_utf8 t \<and> entry_last_thread_seq entry < u64_bound"
proof -
  obtain m where m: "v = JObject m" "those (map (\<lambda>(k, v). map_option (Pair k) (dec_entry v)) m) = Some threads"
    using assms(1) by (cases v) auto
  note d = decode_map_entries [OF m(2)]
  have w: "bt_sorted m" "\<forall>k \<in> fst ` set m. valid_utf8 k" using assms(2) m(1) by (auto simp: json_wf_JObject)
  show "bt_sorted threads" using w(1) d(1) by (simp add: bt_sorted_def)
  have eq: "fst ` set threads = fst ` set m" using d(1) by (metis image_set)
  have "valid_utf8 t" if "(t, entry) \<in> set threads" for t entry
  proof -
    have "t \<in> fst ` set threads" using that by (simp add: rev_image_eqI)
    then show ?thesis using w(2) eq by blast
  qed
  moreover have "entry_last_thread_seq entry < u64_bound" if "(t, entry) \<in> set threads" for t entry
  proof -
    have "\<exists>v. dec_entry v = Some entry" using d(2) that by blast
    then obtain m' where "required m' ''last_thread_seq'' decode_u64 = Some (entry_last_thread_seq entry)"
      by (auto simp: dec_entry_def bind_eq_Some_conv)
    then show ?thesis
      using decode_uint_bound by (auto simp: required_def decode_u64_def split: option.splits)
  qed
  ultimately show "\<forall>(t, entry) \<in> set threads. valid_utf8 t \<and> entry_last_thread_seq entry < u64_bound"
    by blast
qed

lemma state_from_value_wf:
  assumes "state_from_value v = Some s" and "json_wf v"
  shows "state_wf s"
proof -
  obtain m where m: "known_fields state_keys v = Some m"
    and root: "required m ''chain_root_id'' decode_string = Some (cs_chain_root_id s)"
    and seq: "required m ''last_chain_seq'' decode_u64 = Some (cs_last_chain_seq s)"
    and threads: "required m ''threads'' (decode_map dec_entry) = Some (cs_threads s)"
    using assms(1) by (auto simp: state_from_value_def bind_eq_Some_conv)
  note wf = known_fields_wf [OF m assms(2)]
  have "valid_utf8 (cs_chain_root_id s)"
    using root wf decode_string_wf by (auto simp: required_def split: option.splits)
  moreover have "cs_last_chain_seq s < u64_bound"
    using seq decode_uint_bound by (auto simp: required_def decode_u64_def split: option.splits)
  moreover obtain w where "decode_map dec_entry w = Some (cs_threads s)" "json_wf w"
    using threads wf by (auto simp: required_def split: option.splits)
  ultimately show ?thesis using decode_threads_wf [of w "cs_threads s"] by (simp add: state_wf_def)
qed

lemma loaded_state_wf:
  assumes "json_parser E" and "load_hashed_chain_state E cas h = Inr s"
  shows "state_wf s"
proof -
  obtain v where "get_object E cas h = Inr (Some v)" "state_decode v = Inr s"
    using assms(2) unfolding load_hashed_chain_state_def state_codec.load_iff by blast
  then have "json_wf v" "state_from_value v = Some s"
    using assms(1) by (auto simp: get_object_iff json_parser_def state_decode_def result_iff)
  then show ?thesis by (intro state_from_value_wf)
qed

lemma state_storable:
  assumes "state_wf s" and "validate_state E s = Inr ()"
  shows "storable_state E s"
proof -
  have keys: "\<forall>k \<in> set state_keys. valid_utf8 k"
    "\<forall>k \<in> {''snapshot_hash'', ''last_event_hash'', ''last_thread_seq'', ''status''}. valid_utf8 k"
    by (simp_all add: state_keys_def valid_utf8_ascii byte_def)
  have st: "json_storable E n (enc_status x)" for n x
    by (cases x) (simp_all add: enc_status_def valid_utf8_ascii byte_def)
  have hash: "h \<in> {cs_prev_chain_state_hash s, cs_last_event_hash s} \<Longrightarrow> h = Some y \<Longrightarrow> valid_utf8 y" for h y
    using assms(2) by (auto simp: validate_state_def result_iff intro: canonical_hash_utf8)
  have "json_storable E 125 (enc_entry entry)" if "(t, entry) \<in> set (cs_threads s)" for t entry
  proof -
    have "validate_entry entry = Inr ()" using assms(2) that by (auto simp: validate_state_def result_iff)
    then have "valid_utf8 (entry_snapshot_hash entry)" "\<And>y. entry_last_event_hash entry = Some y \<Longrightarrow> valid_utf8 y"
      by (auto simp: validate_entry_def result_iff intro: canonical_hash_utf8)
    moreover have "entry_last_thread_seq entry < u64_bound" using assms(1) that by (auto simp: state_wf_def)
    ultimately show ?thesis using keys(2) st by (simp add: enc_entry_def storable_object)
  qed
  then have "json_storable E 126 (enc_threads (cs_threads s))"
    using assms(1) by (auto simp: enc_threads_def storable_JObject state_wf_def bt_sorted_def comp_def)
  moreover have "valid_utf8 (cs_updated_at s)" using canonical_ts_utf8 [OF validate_state_ts [OF assms(2)]] .
  moreover have "cs_kind s = ''chain_state''" "cs_schema s = 1"
    using assms(2) by (auto simp: validate_state_def validate_object_kind_def result_iff)
  moreover have "valid_utf8 ''chain_state''" by (simp add: valid_utf8_ascii byte_def)
  ultimately show ?thesis
    using keys(1) hash assms(1)
    by (simp add: storable_state_def state_to_value_def storable_object)
      (simp add: state_fields_def state_wf_def state_keys_def)
qed

section \<open>A legal successor\<close>

text \<open>
  The snapshot published with an entry carries the entry's position; the entry of a thread that
  the successor state carries over, updates or adds.
\<close>

definition fresh_snapshot ::
  "'z lib_env_scheme \<Rightarrow> chain_state \<Rightarrow> string \<Rightarrow> chain_thread_entry \<Rightarrow> thread_snapshot \<Rightarrow> bool" where
  "fresh_snapshot E state t entry snapshot \<longleftrightarrow>
     validate_stored_snapshot E state t entry snapshot = Inr ()
     \<and> snap_last_chain_seq snapshot = cs_last_chain_seq state
     \<and> snap_last_thread_seq snapshot = entry_last_thread_seq entry
     \<and> snap_last_event_hash snapshot = entry_last_event_hash entry
     \<and> canonical_ts E (snap_updated_at snapshot)
     \<and> instant E (snap_updated_at snapshot) \<le> instant E (cs_updated_at state)"

definition entry_grown ::
  "'z lib_env_scheme \<Rightarrow> cas \<Rightarrow> chain_state \<Rightarrow> chain_state \<Rightarrow> event_log \<Rightarrow> string \<Rightarrow> chain_thread_entry \<Rightarrow> bool" where
  "entry_grown E cas old new staged t entry \<longleftrightarrow>
     (case map_of (cs_threads old) t of
        None \<Rightarrow> (\<exists>snapshot. load_hashed_snapshot E cas (entry_snapshot_hash entry) = Inr snapshot
          \<and> fresh_snapshot E new t entry snapshot \<and> snap_status snapshot = Created
          \<and> snap_result_project_snapshot_hash snapshot = None)
      | Some previous \<Rightarrow>
          entry_snapshot_hash entry = entry_snapshot_hash previous \<and> entry_status entry = entry_status previous
          \<or> entry_snapshot_hash entry \<noteq> entry_snapshot_hash previous \<and> staged \<noteq> []
            \<and> (\<exists>before snapshot. load_hashed_snapshot E cas (entry_snapshot_hash previous) = Inr before
                \<and> load_hashed_snapshot E cas (entry_snapshot_hash entry) = Inr snapshot
                \<and> fresh_snapshot E new t entry snapshot
                \<and> validate_historical_snapshot_transition E before snapshot
                    (Some (ev_ts (snd (last staged)))) = Inr ()))"

lemma closed_log_entry:
  assumes "closed_log E cas state log" and "(t, entry) \<in> set (cs_threads state)"
  shows "entry_last_event_hash entry = last_hash (of_thread t log)"
    and "entry_last_thread_seq entry = length (of_thread t log)"
  using assms by (auto simp: closed_log_def)

lemma closed_log_absent:
  assumes "closed_log E cas state log" and "map_of (cs_threads state) t = None"
  shows "of_thread t log = []"
  using assms by (auto simp: closed_log_def of_thread_def filter_empty_conv)

lemma entry_position:
  assumes "closed_log E cas state log" and "(t, entry) \<in> set (cs_threads state)"
    and "entry_last_event_hash entry = Some h"
  shows "\<exists>p. map_of (log_positions log []) h = Some p \<and> pos_thread_id p = t
    \<and> pos_thread_sequence p = entry_last_thread_seq entry \<and> pos_chain_sequence p \<le> cs_last_chain_seq state"
proof -
  have log: "linked_log E cas (cs_chain_root_id state) log" "cs_last_chain_seq state = length log"
    using assms(1) by (simp_all add: closed_log_def)
  let ?L = "of_thread t log"
  have ne: "?L \<noteq> []" and h: "h = fst (last ?L)"
    using closed_log_entry(1) [OF assms(1,2)] assms(3) by (auto simp: last_hash_def split: if_splits)
  have last: "last ?L = ?L ! (length ?L - 1)" using ne by (rule last_conv_nth)
  have "last ?L \<in> set log" using ne of_thread_subset last_in_set by blast
  then have "(fst (last ?L), snd (last ?L)) \<in> set log" by simp
  note pos = position_nth [OF log(1) this] and mem = linked_log_member(2) [OF log(1) this]
  have "length ?L - 1 < length ?L" using ne by (cases ?L) auto
  from linked_log_thread_nth [OF log(1) this] last ne
  have "ev_thread_id (snd (last ?L)) = t" "ev_thread_seq (snd (last ?L)) = length ?L" by (auto simp: Suc_diff_Suc)
  with pos mem h closed_log_entry(2) [OF assms(1,2)] log(2) show ?thesis
    by (simp add: position_of_def)
qed

lemma validate_entry_event_position_closed:
  assumes "closed_log E cas state log" and "(t, entry) \<in> set (cs_threads state)"
  shows "validate_entry_event_position state t entry (log_positions log []) = Inr ()"
  using entry_position [OF assms] by (fastforce simp: validate_entry_event_position_def result_iff)

lemma fresh_snapshot_position:
  assumes "closed_log E cas state log" and "(t, entry) \<in> set (cs_threads state)" and "fresh_snapshot E state t entry s"
  shows "validate_snapshot_event_position s (log_positions log []) = Inr ()"
  using entry_position [OF assms(1,2)] assms(3) stored_snapshot_thread [of E state t entry s]
  by (auto simp: validate_snapshot_event_position_eq_Inr fresh_snapshot_def)

lemma validate_published_fresh:
  assumes "closed_log E cas state log" and "(t, entry) \<in> set (cs_threads state)" and "fresh_snapshot E state t entry s"
    and "canonical_ts E (cs_updated_at state)"
  shows "validate_published_snapshot E state t entry s (log_positions log []) = Inr ()"
  using fresh_snapshot_position [OF assms(1-3)] assms(3,4)
  by (simp add: validate_published_snapshot_def fresh_snapshot_def)

lemma last_hash_prefix: "last_hash xs = last_hash (take (length xs) (xs @ ys))"
  by simp

text \<open>A snapshot that was current stays a valid snapshot of the thread as its entry advances.\<close>

lemma stored_snapshot_grows:
  assumes "validate_stored_snapshot E old t previous s = Inr ()"
    and "cs_chain_root_id new = cs_chain_root_id old" and "entry_status entry = entry_status previous"
    and "cs_last_chain_seq old \<le> cs_last_chain_seq new"
    and "entry_last_thread_seq previous \<le> entry_last_thread_seq entry"
    and "entry_last_thread_seq previous = entry_last_thread_seq entry \<Longrightarrow>
      entry_last_event_hash previous = entry_last_event_hash entry"
  shows "validate_stored_snapshot E new t entry s = Inr ()"
  using assms by (auto simp: validate_stored_snapshot_def result_iff)

lemma snapshot_closed_grows:
  assumes "snapshot_closed E cas old events t previous" and "map_of cas \<subseteq>\<^sub>m map_of cas'"
    and "map_of events \<subseteq>\<^sub>m map_of events'" and "instant E (cs_updated_at old) \<le> instant E (cs_updated_at new)"
    and "entry_snapshot_hash entry = entry_snapshot_hash previous"
    and "\<And>s. validate_stored_snapshot E old t previous s = Inr () \<Longrightarrow> validate_stored_snapshot E new t entry s = Inr ()"
  shows "snapshot_closed E cas' new events' t entry"
proof -
  obtain s where s: "load_hashed_snapshot E cas (entry_snapshot_hash previous) = Inr s"
      "validate_stored_snapshot E old t previous s = Inr ()" "canonical_ts E (snap_updated_at s)"
      "instant E (snap_updated_at s) \<le> instant E (cs_updated_at old)"
      "validate_snapshot_event_position s events = Inr ()"
    using assms(1) by (auto simp: snapshot_closed_def)
  then show ?thesis
    using load_hashed_mono(2) [OF assms(2), THEN result_leD] snapshot_event_position_mono [OF assms(3), THEN result_leD]
      assms(4-6) unfolding snapshot_closed_def by (metis order_trans)
qed

lemma log_positions_mono:
  assumes "linked_log E cas root (log @ staged)"
  shows "map_of (log_positions log []) \<subseteq>\<^sub>m map_of (log_positions (log @ staged) [])"
proof -
  have pre: "linked_log E cas root log" using linked_log_prefix [OF assms, of "length log"] by simp
  have "map_of (log @ staged) h = Some e" if "map_of log h = Some e" for h e
    using that linked_log_distinct [OF assms] map_of_SomeD [OF that] by simp
  then show ?thesis
    by (auto simp: map_le_def map_of_log_positions [OF pre] map_of_log_positions [OF assms])
qed

text \<open>All that a writer has to establish for the state it publishes over \<open>old\<close>.\<close>

definition legal_successor ::
  "'z lib_env_scheme \<Rightarrow> cas \<Rightarrow> string \<Rightarrow> chain_state \<Rightarrow> chain_state \<Rightarrow> event_log \<Rightarrow> bool" where
  "legal_successor E cas h old new staged \<longleftrightarrow>
     validate_state E new = Inr () \<and> validate_chain_positions E new = Inr () \<and> bt_sorted (cs_threads new)
     \<and> cs_chain_root_id new = cs_chain_root_id old \<and> cs_prev_chain_state_hash new = Some h
     \<and> (\<forall>log. closed_log E cas old log \<longrightarrow> closed_log E cas new (log @ staged))
     \<and> instant E (cs_updated_at old) \<le> instant E (cs_updated_at new)
     \<and> (staged \<noteq> [] \<longrightarrow> instant E (cs_updated_at old) \<le> instant E (ev_ts (snd (hd staged))))
     \<and> (\<forall>t. map_of (cs_threads old) t \<noteq> None \<longrightarrow> map_of (cs_threads new) t \<noteq> None)
     \<and> (\<forall>(t, entry) \<in> set (cs_threads new). entry_grown E cas old new staged t entry)"

lemma closed_log_mono:
  "closed_log E cas state log \<Longrightarrow> map_of cas \<subseteq>\<^sub>m map_of cas' \<Longrightarrow> closed_log E cas' state log"
  by (auto simp: closed_log_def intro: linked_log_mono)

lemma closed_logs_advance:
  assumes "closed_log E cas old log" and "closed_log E cas new (log @ staged)"
    and "(t, previous) \<in> set (cs_threads old)" and "(t, entry) \<in> set (cs_threads new)"
  shows "entry_last_thread_seq previous \<le> entry_last_thread_seq entry"
    and "entry_last_thread_seq previous = entry_last_thread_seq entry \<Longrightarrow>
      entry_last_event_hash previous = entry_last_event_hash entry"
  using closed_log_entry [OF assms(1,3)] closed_log_entry [OF assms(2,4)] by simp_all

lemma successor_closure:
  assumes suc: "legal_successor E cas' h old new staged" and sub: "map_of cas \<subseteq>\<^sub>m map_of cas'"
    and sorted: "bt_sorted (cs_threads old)" and log: "closed_log E cas old log"
    and old: "\<forall>(t, entry) \<in> set (cs_threads old). snapshot_closed E cas old (log_positions log []) t entry"
  shows "validate_authoritative_closure E cas' new = Inr (log_positions (log @ staged) [])"
proof -
  note s = suc [unfolded legal_successor_def]
  have log0: "closed_log E cas' old log" using closed_log_mono [OF log sub] .
  have log': "closed_log E cas' new (log @ staged)" using s log0 by blast
  have ev: "map_of (log_positions log []) \<subseteq>\<^sub>m map_of (log_positions (log @ staged) [])"
    using log' by (intro log_positions_mono) (auto simp: closed_log_def)
  have seq: "cs_last_chain_seq old \<le> cs_last_chain_seq new" using log0 log' by (simp add: closed_log_def)
  have "snapshot_closed E cas' new (log_positions (log @ staged) []) t entry"
    if e: "(t, entry) \<in> set (cs_threads new)" for t entry
  proof -
    have g: "entry_grown E cas' old new staged t entry" using s e by blast
    show ?thesis
    proof (cases "\<exists>previous. map_of (cs_threads old) t = Some previous
        \<and> entry_snapshot_hash entry = entry_snapshot_hash previous \<and> entry_status entry = entry_status previous")
      case True
      then obtain previous where p: "(t, previous) \<in> set (cs_threads old)"
          "entry_snapshot_hash entry = entry_snapshot_hash previous" "entry_status entry = entry_status previous"
        by (blast dest: map_of_SomeD)
      have "snapshot_closed E cas old (log_positions log []) t previous" using old p(1) by blast
      then show ?thesis
      proof (rule snapshot_closed_grows [OF _ sub ev _ p(2)])
        show "instant E (cs_updated_at old) \<le> instant E (cs_updated_at new)" using s by blast
        show "validate_stored_snapshot E new t entry x = Inr ()"
          if "validate_stored_snapshot E old t previous x = Inr ()" for x
          by (rule stored_snapshot_grows [OF that _ p(3) seq closed_logs_advance [OF log0 log' p(1) e]])
            (use s in simp)
      qed
    next
      case False
      then obtain snapshot where "load_hashed_snapshot E cas' (entry_snapshot_hash entry) = Inr snapshot"
          "fresh_snapshot E new t entry snapshot"
        using g by (auto simp: entry_grown_def split: option.splits)
      then show ?thesis
        using fresh_snapshot_position [OF log' e] by (auto simp: snapshot_closed_def fresh_snapshot_def)
    qed
  qed
  then show ?thesis using closure_iff [of new E cas'] s log' by auto
qed

lemma chain_advance:
  assumes "closed_log E cas old log" and "closed_log E cas new (log @ staged)"
  shows "validate_event_advance (log_positions (log @ staged) []) ChainHistory
      (cs_last_event_hash old) (cs_last_chain_seq old) (cs_last_event_hash new) (cs_last_chain_seq new) =
    Inr (if staged = [] then None else Some (ev_ts (snd (hd staged)), ev_ts (snd (last staged))))"
proof -
  have v: "history_visits (log_positions (log @ staged) []) ChainHistory (log @ staged)"
    using assms(2) by (intro history_visits_chain) (auto simp: closed_log_def)
  have "(log @ staged) ! length log = hd staged" "(log @ staged) ! (length (log @ staged) - 1) = last staged" if "staged \<noteq> []"
    using that last_conv_nth [of "log @ staged"] by (simp_all add: nth_append hd_conv_nth)
  with validate_event_advance_visits [OF v, of "length log" "length (log @ staged)"] assms
  show ?thesis by (simp add: closed_log_def)
qed

lemma thread_advance:
  assumes "closed_log E cas new (log @ staged)" and "(t, entry) \<in> set (cs_threads new)"
  shows "\<exists>r. validate_event_advance (log_positions (log @ staged) []) (ThreadHistory t)
      (last_hash (of_thread t log)) (length (of_thread t log)) (entry_last_event_hash entry) (entry_last_thread_seq entry) = Inr r"
proof -
  have v: "history_visits (log_positions (log @ staged) []) (ThreadHistory t) (of_thread t (log @ staged))"
    using assms(1) by (intro history_visits_thread) (auto simp: closed_log_def)
  show ?thesis
    using validate_event_advance_visits [OF v, of "length (of_thread t log)" "length (of_thread t (log @ staged))"]
      closed_log_entry [OF assms] by auto
qed

lemma validate_new_thread_snapshot_continuation:
  assumes "snap_status s = Created" and "snap_result_project_snapshot_hash s = None"
  shows "validate_new_thread_snapshot s
     (case snap_base_project_snapshot_hash s of None \<Rightarrow> None
      | Some _ \<Rightarrow> (case snap_upstream_thread_id s of None \<Rightarrow> None
        | Some source \<Rightarrow> if P source then Some source else None)) = Inr ()"
  using assms by (auto simp: validate_new_thread_snapshot_def validate_new_thread_project_snapshots_def split: option.split)

lemma successor_entry:
  assumes suc: "legal_successor E cas h old new staged" and old: "closed_log E cas old log"
    and e: "(t, entry) \<in> set (cs_threads new)"
  shows "validate_entry_transition E cas old new (log_positions (log @ staged) [])
      (if staged = [] then None else Some (ev_ts (snd (hd staged)), ev_ts (snd (last staged)))) t entry = Inr ()"
proof -
  note s = suc [unfolded legal_successor_def]
  have log': "closed_log E cas new (log @ staged)" using s old by blast
  have ts: "canonical_ts E (cs_updated_at new)" using s validate_state_ts by blast
  have pos: "validate_entry_event_position new t entry (log_positions (log @ staged) []) = Inr ()"
    by (rule validate_entry_event_position_closed [OF log' e])
  obtain r where adv: "validate_event_advance (log_positions (log @ staged) []) (ThreadHistory t)
      (last_hash (of_thread t log)) (length (of_thread t log)) (entry_last_event_hash entry)
      (entry_last_thread_seq entry) = Inr r"
    using thread_advance [OF log' e] by blast
  have pub: "fresh_snapshot E new t entry x \<Longrightarrow>
      validate_published_snapshot E new t entry x (log_positions (log @ staged) []) = Inr ()" for x
    by (rule validate_published_fresh [OF log' e _ ts])
  have g: "entry_grown E cas old new staged t entry" using s e by blast
  show ?thesis
  proof (cases "map_of (cs_threads old) t")
    case None
    then have "of_thread t log = []" by (rule closed_log_absent [OF old])
    with None g adv pub pos show ?thesis
      using validate_new_thread_snapshot_continuation [where P = "\<lambda>source. map_of (cs_threads old) source \<noteq> None"]
      by (auto simp: entry_grown_def validate_entry_transition_def Let_def)
  next
    case (Some previous)
    then have "(t, previous) \<in> set (cs_threads old)" by (rule map_of_SomeD)
    with closed_log_entry [OF old this] Some g adv pub pos show ?thesis
      by (auto simp: entry_grown_def validate_entry_transition_def)
  qed
qed

lemma successor_transition:
  assumes suc: "legal_successor E cas h old new staged" and old: "closed_log E cas old log"
    and val: "validate_state E old = Inr ()"
  shows "validate_chain_state_transition E cas h old new (log_positions (log @ staged) []) = Inr ()"
proof -
  note s = suc [unfolded legal_successor_def]
  have log': "closed_log E cas new (log @ staged)" using s old by blast
  have ts: "canonical_ts E (cs_updated_at new)" "canonical_ts E (cs_updated_at old)"
    using s val validate_state_ts by blast+
  have kind: "cs_schema new = cs_schema old" "cs_kind new = cs_kind old"
    using s val by (auto simp: validate_state_def validate_object_kind_def result_iff)
  have staged: "canonical_ts E (ev_ts (snd (hd staged)))" "canonical_ts E (ev_ts (snd (last staged)))"
      "instant E (ev_ts (snd (last staged))) \<le> instant E (cs_updated_at new)" if "staged \<noteq> []"
  proof -
    have l: "linked_log E cas (cs_chain_root_id new) (log @ staged)" using log' by (simp add: closed_log_def)
    have "(fst (hd staged), snd (hd staged)) \<in> set (log @ staged)" "(fst (last staged), snd (last staged)) \<in> set (log @ staged)"
      using that by simp_all
    from linked_log_member(4) [OF l this(1)] linked_log_member(4) [OF l this(2)]
    show "canonical_ts E (ev_ts (snd (hd staged)))" "canonical_ts E (ev_ts (snd (last staged)))"
      by (simp_all add: validate_event_ts)
    show "instant E (ev_ts (snd (last staged))) \<le> instant E (cs_updated_at new)"
      using log' that by (auto simp: closed_log_def not_after_def)
  qed
  have entries: "for_each (\<lambda>(t, entry). validate_entry_transition E cas old new (log_positions (log @ staged) [])
      (if staged = [] then None else Some (ev_ts (snd (hd staged)), ev_ts (snd (last staged)))) t entry)
      (cs_threads new) = Inr ()"
    using successor_entry [OF suc old] by (auto simp: for_each_eq_Inr)
  have keys: "for_each (\<lambda>(t, entry). require (map_of (cs_threads new) t \<noteq> None)
      (Bail ''ChainState transition removed thread'')) (cs_threads old) = Inr ()"
  proof -
    have "map_of (cs_threads new) t \<noteq> None" if "(t, entry) \<in> set (cs_threads old)" for t entry
      using s that by (metis fst_conv image_eqI map_of_eq_None_iff)
    then show ?thesis by (auto simp: for_each_eq_Inr require_eq_Inr)
  qed
  show ?thesis
    unfolding validate_chain_state_transition_def chain_advance [OF old log']
    using s ts kind staged entries keys by (cases "staged = []") auto
qed

lemma accepted_history_successor:
  assumes old: "accepted_history E cas root states events" and sub: "map_of cas \<subseteq>\<^sub>m map_of cas'"
    and last: "last states = (h, s)" and sorted: "bt_sorted (cs_threads s)"
    and load: "load_hashed_chain_state E cas' h' = Inr s'" and suc: "legal_successor E cas' h s s' staged"
  shows "\<exists>events'. accepted_history E cas' root (states @ [(h', s')]) events'"
proof -
  have sc: "state_chain E cas root states" and closure: "validate_authoritative_closure E cas s = Inr events"
    using old last by (simp_all add: accepted_history_def)
  obtain log where log: "closed_log E cas s log" "events = log_positions log []"
    and snaps: "\<forall>(t, entry) \<in> set (cs_threads s). snapshot_closed E cas s (log_positions log []) t entry"
    and val: "validate_state E s = Inr ()"
    using closure unfolding closure_iff [OF sorted] by blast
  have log': "closed_log E cas' s log" "closed_log E cas' s' (log @ staged)"
    using closed_log_mono [OF log(1) sub] suc by (auto simp: legal_successor_def)
  have root: "cs_chain_root_id s = root" using state_chain_last [OF sc] last by auto
  have "accepted_history E cas' root (states @ [(h', s')]) (log_positions (log @ staged) [])"
  proof (rule accepted_history_extend [OF old sub load])
    show "validate_authoritative_closure E cas' s' = Inr (log_positions (log @ staged) [])"
      by (rule successor_closure [OF suc sub sorted log(1) snaps])
    show "map_of events \<subseteq>\<^sub>m map_of (log_positions (log @ staged) [])"
      using log'(2) unfolding log(2) by (intro log_positions_mono) (auto simp: closed_log_def)
    show "cs_prev_chain_state_hash s' = last_hash states"
      using suc last state_chain_nonempty [OF sc] by (simp add: legal_successor_def last_hash_def)
    show "cs_chain_root_id s' = root" using suc root by (simp add: legal_successor_def)
    show "validate_chain_state_transition E cas' (fst (last states)) (snd (last states)) s'
        (log_positions (log @ staged) []) = Inr ()"
      using successor_transition [OF suc log'(1) val] last by simp
  qed
  then show ?thesis by blast
qed

lemma accepted_history_mono:
  assumes "accepted_history E cas root states events" and sub: "map_of cas \<subseteq>\<^sub>m map_of cas'"
  shows "accepted_history E cas' root states events"
  using assms(1) state_chain_mono [OF _ sub] closure_mono [OF sub, THEN result_leD]
    genesis_state_mono [OF sub map_le_refl, THEN result_leD] legal_steps_mono [OF _ sub map_le_refl]
  unfolding accepted_history_def by blast

lemma history_mono:
  assumes "map_of cas \<subseteq>\<^sub>m map_of cas'" and "validate_authoritative_history E cas root target ancestor = Inr ()"
  shows "validate_authoritative_history E cas' root target ancestor = Inr ()"
  using accepted_history_mono [OF _ assms(1)] assms(2) unfolding history_iff by blast

lemma history_any_ancestor:
  "validate_authoritative_history E cas root target ancestor = Inr ()
    \<Longrightarrow> validate_authoritative_history E cas root target None = Inr ()"
  unfolding history_iff by blast

end
