(* ===== verification/Signed_Refs.thy ===== *)
theory Signed_Refs
  imports Cas_Store
begin

text \<open>
  The authority's files and the signed reference. The store holds the CAS, the signed heads
  (\<^verbatim>\<open>refs/generic/chains/<id>/head\<close>), the pending transitions of the recovery journal
  (\<^verbatim>\<open>pending/<id>.json\<close>) and the in-memory head cache of \<^verbatim>\<open>head_cache.rs\<close>. Operations map a store to
  a result and the store they leave, also when they fail. \<open>SignedRef\<close>, its signature and its
  verification are those of \<^verbatim>\<open>refs.rs\<close> and \<^verbatim>\<open>signer.rs\<close>.
\<close>

section \<open>Stateful operations\<close>

record cached_head =
  cached_hash :: string
  cached_state :: chain_state

record store =
  st_cas :: cas
  st_heads :: "string btree"
  st_pending :: "string btree"
  st_cache :: "cached_head btree"

type_synonym 'a op = "store \<Rightarrow> 'a result \<times> store"

definition op_bind :: "'a op \<Rightarrow> ('a \<Rightarrow> 'b op) \<Rightarrow> 'b op" where
  "op_bind m f = (\<lambda>s. case m s of (Inl e, s') \<Rightarrow> (Inl e, s') | (Inr x, s') \<Rightarrow> f x s')"

definition op_lift :: "'a result \<Rightarrow> 'a op" where
  "op_lift r = (\<lambda>s. (r, s))"

text \<open>A result that depends on the store, and a change of the store.\<close>

definition op_read :: "(store \<Rightarrow> 'a result) \<Rightarrow> 'a op" where
  "op_read f = (\<lambda>s. (f s, s))"

definition op_update :: "(store \<Rightarrow> store) \<Rightarrow> unit op" where
  "op_update f = (\<lambda>s. (Inr (), f s))"

named_theorems op_iff \<open>what an operation returned and left\<close>

lemma op_bind_eq [op_iff]:
  "op_bind m f s = (r, s') \<longleftrightarrow>
     (\<exists>e. m s = (Inl e, s') \<and> r = Inl e) \<or> (\<exists>x s1. m s = (Inr x, s1) \<and> f x s1 = (r, s'))"
  by (auto simp: op_bind_def split: prod.splits sum.splits)

lemma op_lift_eq [op_iff]: "op_lift x s = (r, s') \<longleftrightarrow> x = r \<and> s' = s"
  by (auto simp: op_lift_def)

lemma op_read_eq [op_iff]: "op_read f s = (r, s') \<longleftrightarrow> f s = r \<and> s' = s"
  by (auto simp: op_read_def)

lemma op_update_eq [op_iff]: "op_update f s = (r, s') \<longleftrightarrow> r = Inr () \<and> s' = f s"
  by (auto simp: op_update_def)

text \<open>\<open>op_keeps P m\<close>: \<open>m\<close> leaves the store in a state related to the first by \<open>P\<close>, error or not.\<close>

definition op_keeps :: "(store \<Rightarrow> store \<Rightarrow> bool) \<Rightarrow> 'a op \<Rightarrow> bool" where
  "op_keeps P m \<longleftrightarrow> (\<forall>s. P s (snd (m s)))"

lemma op_keepsD: "op_keeps P m \<Longrightarrow> m s = (r, s') \<Longrightarrow> P s s'"
  by (metis op_keeps_def snd_conv)

lemma op_keeps_bind:
  assumes "op_keeps P m" and "\<And>x. op_keeps P (f x)" and "\<And>a b c. P a b \<Longrightarrow> P b c \<Longrightarrow> P a c"
  shows "op_keeps P (op_bind m f)"
  unfolding op_keeps_def
proof
  fix s
  obtain r s1 where m: "m s = (r, s1)" by fastforce
  then have 1: "P s s1" using assms(1) op_keepsD by blast
  show "P s (snd (op_bind m f s))"
  proof (cases r)
    case (Inr x)
    have "P s1 (snd (f x s1))" using assms(2) by (simp add: op_keeps_def)
    with 1 assms(3) m Inr show ?thesis by (auto simp: op_bind_def)
  qed (simp add: op_bind_def m 1)
qed

lemma op_keeps_pure [simp]:
  "(\<And>s. P s s) \<Longrightarrow> op_keeps P (op_lift r)" "(\<And>s. P s s) \<Longrightarrow> op_keeps P (op_read g)"
  by (simp_all add: op_keeps_def op_lift_def op_read_def)

section \<open>The head cache\<close>

definition cache_get :: "string \<Rightarrow> store \<Rightarrow> cached_head option" where
  "cache_get chain_root_id s = map_of (st_cache s) chain_root_id"

definition cache_insert :: "string \<Rightarrow> string \<Rightarrow> chain_state \<Rightarrow> unit op" where
  "cache_insert chain_root_id hash state =
     op_update (\<lambda>s. s\<lparr> st_cache := bt_insert chain_root_id \<lparr> cached_hash = hash, cached_state = state \<rparr> (st_cache s) \<rparr>)"

definition cache_invalidate :: "string \<Rightarrow> unit op" where
  "cache_invalidate chain_root_id = op_update (\<lambda>s. s\<lparr> st_cache := bt_remove chain_root_id (st_cache s) \<rparr>)"

definition cache_clear :: "unit op" where
  "cache_clear = op_update (\<lambda>s. s\<lparr> st_cache := [] \<rparr>)"

section \<open>Signers and trust\<close>

text \<open>
  A \<open>dyn Signer\<close> is its three methods; the trust store maps fingerprints to public keys.
\<close>

record signer =
  signer_sign :: "string \<Rightarrow> string"
  signer_fingerprint :: string
  signer_verifying_key :: string

type_synonym trust_store = "string btree"

definition key_fingerprint :: "'z lib_env_scheme \<Rightarrow> string \<Rightarrow> string" where
  "key_fingerprint E key = sha256_hex E key"

definition ensure_signer_trusted :: "'z lib_env_scheme \<Rightarrow> signer \<Rightarrow> trust_store \<Rightarrow> unit result" where
  "ensure_signer_trusted E sg trust =
     ebind (require (signer_fingerprint sg = key_fingerprint E (signer_verifying_key sg))
       (Bail ''signer fingerprint/key mismatch'')) (\<lambda>_.
     ebind (ok_or (map_of trust (signer_fingerprint sg)) (Bail ''signer is not trusted'')) (\<lambda>trusted.
     require (trusted = signer_verifying_key sg) (Bail ''signer key does not match trusted key'')))"

section \<open>Signed references\<close>

record signed_ref =
  ref_schema :: nat
  ref_kind :: string
  ref_path :: string
  ref_target_hash :: string
  ref_updated_at :: string
  ref_signer :: string
  ref_signature :: string

definition signed_ref_new :: "string \<Rightarrow> string \<Rightarrow> string \<Rightarrow> string \<Rightarrow> signed_ref" where
  "signed_ref_new path target updated_at fingerprint =
     \<lparr> ref_schema = 1, ref_kind = ''signed_ref'', ref_path = path, ref_target_hash = target,
       ref_updated_at = updated_at, ref_signer = fingerprint, ref_signature = [] \<rparr>"

definition is_canonical_hash :: "string \<Rightarrow> bool" where
  "is_canonical_hash h \<longleftrightarrow> is_ok (validate_canonical_hash ''hash'' h)"

definition validate_signed_ref :: "'z lib_env_scheme \<Rightarrow> signed_ref \<Rightarrow> unit result" where
  "validate_signed_ref E r =
     ebind (require (ref_schema r = 1) (Bail ''invalid schema'')) (\<lambda>_.
     ebind (require (ref_kind r = ''signed_ref'') (Bail ''invalid kind'')) (\<lambda>_.
     ebind (require (ref_path r \<noteq> []) (Bail ''ref_path must not be empty'')) (\<lambda>_.
     ebind (require (is_canonical_hash (ref_target_hash r)) (Bail ''invalid target_hash'')) (\<lambda>_.
     ebind (parse_canonical_timestamp E (ref_updated_at r)) (\<lambda>_.
     ebind (validate_canonical_hash ''signer'' (ref_signer r)) (\<lambda>_.
     require (ref_signature r \<noteq> []) (Bail ''signature must not be empty'')))))))"

definition unsigned_fields :: "signed_ref \<Rightarrow> (string \<times> json) list" where
  "unsigned_fields r =
     [(''schema'', json_nat (ref_schema r)), (''kind'', JString (ref_kind r)),
      (''ref_path'', JString (ref_path r)), (''target_hash'', JString (ref_target_hash r)),
      (''updated_at'', JString (ref_updated_at r)), (''signer'', JString (ref_signer r))]"

definition without_signature :: "signed_ref \<Rightarrow> json" where
  "without_signature r = json_object (unsigned_fields r)"

definition signed_ref_fields :: "signed_ref \<Rightarrow> (string \<times> json) list" where
  "signed_ref_fields r = unsigned_fields r @ [(''signature'', JString (ref_signature r))]"

definition signed_ref_to_value :: "signed_ref \<Rightarrow> json" where
  "signed_ref_to_value r = json_object (signed_ref_fields r)"

definition signed_ref_keys :: "string list" where
  "signed_ref_keys = [''schema'', ''kind'', ''ref_path'', ''target_hash'', ''updated_at'', ''signer'', ''signature'']"

definition signed_ref_from_value :: "json \<Rightarrow> signed_ref option" where
  "signed_ref_from_value v = do {
     m \<leftarrow> known_fields signed_ref_keys v;
     schema \<leftarrow> required m ''schema'' decode_u32;
     kind \<leftarrow> required m ''kind'' decode_string;
     path \<leftarrow> required m ''ref_path'' decode_string;
     target \<leftarrow> required m ''target_hash'' decode_string;
     updated_at \<leftarrow> required m ''updated_at'' decode_string;
     fingerprint \<leftarrow> required m ''signer'' decode_string;
     signature \<leftarrow> required m ''signature'' decode_string;
     Some \<lparr> ref_schema = schema, ref_kind = kind, ref_path = path, ref_target_hash = target,
       ref_updated_at = updated_at, ref_signer = fingerprint, ref_signature = signature \<rparr> }"

definition encode_signed_ref :: "'z lib_env_scheme \<Rightarrow> signer \<Rightarrow> signed_ref \<Rightarrow> string result" where
  "encode_signed_ref E sg r =
     (let canonical = canonical_json E (without_signature r);
          r' = r\<lparr> ref_signature := base64_encode E (signer_sign sg canonical) \<rparr>
      in ebind (validate_signed_ref E r') (\<lambda>_. Inr (canonical_json E (signed_ref_to_value r'))))"

definition read_signed_ref :: "'z lib_env_scheme \<Rightarrow> string \<Rightarrow> signed_ref result" where
  "read_signed_ref E content =
     ebind (require (valid_utf8 content) (Io ''failed to read signed ref'')) (\<lambda>_.
     ebind (ok_or (json_from_slice E content) (Decode ''signed ref JSON'')) (\<lambda>v.
     ebind (ok_or (signed_ref_from_value v) (Decode ''signed ref'')) (\<lambda>r.
     ebind (validate_signed_ref E r) (\<lambda>_. Inr r))))"

definition verify_signed_ref :: "'z lib_env_scheme \<Rightarrow> signed_ref \<Rightarrow> trust_store \<Rightarrow> unit result" where
  "verify_signed_ref E r trust =
     ebind (validate_signed_ref E r) (\<lambda>_.
     ebind (ok_or (map_of trust (ref_signer r)) (Bail ''signer not in trust store'')) (\<lambda>pubkey.
     ebind (ok_or (base64_decode E (ref_signature r)) (Decode ''signature'')) (\<lambda>sig.
     ebind (require (length sig = 64) (Bail ''failed to parse signature'')) (\<lambda>_.
     require (ed25519_verify E pubkey (canonical_json E (without_signature r)) sig)
       (Bail ''signature verification failed'')))))"

definition read_verified_ref ::
  "'z lib_env_scheme \<Rightarrow> trust_store \<Rightarrow> string option \<Rightarrow> signed_ref option result" where
  "read_verified_ref E trust file =
     (case file of
        None \<Rightarrow> Inr None
      | Some content \<Rightarrow>
          ebind (read_signed_ref E content) (\<lambda>r.
          ebind (verify_signed_ref E r trust) (\<lambda>_. Inr (Some r))))"

section \<open>The chain lock and the head file\<close>

text \<open>
  A \<open>ChainLock\<close> carries the chain it was acquired for; that its inode and the CAS root are still
  those in the file system is the answer at the sites \<open>LockInode\<close> and \<open>CasRoot\<close>.
\<close>

definition ensure_lock_protects :: "string \<Rightarrow> string \<Rightarrow> unit result" where
  "ensure_lock_protects lock_chain chain_root_id =
     require (lock_chain = chain_root_id) (Bail ''chain lock protects another chain'')"

definition ensure_protects :: "os \<Rightarrow> nat \<Rightarrow> string \<Rightarrow> string \<Rightarrow> unit result" where
  "ensure_protects os i lock_chain chain_root_id =
     ebind (ensure_lock_protects lock_chain chain_root_id) (\<lambda>_. os_call os (LockInode i))"

definition head_ref_path :: "string \<Rightarrow> string" where
  "head_ref_path chain_root_id = ''chains/'' @ chain_root_id @ ''/head''"

definition read_verified_head ::
  "'z lib_env_scheme \<Rightarrow> trust_store \<Rightarrow> string \<Rightarrow> store \<Rightarrow> signed_ref option result" where
  "read_verified_head E trust lock_chain s =
     ebind (read_verified_ref E trust (map_of (st_heads s) lock_chain)) (\<lambda>head.
     ebind (if_some (\<lambda>r. require (ref_path r = head_ref_path lock_chain)
         (Bail ''chain head ref_path mismatch'')) head) (\<lambda>_. Inr head))"

definition write_signed_head ::
  "'z lib_env_scheme \<Rightarrow> os \<Rightarrow> string \<Rightarrow> signed_ref \<Rightarrow> signer \<Rightarrow> unit op" where
  "write_signed_head E os lock_chain r sg =
     op_bind (op_lift (encode_signed_ref E sg r)) (\<lambda>bytes.
     op_bind (op_lift (os_call os HeadWrite)) (\<lambda>_.
     op_bind (op_update (\<lambda>s. s\<lparr> st_heads := bt_insert lock_chain bytes (st_heads s) \<rparr>)) (\<lambda>_.
     op_lift (os_call os HeadSync))))"

definition remove_head :: "os \<Rightarrow> string \<Rightarrow> bool op" where
  "remove_head os lock_chain = (\<lambda>s.
     if map_of (st_heads s) lock_chain = None then (Inr False, s)
     else op_bind (op_lift (os_call os HeadRemove)) (\<lambda>_.
       op_bind (op_update (\<lambda>s. s\<lparr> st_heads := bt_remove lock_chain (st_heads s) \<rparr>)) (\<lambda>_.
       op_bind (op_lift (os_call os HeadRemoveSync)) (\<lambda>_. op_lift (Inr True)))) s)"

section \<open>A reference reads back\<close>

lemma signed_ref_keys_distinct [simp]: "distinct signed_ref_keys"
  by (simp add: signed_ref_keys_def)

lemma map_fst_signed_ref_fields [simp]: "map fst (signed_ref_fields r) = signed_ref_keys"
  by (simp add: signed_ref_fields_def unsigned_fields_def signed_ref_keys_def)

lemma signed_ref_from_value_to_value:
  assumes "ref_schema r < u32_bound"
  shows "signed_ref_from_value (signed_ref_to_value r) = Some r"
proof -
  have f: "known_fields signed_ref_keys (signed_ref_to_value r) = Some (sort_key fst (signed_ref_fields r))"
    unfolding signed_ref_to_value_def
    by (intro fields_object) (simp_all add: signed_ref_fields_def unsigned_fields_def signed_ref_keys_def)
  show ?thesis
    unfolding signed_ref_from_value_def f using assms
    by (simp add: required_object)
       (simp add: required_def signed_ref_fields_def unsigned_fields_def codec signed_ref.equality)
qed

definition ref_strings_typed :: "signed_ref \<Rightarrow> bool" where
  "ref_strings_typed r \<longleftrightarrow>
     list_all valid_utf8 [ref_path r, ref_updated_at r, ref_signature r]"

lemma validate_signed_ref_eq_Inr [result_iff]:
  "validate_signed_ref E r = Inr u \<longleftrightarrow>
     ref_schema r = 1 \<and> ref_kind r = ''signed_ref'' \<and> ref_path r \<noteq> [] \<and> canonical_cas_hash (ref_target_hash r)
     \<and> canonical_ts E (ref_updated_at r) \<and> canonical_cas_hash (ref_signer r) \<and> ref_signature r \<noteq> []"
proof -
  have "is_canonical_hash h \<longleftrightarrow> canonical_cas_hash h" for h
    by (cases "validate_canonical_hash ''hash'' h")
      (auto simp: is_canonical_hash_def validate_canonical_hash_def canonical_cas_hash_def split: if_splits)
  then show ?thesis by (auto simp: validate_signed_ref_def result_iff)
qed

lemma read_signed_ref_encode:
  assumes "json_parser E" and "validate_signed_ref E r = Inr ()" and "ref_strings_typed r"
  shows "read_signed_ref E (canonical_json E (signed_ref_to_value r)) = Inr r"
proof -
  have v: "ref_schema r = 1" "ref_kind r = ''signed_ref''" "canonical_cas_hash (ref_target_hash r)"
    "canonical_cas_hash (ref_signer r)"
    using assms(2) by (auto simp: result_iff)
  have "valid_utf8 ''signed_ref''" "valid_utf8 ''schema''" "valid_utf8 ''kind''" "valid_utf8 ''ref_path''"
    "valid_utf8 ''target_hash''" "valid_utf8 ''updated_at''" "valid_utf8 ''signer''" "valid_utf8 ''signature''"
    by (simp_all add: valid_utf8_ascii byte_def)
  then have "json_storable E 127 (signed_ref_to_value r)"
    using v assms(3) canonical_hash_utf8
    by (simp add: signed_ref_to_value_def storable_object)
      (simp add: signed_ref_fields_def unsigned_fields_def ref_strings_typed_def)
  then have p: "json_from_slice E (canonical_json E (signed_ref_to_value r)) = Some (signed_ref_to_value r)"
    using assms(1) by (simp add: json_parser_def)
  moreover have "valid_utf8 (canonical_json E (signed_ref_to_value r))"
    using assms(1) p by (auto simp: json_parser_def)
  ultimately show ?thesis
    using signed_ref_from_value_to_value [of r] v(1) assms(2) by (simp add: read_signed_ref_def)
qed

end
