(* ===== verification/Recovery_Journal.thy ===== *)
theory Recovery_Journal
  imports Signed_Refs
begin

text \<open>
  The write-ahead journal of head changes, \<open>RecoveryStore\<close> of \<^verbatim>\<open>recovery.rs\<close>: at most one pending
  transition per chain, prepared before the signed head changes and acknowledged once the
  projections have caught up. A pending record is deserialized directly from the file, so a
  repeated field is an error there.
\<close>

section \<open>Pending transitions\<close>

datatype head_operation = OpSet | OpRemove

datatype transition_phase = Prepared | HeadPublished | ApplyingProjection

record pending_transition =
  pend_schema :: nat
  pend_transition_id :: string
  pend_chain_root_id :: string
  pend_operation :: head_operation
  pend_phase :: transition_phase
  pend_expected_previous_hash :: "string option"
  pend_target_hash :: "string option"
  pend_prepared_at :: string

definition validate_chain_root_id :: "string \<Rightarrow> unit result" where
  "validate_chain_root_id v =
     require (\<not> (v = [] \<or> length v > 255 \<or> v = ''.'' \<or> v = ''..'' \<or> CHR ''/'' \<in> set v
         \<or> backslash \<in> set v \<or> list_ex is_ascii_control v))
       (Bail ''invalid chain_root_id for recovery path'')"

definition validate_hash :: "string \<Rightarrow> string \<Rightarrow> unit result" where
  "validate_hash label hash =
     (if \<not> valid_hash hash \<or> list_ex is_ascii_uppercase hash then Inl (Bail label) else Inr ())"

definition validate_optional_hash :: "string \<Rightarrow> string option \<Rightarrow> unit result" where
  "validate_optional_hash label hash = if_some (validate_hash label) hash"

definition validate_pending :: "'z lib_env_scheme \<Rightarrow> pending_transition \<Rightarrow> unit result" where
  "validate_pending E p =
     ebind (require (pend_schema p = 1) (Bail ''unsupported pending transition schema'')) (\<lambda>_.
     ebind (validate_chain_root_id (pend_chain_root_id p)) (\<lambda>_.
     ebind (require (\<not> (pend_transition_id p = [] \<or> length (pend_transition_id p) > 128))
       (Bail ''invalid transition_id'')) (\<lambda>_.
     ebind (parse_canonical_timestamp E (pend_prepared_at p)) (\<lambda>_.
     (case pend_operation p of
        OpSet \<Rightarrow>
          ebind (validate_optional_hash ''expected_previous_hash'' (pend_expected_previous_hash p)) (\<lambda>_.
          ebind (ok_or (pend_target_hash p) (Bail ''pending Set is missing target_hash'')) (\<lambda>target.
          validate_hash ''target_hash'' target))
      | OpRemove \<Rightarrow>
          ebind (ok_or (pend_expected_previous_hash p)
            (Bail ''pending Remove is missing expected_previous_hash'')) (\<lambda>previous.
          ebind (validate_hash ''expected_previous_hash'' previous) (\<lambda>_.
          require (pend_target_hash p = None) (Bail ''pending Remove must not contain target_hash''))))))))"

section \<open>The wire form\<close>

primrec operation_str :: "head_operation \<Rightarrow> string" where
  "operation_str OpSet = ''set''"
| "operation_str OpRemove = ''remove''"

primrec phase_str :: "transition_phase \<Rightarrow> string" where
  "phase_str Prepared = ''prepared''"
| "phase_str HeadPublished = ''head_published''"
| "phase_str ApplyingProjection = ''applying_projection''"

definition dec_operation :: "json \<Rightarrow> head_operation option" where
  "dec_operation v = do {
     s \<leftarrow> decode_string v;
     if s = ''set'' then Some OpSet else if s = ''remove'' then Some OpRemove else None }"

definition dec_phase :: "json \<Rightarrow> transition_phase option" where
  "dec_phase v = do {
     s \<leftarrow> decode_string v;
     if s = ''prepared'' then Some Prepared else if s = ''head_published'' then Some HeadPublished
     else if s = ''applying_projection'' then Some ApplyingProjection else None }"

definition pending_fields :: "pending_transition \<Rightarrow> (string \<times> json) list" where
  "pending_fields p =
     [(''schema'', json_nat (pend_schema p)), (''transition_id'', JString (pend_transition_id p)),
      (''chain_root_id'', JString (pend_chain_root_id p)),
      (''operation'', JString (operation_str (pend_operation p))),
      (''phase'', JString (phase_str (pend_phase p))),
      (''expected_previous_hash'', json_option JString (pend_expected_previous_hash p)),
      (''target_hash'', json_option JString (pend_target_hash p)),
      (''prepared_at'', JString (pend_prepared_at p))]"

definition pending_to_value :: "pending_transition \<Rightarrow> json" where
  "pending_to_value p = json_object (pending_fields p)"

definition pending_keys :: "string list" where
  "pending_keys = [''schema'', ''transition_id'', ''chain_root_id'', ''operation'', ''phase'',
     ''expected_previous_hash'', ''target_hash'', ''prepared_at'']"

definition pending_from_entries :: "(string \<times> json) list \<Rightarrow> pending_transition option" where
  "pending_from_entries entries = do {
     m \<leftarrow> known_fields pending_keys (JObject entries);
     (if distinct (map fst m) then Some () else None);
     schema \<leftarrow> required m ''schema'' decode_u32;
     transition_id \<leftarrow> required m ''transition_id'' decode_string;
     chain_root_id \<leftarrow> required m ''chain_root_id'' decode_string;
     operation \<leftarrow> required m ''operation'' dec_operation;
     phase \<leftarrow> required m ''phase'' dec_phase;
     expected \<leftarrow> required m ''expected_previous_hash'' (decode_option decode_string);
     target \<leftarrow> required m ''target_hash'' (decode_option decode_string);
     prepared_at \<leftarrow> required m ''prepared_at'' decode_string;
     Some \<lparr> pend_schema = schema, pend_transition_id = transition_id, pend_chain_root_id = chain_root_id,
       pend_operation = operation, pend_phase = phase, pend_expected_previous_hash = expected,
       pend_target_hash = target, pend_prepared_at = prepared_at \<rparr> }"

definition decode_pending_bytes ::
  "'z lib_env_scheme \<Rightarrow> string \<Rightarrow> string \<Rightarrow> pending_transition result" where
  "decode_pending_bytes E bytes chain_root_id =
     ebind (ok_or (Option.bind (json_entries E bytes) pending_from_entries)
       (Decode ''pending chain transition'')) (\<lambda>p.
     ebind (validate_pending E p) (\<lambda>_.
     ebind (require (pend_chain_root_id p = chain_root_id)
       (Bail ''pending transition path/chain mismatch'')) (\<lambda>_. Inr p)))"

section \<open>Operations\<close>

fun hexadecimal :: "nat \<Rightarrow> string" where
  "hexadecimal n = (if n < 16 then [hex_digit n] else hexadecimal (n div 16) @ [hex_digit (n mod 16)])"

declare hexadecimal.simps [simp del]

definition unique_id :: "os \<Rightarrow> string \<Rightarrow> string" where
  "unique_id os prefix =
     prefix @ ''-'' @ hexadecimal (os_nanos os) @ ''-'' @ hexadecimal (os_process_id os)
       @ ''-'' @ hexadecimal (os_sequence os)"

definition read_pending ::
  "'z lib_env_scheme \<Rightarrow> os \<Rightarrow> nat \<Rightarrow> string \<Rightarrow> store \<Rightarrow> pending_transition option result" where
  "read_pending E os i chain_root_id s =
     ebind (validate_chain_root_id chain_root_id) (\<lambda>_.
     ebind (os_call os (PendingRead i)) (\<lambda>_.
     (case map_of (st_pending s) chain_root_id of
        None \<Rightarrow> Inr None
      | Some bytes \<Rightarrow> ebind (decode_pending_bytes E bytes chain_root_id) (\<lambda>p. Inr (Some p)))))"

definition list_pending :: "'z lib_env_scheme \<Rightarrow> store \<Rightarrow> pending_transition list result" where
  "list_pending E s =
     ebind (map_result (\<lambda>(chain_root_id, bytes).
       ebind (validate_chain_root_id chain_root_id) (\<lambda>_. decode_pending_bytes E bytes chain_root_id))
       (st_pending s)) (\<lambda>records. Inr (sort_key pend_chain_root_id records))"

text \<open>
  \<open>replaces\<close> says whether the record replaces the file the caller has read (\<open>Some\<close> file) or
  must create it.
\<close>

definition write_pending :: "'z lib_env_scheme \<Rightarrow> os \<Rightarrow> nat \<Rightarrow> pending_transition \<Rightarrow> bool \<Rightarrow> unit op" where
  "write_pending E os i p replaces =
     op_bind (op_lift (validate_pending E p)) (\<lambda>_.
     op_bind (op_lift (os_call os (PendingWrite i))) (\<lambda>_.
     op_bind (op_read (\<lambda>s. require ((map_of (st_pending s) (pend_chain_root_id p) \<noteq> None) = replaces)
       (Io ''pending entry changed''))) (\<lambda>_.
     op_bind (op_update (\<lambda>s. s\<lparr> st_pending :=
       bt_insert (pend_chain_root_id p) (canonical_json E (pending_to_value p)) (st_pending s) \<rparr>)) (\<lambda>_.
     op_lift (os_call os (PendingSync i))))))"

definition prepare_set ::
  "'z lib_env_scheme \<Rightarrow> os \<Rightarrow> int \<Rightarrow> string \<Rightarrow> string \<Rightarrow> string option \<Rightarrow> string \<Rightarrow> pending_transition op" where
  "prepare_set E os clock lock_chain chain_root_id expected_previous target =
     op_bind (op_lift (ensure_protects os 2 lock_chain chain_root_id)) (\<lambda>_.
     op_bind (op_lift (validate_chain_root_id chain_root_id)) (\<lambda>_.
     op_bind (op_lift (validate_optional_hash ''expected_previous_hash'' expected_previous)) (\<lambda>_.
     op_bind (op_lift (validate_hash ''target_hash'' target)) (\<lambda>_.
     op_bind (op_read (read_pending E os 0 chain_root_id)) (\<lambda>existing.
     case existing of
       Some p \<Rightarrow>
         (case pend_operation p of
            OpRemove \<Rightarrow> op_lift (Inl (Bail ''chain has a pending Remove''))
          | OpSet \<Rightarrow>
              if pend_target_hash p = Some target \<and> pend_expected_previous_hash p = expected_previous
              then op_lift (Inr p) else op_lift (Inl (Bail ''chain has a pending Set'')))
     | None \<Rightarrow>
         (let p = \<lparr> pend_schema = 1, pend_transition_id = unique_id os ''transition'',
                pend_chain_root_id = chain_root_id, pend_operation = OpSet, pend_phase = Prepared,
                pend_expected_previous_hash = expected_previous, pend_target_hash = Some target,
                pend_prepared_at = iso8601_now clock \<rparr>
          in op_bind (write_pending E os 0 p False) (\<lambda>_. op_lift (Inr p))))))))"

definition prepare_remove ::
  "'z lib_env_scheme \<Rightarrow> os \<Rightarrow> int \<Rightarrow> string \<Rightarrow> string \<Rightarrow> string \<Rightarrow> pending_transition op" where
  "prepare_remove E os clock lock_chain chain_root_id expected_previous =
     op_bind (op_lift (ensure_protects os 2 lock_chain chain_root_id)) (\<lambda>_.
     op_bind (op_lift (validate_chain_root_id chain_root_id)) (\<lambda>_.
     op_bind (op_lift (validate_hash ''expected_previous_hash'' expected_previous)) (\<lambda>_.
     op_bind (op_read (read_pending E os 0 chain_root_id)) (\<lambda>existing.
     case existing of
       Some p \<Rightarrow>
         (case pend_operation p of
            OpSet \<Rightarrow> op_lift (Inl (Bail ''chain has a pending Set''))
          | OpRemove \<Rightarrow>
              if pend_expected_previous_hash p = Some expected_previous then op_lift (Inr p)
              else op_lift (Inl (Bail ''chain already has a different pending Remove'')))
     | None \<Rightarrow>
         (let p = \<lparr> pend_schema = 1, pend_transition_id = unique_id os ''transition'',
                pend_chain_root_id = chain_root_id, pend_operation = OpRemove, pend_phase = Prepared,
                pend_expected_previous_hash = Some expected_previous, pend_target_hash = None,
                pend_prepared_at = iso8601_now clock \<rparr>
          in op_bind (write_pending E os 0 p False) (\<lambda>_. op_lift (Inr p)))))))"

definition replace_remove_with_published_set ::
  "'z lib_env_scheme \<Rightarrow> os \<Rightarrow> int \<Rightarrow> string \<Rightarrow> string \<Rightarrow> string \<Rightarrow> string \<Rightarrow> pending_transition op" where
  "replace_remove_with_published_set E os clock lock_chain chain_root_id remove_transition_id target =
     op_bind (op_lift (ensure_protects os 2 lock_chain chain_root_id)) (\<lambda>_.
     op_bind (op_lift (validate_chain_root_id chain_root_id)) (\<lambda>_.
     op_bind (op_lift (validate_hash ''target_hash'' target)) (\<lambda>_.
     op_bind (op_read (read_pending E os 0 chain_root_id)) (\<lambda>existing.
     op_bind (op_lift (ok_or existing (Bail ''pending Remove disappeared''))) (\<lambda>current.
     op_bind (op_lift (require (pend_transition_id current = remove_transition_id)
       (Bail ''pending Remove transition ID changed''))) (\<lambda>_.
     op_bind (op_lift (require (pend_operation current = OpRemove)
       (Bail ''pending transition is no longer a Remove''))) (\<lambda>_.
     op_bind (op_lift (ok_or (pend_expected_previous_hash current)
       (Bail ''pending Remove has no expected head hash''))) (\<lambda>expected_previous.
     op_bind (op_lift (require (expected_previous \<noteq> target)
       (Bail ''pending Remove still names the visible head''))) (\<lambda>_.
     let p = \<lparr> pend_schema = 1, pend_transition_id = unique_id os ''transition'',
           pend_chain_root_id = chain_root_id, pend_operation = OpSet, pend_phase = HeadPublished,
           pend_expected_previous_hash = Some expected_previous, pend_target_hash = Some target,
           pend_prepared_at = iso8601_now clock \<rparr>
     in op_bind (write_pending E os 0 p True) (\<lambda>_. op_lift (Inr p)))))))))))"

definition acknowledge :: "'z lib_env_scheme \<Rightarrow> os \<Rightarrow> string \<Rightarrow> string \<Rightarrow> string \<Rightarrow> bool op" where
  "acknowledge E os lock_chain chain_root_id transition_id =
     op_bind (op_lift (ensure_protects os 2 lock_chain chain_root_id)) (\<lambda>_.
     op_bind (op_read (read_pending E os 0 chain_root_id)) (\<lambda>existing.
     case existing of
       None \<Rightarrow> op_lift (Inr False)
     | Some current \<Rightarrow>
         if pend_transition_id current \<noteq> transition_id then op_lift (Inr False)
         else
           op_bind (op_lift (os_call os PendingRemove)) (\<lambda>_.
           op_bind (op_update (\<lambda>s. s\<lparr> st_pending := bt_remove chain_root_id (st_pending s) \<rparr>)) (\<lambda>_.
           op_bind (op_lift (os_call os PendingRemoveSync)) (\<lambda>_. op_lift (Inr True))))))"

definition phase_allowed :: "transition_phase \<Rightarrow> transition_phase \<Rightarrow> bool" where
  "phase_allowed expected new \<longleftrightarrow>
     (expected, new) \<in> {(Prepared, HeadPublished), (HeadPublished, ApplyingProjection)}"

definition advance_phase ::
  "'z lib_env_scheme \<Rightarrow> os \<Rightarrow> string \<Rightarrow> string \<Rightarrow> string \<Rightarrow> transition_phase \<Rightarrow> transition_phase
    \<Rightarrow> pending_transition op" where
  "advance_phase E os lock_chain chain_root_id transition_id expected new =
     op_bind (op_lift (ensure_protects os 3 lock_chain chain_root_id)) (\<lambda>_.
     op_bind (op_lift (require (phase_allowed expected new) (Bail ''invalid recovery phase transition''))) (\<lambda>_.
     op_bind (op_read (read_pending E os 1 chain_root_id)) (\<lambda>existing.
     op_bind (op_lift (ok_or existing (Bail ''pending transition disappeared''))) (\<lambda>current.
     op_bind (op_lift (require (pend_transition_id current = transition_id)
       (Bail ''pending transition ID changed before phase advance''))) (\<lambda>_.
     op_bind (op_lift (require (pend_phase current = expected)
       (Bail ''pending transition phase changed''))) (\<lambda>_.
     let p = current\<lparr> pend_phase := new \<rparr>
     in op_bind (write_pending E os 1 p True) (\<lambda>_. op_lift (Inr p))))))))"

definition pending_transition_object_roots :: "'z lib_env_scheme \<Rightarrow> store \<Rightarrow> string list result" where
  "pending_transition_object_roots E s =
     ebind (list_pending E s) (\<lambda>records.
     map_result (\<lambda>p.
       case pend_operation p of
         OpSet \<Rightarrow> ok_or (pend_target_hash p) (Bail ''pending Set is missing target_hash'')
       | OpRemove \<Rightarrow> ok_or (pend_expected_previous_hash p)
           (Bail ''pending Remove is missing expected_previous_hash'')) records)"

section \<open>A record reads back\<close>

lemma pending_keys_distinct [simp]: "distinct pending_keys"
  by (simp add: pending_keys_def)

lemma map_fst_pending_fields [simp]: "map fst (pending_fields p) = pending_keys"
  by (simp add: pending_fields_def pending_keys_def)

lemma dec_operation_str [codec]: "dec_operation (JString (operation_str o')) = Some o'"
  by (cases o') (simp_all add: dec_operation_def)

lemma dec_phase_str [codec]: "dec_phase (JString (phase_str p)) = Some p"
  by (cases p) (simp_all add: dec_phase_def)

lemma pending_from_entries_fields:
  assumes "pend_schema p < u32_bound"
  shows "pending_from_entries (sort_key fst (pending_fields p)) = Some p"
proof -
  have f: "known_fields pending_keys (JObject (sort_key fst (pending_fields p))) = Some (sort_key fst (pending_fields p))"
    using fields_object [of "pending_fields p" pending_keys]
    by (simp add: json_object_def) (simp add: pending_fields_def pending_keys_def)
  have d: "distinct (map fst (sort_key fst (pending_fields p)))"
    using bt_sorted_sort_key [of "pending_fields p"] by (simp add: bt_sorted_distinct)
  show ?thesis
    unfolding pending_from_entries_def f using assms d
    by (simp add: required_object)
       (simp add: required_def pending_fields_def codec pending_transition.equality)
qed

definition pending_typed :: "pending_transition \<Rightarrow> bool" where
  "pending_typed p \<longleftrightarrow> valid_utf8 (pend_transition_id p) \<and> valid_utf8 (pend_chain_root_id p)"

lemma validate_hash_utf8: "validate_hash label h = Inr () \<Longrightarrow> valid_utf8 h"
  by (rule canonical_hash_utf8) (simp add: validate_hash_def canonical_cas_hash_def split: if_splits)

lemma validate_pending_facts:
  assumes "validate_pending E p = Inr ()"
  shows "pend_schema p = 1" "canonical_ts E (pend_prepared_at p)"
    "\<And>h. pend_expected_previous_hash p = Some h \<Longrightarrow> valid_utf8 h" "\<And>h. pend_target_hash p = Some h \<Longrightarrow> valid_utf8 h"
  using assms validate_hash_utf8
  by (auto simp: validate_pending_def validate_optional_hash_def result_iff split: head_operation.splits)

lemma decode_pending_encode:
  assumes "json_parser E" and "validate_pending E p = Inr ()" and "pending_typed p"
  shows "decode_pending_bytes E (canonical_json E (pending_to_value p)) (pend_chain_root_id p) = Inr p"
proof -
  note v = validate_pending_facts [OF assms(2)]
  have "\<forall>k \<in> set pending_keys. valid_utf8 k"
    by (simp add: pending_keys_def valid_utf8_ascii byte_def)
  moreover have "valid_utf8 (operation_str (pend_operation p))"
    by (cases "pend_operation p") (simp_all add: valid_utf8_ascii byte_def)
  moreover have "valid_utf8 (phase_str (pend_phase p))"
    by (cases "pend_phase p") (simp_all add: valid_utf8_ascii byte_def)
  ultimately have "json_storable E 127 (pending_to_value p)"
    using v assms(3) canonical_ts_utf8 [OF v(2)]
    by (simp add: pending_to_value_def storable_object)
      (simp add: pending_fields_def pending_keys_def pending_typed_def)
  then have "json_entries E (canonical_json E (pending_to_value p)) = Some (sort_key fst (pending_fields p))"
    using assms(1) by (simp add: json_parser_def pending_to_value_def json_object_def)
  then show ?thesis
    using pending_from_entries_fields [of p] v(1) assms(2) by (simp add: decode_pending_bytes_def)
qed

section \<open>What the journal records\<close>

definition journalled :: "'z lib_env_scheme \<Rightarrow> string \<Rightarrow> pending_transition \<Rightarrow> store \<Rightarrow> bool" where
  "journalled E c p s \<longleftrightarrow> (\<exists>bytes. map_of (st_pending s) c = Some bytes \<and> decode_pending_bytes E bytes c = Inr p)"

lemma read_pending_eq_Inr:
  "read_pending E os i c s = Inr (Some p) \<Longrightarrow> journalled E c p s"
  by (auto simp: read_pending_def journalled_def result_iff split: option.splits)

lemma journalled_unique: "journalled E c p s \<Longrightarrow> journalled E c q s \<Longrightarrow> p = q"
  by (auto simp: journalled_def)

lemma hexadecimal_ascii: "list_all (\<lambda>c. byte c < 128) (hexadecimal n)"
proof (induction n rule: hexadecimal.induct)
  case (1 n)
  have "byte (hex_digit m) < 128" if "m < 16" for m using that by (simp add: hex_digit_def)
  with 1 show ?case by (subst hexadecimal.simps) simp
qed

lemma unique_id_utf8: "valid_utf8 (unique_id os ''transition'')"
  unfolding unique_id_def
  by (intro valid_utf8_append valid_utf8_ascii [OF hexadecimal_ascii]) (simp_all add: valid_utf8_ascii byte_def)

lemma journalled_utf8:
  assumes "json_parser E" and "journalled E c p s"
  shows "pending_typed p" and "validate_pending E p = Inr ()" and "pend_chain_root_id p = c"
proof -
  obtain bytes m where m: "json_entries E bytes = Some m" "pending_from_entries m = Some p"
      and v: "validate_pending E p = Inr ()" "pend_chain_root_id p = c"
    using assms(2) by (auto simp: journalled_def decode_pending_bytes_def result_iff bind_eq_Some_conv)
  show "validate_pending E p = Inr ()" "pend_chain_root_id p = c" by (fact v)+
  have wf: "json_wf v" if "map_of m k = Some v" for k v
    using assms(1) m(1) map_of_SomeD [OF that] unfolding json_parser_def by fastforce
  have "valid_utf8 s" if "required m k decode_string = Some s" for k s
    using that decode_string_wf [OF _ wf] by (auto simp: required_def split: option.splits)
  then show "pending_typed p"
    using m(2) by (auto simp: pending_from_entries_def pending_typed_def bind_eq_Some_conv split: if_splits)
qed

lemma write_pending_effect:
  assumes "write_pending E os i p b s = (r, s')" and "json_parser E" and "pending_typed p"
  shows "s' = s \<and> (\<exists>e. r = Inl e) \<or>
    s' = s\<lparr> st_pending := bt_insert (pend_chain_root_id p) (canonical_json E (pending_to_value p)) (st_pending s) \<rparr>
    \<and> journalled E (pend_chain_root_id p) p s'"
  using assms(1) decode_pending_encode [OF assms(2) _ assms(3)]
  by (auto simp: write_pending_def op_bind_eq op_lift_eq op_read_eq op_update_eq journalled_def)

lemma prepare_set_effect:
  assumes "prepare_set E os clock l c e t s = (Inr p, s')" and "json_parser E" and "valid_utf8 c"
  shows "journalled E c p s' \<and> pend_operation p = OpSet \<and> pend_target_hash p = Some t
    \<and> pend_expected_previous_hash p = e"
proof -
  obtain existing where ex: "read_pending E os 0 c s = Inr existing"
    and run: "(case existing of
       Some p \<Rightarrow>
         (case pend_operation p of
            OpRemove \<Rightarrow> op_lift (Inl (Bail ''chain has a pending Remove''))
          | OpSet \<Rightarrow>
              if pend_target_hash p = Some t \<and> pend_expected_previous_hash p = e
              then op_lift (Inr p) else op_lift (Inl (Bail ''chain has a pending Set'')))
     | None \<Rightarrow>
         (let p = \<lparr> pend_schema = 1, pend_transition_id = unique_id os ''transition'',
                pend_chain_root_id = c, pend_operation = OpSet, pend_phase = Prepared,
                pend_expected_previous_hash = e, pend_target_hash = Some t,
                pend_prepared_at = iso8601_now clock \<rparr>
          in op_bind (write_pending E os 0 p False) (\<lambda>_. op_lift (Inr p)))) s = (Inr p, s')"
    using assms(1) unfolding prepare_set_def by (auto simp: op_bind_eq op_lift_eq op_read_eq simp del: One_nat_def)
  show ?thesis
  proof (cases existing)
    case None
    let ?p = "\<lparr> pend_schema = 1, pend_transition_id = unique_id os ''transition'', pend_chain_root_id = c,
        pend_operation = OpSet, pend_phase = Prepared, pend_expected_previous_hash = e, pend_target_hash = Some t,
        pend_prepared_at = iso8601_now clock \<rparr>"
    have w: "write_pending E os 0 ?p False s = (Inr (), s')" "p = ?p"
      using run None by (auto simp: Let_def op_bind_eq op_lift_eq)
    have "pending_typed ?p" using assms(3) unique_id_utf8 by (simp add: pending_typed_def)
    from write_pending_effect [OF w(1) assms(2) this] w(2) show ?thesis by auto
  next
    case (Some q)
    then show ?thesis
      using run read_pending_eq_Inr [OF ex [unfolded Some]]
      by (auto simp: op_lift_eq split: head_operation.splits if_splits)
  qed
qed

lemma advance_phase_effect:
  assumes "advance_phase E os l c i from_phase to_phase s = (r, s')" and "json_parser E" and "journalled E c p s"
  shows "journalled E c p s' \<or> journalled E c (p\<lparr> pend_phase := to_phase \<rparr>) s'"
proof -
  consider "s' = s" | q r1 where "read_pending E os 1 c s = Inr (Some q)"
      "write_pending E os 1 (q\<lparr> pend_phase := to_phase \<rparr>) True s = (r1, s')"
    using assms(1) by (auto simp: advance_phase_def op_bind_eq op_lift_eq op_read_eq Let_def ok_or_eq_Inr)
  then show ?thesis
  proof cases
    case 2
    then have q: "q = p" using read_pending_eq_Inr journalled_unique assms(3) by blast
    have "pending_typed (p\<lparr> pend_phase := to_phase \<rparr>)" "pend_chain_root_id p = c"
      using journalled_utf8 [OF assms(2,3)] by (simp_all add: pending_typed_def)
    with write_pending_effect [OF 2(2) assms(2)] q assms(3) show ?thesis by auto
  qed (use assms(3) in simp)
qed

end
