(* ===== verification/Chain_Ops.thy ===== *)
theory Chain_Ops
  imports Chain_Validation Recovery_Journal
begin

text \<open>
  The writers of authoritative history and its reader, \<^verbatim>\<open>chain.rs\<close>: creating a chain (with and
  without initial events), appending events and snapshot updates, adding a thread (with and
  without events), the combined add-and-append, and the reading of a snapshot. Every writer
  builds its whole prospective closure in memory, writes it to the CAS in one batch, journals
  the head change and only then publishes the signed head.
\<close>

section \<open>Inputs and results\<close>

record snapshot_update =
  upd_thread_id :: string
  upd_new_snapshot :: thread_snapshot

record create_result =
  cr_chain_state_hash :: string
  cr_snapshot_hash :: string
  cr_snapshot :: thread_snapshot
  cr_events :: "thread_event list"

record append_result =
  ar_chain_state_hash :: string
  ar_first_chain_seq :: nat
  ar_event_count :: nat
  ar_events :: "thread_event list"
  ar_snapshot_updates :: "snapshot_update list"

record add_thread_result =
  at_chain_state_hash :: string
  at_snapshot_hash :: string
  at_snapshot :: thread_snapshot
  at_first_chain_seq :: nat
  at_event_count :: nat
  at_events :: "thread_event list"
  at_snapshot_updates :: "snapshot_update list"

text \<open>
  Who writes where: the signer, the trust store, and the chain named by the operation and by the
  lock the caller holds.
\<close>

record authority =
  au_signer :: signer
  au_trust :: trust_store
  au_lock_chain :: string
  au_chain_root_id :: string

section \<open>Reading the current head\<close>

definition read_cas_object ::
  "'z lib_env_scheme \<Rightarrow> os \<Rightarrow> os_site \<Rightarrow> (json \<Rightarrow> 'o result) \<Rightarrow> cas \<Rightarrow> string \<Rightarrow> 'o result" where
  "read_cas_object E os site dec cas hash =
     ebind (os_call os site) (\<lambda>_.
     ebind (get_object E cas hash) (\<lambda>found.
     ebind (ok_or found (Bail ''CAS object is absent'')) dec))"

definition verify_expected_current_head ::
  "'z lib_env_scheme \<Rightarrow> os \<Rightarrow> nat \<Rightarrow> authority \<Rightarrow> string option \<Rightarrow> store \<Rightarrow> unit result" where
  "verify_expected_current_head E os i au expected_previous s =
     ebind (ensure_lock_protects (au_lock_chain au) (au_chain_root_id au)) (\<lambda>_.
     ebind (os_call os (HeadRead i)) (\<lambda>_.
     ebind (read_verified_head E (au_trust au) (au_lock_chain au) s) (\<lambda>current.
     (case (current, expected_previous) of
        (None, None) \<Rightarrow> Inr ()
      | (Some _, None) \<Rightarrow> Inl (Bail ''chain already has a signed head'')
      | (None, Some _) \<Rightarrow> Inl (Bail ''chain head disappeared'')
      | (Some r, Some expected) \<Rightarrow>
          require (ref_target_hash r = expected) (Bail ''chain head conflict'')))))"

definition read_head_state ::
  "'z lib_env_scheme \<Rightarrow> os \<Rightarrow> nat \<Rightarrow> authority \<Rightarrow> store \<Rightarrow> (string \<times> chain_state) result" where
  "read_head_state E os i au s =
     ebind (ensure_lock_protects (au_lock_chain au) (au_chain_root_id au)) (\<lambda>_.
     ebind (os_call os (HeadRead i)) (\<lambda>_.
     ebind (read_verified_head E (au_trust au) (au_lock_chain au) s) (\<lambda>head.
     ebind (ok_or head (Bail ''signed ref not found'')) (\<lambda>r.
     ebind (read_cas_object E os (CasRoot 0) state_decode (st_cas s) (ref_target_hash r)) (\<lambda>state.
     ebind (validate_state E state) (\<lambda>_.
     ebind (validate_chain_positions E state) (\<lambda>_.
     ebind (require (cs_chain_root_id state = au_chain_root_id au)
       (Bail ''chain head object root mismatch'')) (\<lambda>_.
     ebind (require (hash_chain_state E state = ref_target_hash r)
       (Bail ''chain head object is not canonically encoded'')) (\<lambda>_.
     Inr (ref_target_hash r, state))))))))))"

definition read_chain_head_for_mutation ::
  "'z lib_env_scheme \<Rightarrow> os \<Rightarrow> nat \<Rightarrow> authority \<Rightarrow> chain_state op" where
  "read_chain_head_for_mutation E os i au =
     op_bind (op_read (read_head_state E os i au)) (\<lambda>(hash, state).
     op_bind (cache_insert (au_chain_root_id au) hash state) (\<lambda>_. op_lift (Inr state)))"

definition validate_snapshot_last_event_object ::
  "'z lib_env_scheme \<Rightarrow> os \<Rightarrow> nat \<Rightarrow> cas \<Rightarrow> thread_snapshot \<Rightarrow> unit result" where
  "validate_snapshot_last_event_object E os i cas snapshot =
     (case snap_last_event_hash snapshot of
        None \<Rightarrow> Inr ()
      | Some event_hash \<Rightarrow>
          ebind (read_cas_object E os (CasRoot i) event_decode cas event_hash) (\<lambda>event.
          ebind (require (hash_event E event = event_hash)
            (Bail ''snapshot last event is not canonically encoded'')) (\<lambda>_.
          validate_snapshot_last_event E snapshot event_hash event)))"

definition read_current_snapshot_for_mutation ::
  "'z lib_env_scheme \<Rightarrow> os \<Rightarrow> nat \<Rightarrow> cas \<Rightarrow> chain_state \<Rightarrow> string \<Rightarrow> thread_snapshot result" where
  "read_current_snapshot_for_mutation E os i cas state thread_id =
     ebind (ok_or (map_of (cs_threads state) thread_id) (Bail ''thread not found in chain'')) (\<lambda>entry.
     ebind (read_cas_object E os (CasRoot i) (snapshot_from_current_value E) cas (entry_snapshot_hash entry))
       (\<lambda>snapshot.
     ebind (require (hash_snapshot E snapshot = entry_snapshot_hash entry)
       (Bail ''current snapshot is not canonically encoded'')) (\<lambda>_.
     ebind (validate_stored_snapshot E state thread_id entry snapshot) (\<lambda>_.
     ebind (validate_snapshot_last_event_object E os (Suc i) cas snapshot) (\<lambda>_.
     Inr snapshot)))))"

section \<open>Staging events and snapshot updates\<close>

definition u64_try_from :: "nat \<Rightarrow> nat result" where
  "u64_try_from n = (if n < u64_bound then Inr n else Inl (Bail ''event batch is too large''))"

fun stage_events ::
  "'z lib_env_scheme \<Rightarrow> nat \<Rightarrow> nat \<Rightarrow> nat \<Rightarrow> string option \<Rightarrow> string option \<Rightarrow> thread_event list
    \<Rightarrow> (thread_event list \<times> (string \<times> string) list \<times> string option \<times> string option) result" where
  "stage_events E first base offset last_chain last_thread [] = Inr ([], [], last_chain, last_thread)"
| "stage_events E first base offset last_chain last_thread (event # events) =
     ebind (ok_or (checked_add first offset) (Bail ''chain sequence exhausted'')) (\<lambda>chain_seq.
     ebind (ok_or (Option.bind (checked_add base offset) (\<lambda>sequence. checked_add sequence 1))
       (Bail ''thread sequence exhausted'')) (\<lambda>thread_seq.
     let e = event\<lparr> ev_chain_seq := chain_seq, ev_thread_seq := thread_seq,
               ev_prev_chain_event_hash := last_chain, ev_prev_thread_event_hash := last_thread \<rparr>
     in ebind (validate_event E e) (\<lambda>_.
        let event_json = canonical_json E (event_to_value e);
            event_hash = sha256_hex E event_json
        in ebind (stage_events E first base (Suc offset) (Some event_hash) (Some event_hash) events)
             (\<lambda>(stored, writes, lc, lt). Inr (e # stored, (event_hash, event_json) # writes, lc, lt)))))"

definition validate_event_identities ::
  "'z lib_env_scheme \<Rightarrow> string \<Rightarrow> string \<Rightarrow> thread_event list \<Rightarrow> unit result" where
  "validate_event_identities E chain_root_id thread_id events =
     for_each (\<lambda>event.
       ebind (validate_event E event) (\<lambda>_.
       ebind (require (ev_chain_root_id event = chain_root_id) (Bail ''event chain_root_id mismatch'')) (\<lambda>_.
       require (ev_thread_id event = thread_id) (Bail ''event thread_id mismatch'')))) events"

text \<open>
  The first pass over the snapshot updates: each is checked against its predecessor, loaded from
  the store. \<open>added\<close> is the thread an add operation creates, which must not be updated.
\<close>

fun load_previous_snapshots ::
  "'z lib_env_scheme \<Rightarrow> os \<Rightarrow> cas \<Rightarrow> chain_state \<Rightarrow> string \<Rightarrow> string option \<Rightarrow> nat \<Rightarrow> thread_snapshot btree
    \<Rightarrow> snapshot_update list \<Rightarrow> thread_snapshot btree result" where
  "load_previous_snapshots E os cas state chain_root_id added i previous_snapshots [] = Inr previous_snapshots"
| "load_previous_snapshots E os cas state chain_root_id added i previous_snapshots (update # updates) =
     ebind (validate_update_identity (upd_thread_id update) (upd_new_snapshot update) chain_root_id) (\<lambda>_.
     ebind (require (added \<noteq> Some (upd_thread_id update))
       (Bail ''new thread snapshot must be supplied through the add operation'')) (\<lambda>_.
     ebind (require (map_of previous_snapshots (upd_thread_id update) = None)
       (Bail ''duplicate snapshot update'')) (\<lambda>_.
     ebind (read_current_snapshot_for_mutation E os (3 * i + 1) cas state (upd_thread_id update)) (\<lambda>previous.
     ebind (validate_snapshot_transition_identity previous (upd_new_snapshot update)) (\<lambda>_.
     load_previous_snapshots E os cas state chain_root_id added (Suc i)
       (bt_insert (upd_thread_id update) previous previous_snapshots) updates)))))"

text \<open>The second pass: stamp, normalize and stage each new snapshot.\<close>

fun apply_updates ::
  "'z lib_env_scheme \<Rightarrow> os \<Rightarrow> cas \<Rightarrow> nat \<Rightarrow> string \<Rightarrow> string \<Rightarrow> thread_event option \<Rightarrow> nat
    \<Rightarrow> thread_snapshot btree \<Rightarrow> chain_thread_entry btree \<Rightarrow> snapshot_update list
    \<Rightarrow> (chain_thread_entry btree \<times> (string \<times> string) list \<times> snapshot_update list) result" where
  "apply_updates E os cas final_chain_seq append_timestamp thread_id last_event i previous_snapshots threads [] =
     Inr (threads, [], [])"
| "apply_updates E os cas final_chain_seq append_timestamp thread_id last_event i previous_snapshots threads
     (update # updates) =
     ebind (expect (map_of threads (upd_thread_id update)) ''snapshot predecessor was checked above'')
       (\<lambda>prospective_entry.
     let stamped = stamp_snapshot_position (upd_new_snapshot update) prospective_entry final_chain_seq
     in ebind (expect (map_of previous_snapshots (upd_thread_id update)) ''snapshot predecessor was loaded above'')
       (\<lambda>previous.
     ebind (normalize_and_validate_snapshot_transition E previous stamped append_timestamp) (\<lambda>snapshot.
     ebind (if upd_thread_id update = thread_id then
         ebind (ok_or (snap_last_event_hash snapshot) (Bail ''snapshot is missing its final event hash'')) (\<lambda>h.
         ebind (expect last_event ''empty event lists are rejected'') (\<lambda>event.
         validate_snapshot_last_event E snapshot h event))
       else validate_snapshot_last_event_object E os (3 * i + 3) cas snapshot) (\<lambda>_.
     let snapshot_json = canonical_json E (snapshot_to_value snapshot);
         snapshot_hash = sha256_hex E snapshot_json
     in ebind (ok_or (map_of threads (upd_thread_id update)) (Bail ''unknown thread'')) (\<lambda>_.
        ebind (apply_updates E os cas final_chain_seq append_timestamp thread_id last_event (Suc i)
            (bt_remove (upd_thread_id update) previous_snapshots)
            (bt_modify (upd_thread_id update) (\<lambda>entry. entry\<lparr> entry_snapshot_hash := snapshot_hash,
               entry_status := snap_status snapshot \<rparr>) threads) updates) (\<lambda>(threads', writes, updates').
        Inr (threads', (snapshot_hash, snapshot_json) # writes,
             \<lparr> upd_thread_id = upd_thread_id update, upd_new_snapshot = snapshot \<rparr> # updates')))))))"

text \<open>The prospective chain state, validated; the writes that end with it.\<close>

definition prospective_state ::
  "'z lib_env_scheme \<Rightarrow> int \<Rightarrow> string list \<Rightarrow> string \<Rightarrow> string option \<Rightarrow> string option \<Rightarrow> nat
    \<Rightarrow> chain_thread_entry btree \<Rightarrow> chain_state result" where
  "prospective_state E clock floors chain_root_id prev last_event_hash last_chain_seq threads =
     ebind (monotonic_now E clock floors) (\<lambda>updated_at.
     let state = \<lparr> cs_schema = 1, cs_kind = ''chain_state'', cs_chain_root_id = chain_root_id,
           cs_prev_chain_state_hash = prev, cs_last_event_hash = last_event_hash,
           cs_last_chain_seq = last_chain_seq, cs_updated_at = updated_at, cs_threads = threads \<rparr>
     in ebind (validate_state E state) (\<lambda>_.
        ebind (validate_chain_positions E state) (\<lambda>_. Inr state)))"

definition state_write :: "'z lib_env_scheme \<Rightarrow> chain_state \<Rightarrow> string \<times> string" where
  "state_write E state =
     (let state_json = canonical_json E (state_to_value state) in (sha256_hex E state_json, state_json))"

definition snapshot_write :: "'z lib_env_scheme \<Rightarrow> thread_snapshot \<Rightarrow> string \<times> string" where
  "snapshot_write E snapshot =
     (let snapshot_json = canonical_json E (snapshot_to_value snapshot)
      in (sha256_hex E snapshot_json, snapshot_json))"

section \<open>Publication\<close>

definition write_cas_batch :: "os \<Rightarrow> (string \<times> string) list \<Rightarrow> unit op" where
  "write_cas_batch os writes =
     op_bind (op_lift (os_call os BatchRoot)) (\<lambda>_. \<lambda>s.
       let (r, cas) = atomic_write_batch os (st_cas s) writes in (r, s\<lparr> st_cas := cas \<rparr>))"

definition publish_chain_head ::
  "'z lib_env_scheme \<Rightarrow> os \<Rightarrow> int \<Rightarrow> authority \<Rightarrow> string option \<Rightarrow> string \<Rightarrow> string \<Rightarrow> unit op" where
  "publish_chain_head E os clock au expected_previous target updated_at =
     op_bind (op_lift (ensure_protects os 1 (au_lock_chain au) (au_chain_root_id au))) (\<lambda>_.
     op_bind (op_read (verify_expected_current_head E os 1 au expected_previous)) (\<lambda>_.
     op_bind (op_read (\<lambda>s. read_cas_object E os TargetRoot Inr (st_cas s) target)) (\<lambda>_.
     op_bind (prepare_set E os clock (au_lock_chain au) (au_chain_root_id au) expected_previous target) (\<lambda>pending.
     op_bind (write_signed_head E os (au_lock_chain au)
       (signed_ref_new (head_ref_path (au_chain_root_id au)) target updated_at
         (signer_fingerprint (au_signer au))) (au_signer au)) (\<lambda>_.
     if pend_phase pending = Prepared then
       op_bind (advance_phase E os (au_lock_chain au) (au_chain_root_id au) (pend_transition_id pending)
         Prepared HeadPublished) (\<lambda>_. op_lift (Inr ()))
     else op_lift (Inr ()))))))"

text \<open>
  The end of every writer: the batch, the publication, the cache. \<open>clock\<close> is the reading of the
  journal's clock.
\<close>

definition commit_closure ::
  "'z lib_env_scheme \<Rightarrow> os \<Rightarrow> int \<Rightarrow> authority \<Rightarrow> (string \<times> string) list \<Rightarrow> string option \<Rightarrow> chain_state
    \<Rightarrow> unit op" where
  "commit_closure E os clock au writes expected_previous state =
     op_bind (write_cas_batch os writes) (\<lambda>_.
     op_bind (publish_chain_head E os clock au expected_previous (hash_chain_state E state) (cs_updated_at state)) (\<lambda>_.
     cache_insert (au_chain_root_id au) (hash_chain_state E state) state))"

section \<open>Creating a chain\<close>

definition genesis_entry :: "string \<Rightarrow> thread_status \<Rightarrow> chain_thread_entry" where
  "genesis_entry hash status =
     \<lparr> entry_snapshot_hash = hash, entry_last_event_hash = None, entry_last_thread_seq = 0,
       entry_status = status \<rparr>"

definition normalize_root_snapshot ::
  "'z lib_env_scheme \<Rightarrow> authority \<Rightarrow> thread_snapshot \<Rightarrow> thread_snapshot result" where
  "normalize_root_snapshot E au initial_snapshot =
     (let stamped = stamp_snapshot_position initial_snapshot
            (genesis_entry [] (snap_status initial_snapshot)) 0
      in normalize_and_validate_new_thread E stamped (au_chain_root_id au) (snap_created_at stamped) None)"

definition check_root_identity :: "authority \<Rightarrow> thread_snapshot \<Rightarrow> unit result" where
  "check_root_identity au initial_snapshot =
     require (\<not> (snap_thread_id initial_snapshot \<noteq> au_chain_root_id au
         \<or> snap_chain_root_id initial_snapshot \<noteq> au_chain_root_id au))
       (Bail ''root thread snapshot must have thread_id and chain_root_id equal to the chain root'')"

definition genesis_state ::
  "'z lib_env_scheme \<Rightarrow> int \<Rightarrow> authority \<Rightarrow> thread_snapshot \<Rightarrow> chain_state result" where
  "genesis_state E clock au snapshot =
     prospective_state E clock [snap_updated_at snapshot] (au_chain_root_id au) None None 0
       [(au_chain_root_id au, genesis_entry (hash_snapshot E snapshot) (snap_status snapshot))]"

definition create_chain ::
  "'z lib_env_scheme \<Rightarrow> os \<Rightarrow> authority \<Rightarrow> thread_snapshot \<Rightarrow> create_result op" where
  "create_chain E os au initial_snapshot =
     op_bind (op_lift (ensure_lock_protects (au_lock_chain au) (au_chain_root_id au))) (\<lambda>_.
     op_bind (op_lift (ensure_signer_trusted E (au_signer au) (au_trust au))) (\<lambda>_.
     op_bind (op_lift (check_root_identity au initial_snapshot)) (\<lambda>_.
     op_bind (op_lift (normalize_root_snapshot E au initial_snapshot)) (\<lambda>snapshot.
     op_bind (op_lift (ensure_protects os 0 (au_lock_chain au) (au_chain_root_id au))) (\<lambda>_.
     op_bind (op_read (verify_expected_current_head E os 0 au None)) (\<lambda>_.
     op_bind (op_lift (genesis_state E (os_clock os 0) au snapshot)) (\<lambda>state.
     op_bind (commit_closure E os (os_clock os 1) au [snapshot_write E snapshot, state_write E state] None state) (\<lambda>_.
     op_lift (Inr \<lparr> cr_chain_state_hash = hash_chain_state E state,
       cr_snapshot_hash = hash_snapshot E snapshot, cr_snapshot = snapshot, cr_events = [] \<rparr>)))))))))"

text \<open>The successor of the genesis state that carries the initial events.\<close>

definition root_events_state ::
  "'z lib_env_scheme \<Rightarrow> int \<Rightarrow> authority \<Rightarrow> thread_snapshot \<Rightarrow> chain_state \<Rightarrow> thread_event list
    \<Rightarrow> (thread_event list \<times> (string \<times> string) list \<times> chain_state) result" where
  "root_events_state E clock au snapshot genesis events =
     ebind (normalize_event_timestamps E events (cs_updated_at genesis)) (\<lambda>(append_timestamp, events).
     ebind (u64_try_from (length events)) (\<lambda>event_count.
     ebind (stage_events E 1 0 0 None None events) (\<lambda>(stored, writes, last_event_hash, _).
     let root_entry = \<lparr> entry_snapshot_hash = hash_snapshot E snapshot, entry_last_event_hash = last_event_hash,
           entry_last_thread_seq = event_count, entry_status = snap_status snapshot \<rparr>
     in ebind (prospective_state E clock [append_timestamp, cs_updated_at genesis] (au_chain_root_id au)
           (Some (hash_chain_state E genesis)) last_event_hash event_count
           [(au_chain_root_id au, root_entry)]) (\<lambda>state.
        Inr (stored, writes, state)))))"

definition create_chain_with_events ::
  "'z lib_env_scheme \<Rightarrow> os \<Rightarrow> authority \<Rightarrow> thread_snapshot \<Rightarrow> thread_event list \<Rightarrow> add_thread_result op" where
  "create_chain_with_events E os au initial_snapshot events =
     op_bind (op_lift (ensure_lock_protects (au_lock_chain au) (au_chain_root_id au))) (\<lambda>_.
     op_bind (op_lift (ensure_signer_trusted E (au_signer au) (au_trust au))) (\<lambda>_.
     op_bind (op_lift (check_root_identity au initial_snapshot)) (\<lambda>_.
     op_bind (op_lift (require (events \<noteq> []) (Bail ''cannot create root chain with empty event list''))) (\<lambda>_.
     op_bind (op_lift (validate_event_identities E (au_chain_root_id au) (au_chain_root_id au) events)) (\<lambda>_.
     op_bind (op_lift (normalize_root_snapshot E au initial_snapshot)) (\<lambda>snapshot.
     op_bind (op_lift (ensure_protects os 0 (au_lock_chain au) (au_chain_root_id au))) (\<lambda>_.
     op_bind (op_read (verify_expected_current_head E os 0 au None)) (\<lambda>_.
     op_bind (op_lift (genesis_state E (os_clock os 0) au snapshot)) (\<lambda>genesis.
     op_bind (op_lift (root_events_state E (os_clock os 1) au snapshot genesis events)) (\<lambda>(stored, writes, state).
     op_bind (write_cas_batch os
       ([snapshot_write E snapshot, state_write E genesis] @ writes @ [state_write E state])) (\<lambda>_.
     op_bind (op_lift (os_call os HistoryRoot)) (\<lambda>_.
     op_bind (op_read (\<lambda>s. validate_authoritative_history E (st_cas s) (au_chain_root_id au)
       (hash_chain_state E state) (Some (hash_chain_state E genesis)))) (\<lambda>_.
     op_bind (publish_chain_head E os (os_clock os 2) au None (hash_chain_state E state) (cs_updated_at state)) (\<lambda>_.
     op_bind (cache_insert (au_chain_root_id au) (hash_chain_state E state) state) (\<lambda>_.
     op_lift (Inr \<lparr> at_chain_state_hash = hash_chain_state E state, at_snapshot_hash = hash_snapshot E snapshot,
       at_snapshot = snapshot, at_first_chain_seq = 1, at_event_count = length stored, at_events = stored,
       at_snapshot_updates = [] \<rparr>))))))))))))))))"

section \<open>Appending events\<close>

definition prepare_append ::
  "'z lib_env_scheme \<Rightarrow> os \<Rightarrow> authority \<Rightarrow> string \<Rightarrow> thread_event list \<Rightarrow> snapshot_update list \<Rightarrow> chain_state
    \<Rightarrow> cas \<Rightarrow> ((string \<times> string) list \<times> chain_state \<times> append_result) result" where
  "prepare_append E os au thread_id events snapshot_updates current cas =
     ebind (ok_or (map_of (cs_threads current) thread_id) (Bail ''thread not found in chain'')) (\<lambda>current_entry.
     ebind (load_previous_snapshots E os cas current (au_chain_root_id au) None 0 [] snapshot_updates)
       (\<lambda>previous_snapshots.
     ebind (validate_event_identities E (au_chain_root_id au) thread_id events) (\<lambda>_.
     ebind (normalize_event_timestamps E events (cs_updated_at current)) (\<lambda>(append_timestamp, events).
     ebind (u64_try_from (length events)) (\<lambda>event_count.
     ebind (ok_or (checked_add (cs_last_chain_seq current) 1) (Bail ''chain sequence exhausted'')) (\<lambda>first_chain_seq.
     ebind (ok_or (checked_add (cs_last_chain_seq current) event_count)
       (Bail ''chain sequence exhausted'')) (\<lambda>final_chain_seq.
     ebind (ok_or (checked_add (entry_last_thread_seq current_entry) event_count)
       (Bail ''thread sequence exhausted'')) (\<lambda>final_thread_seq.
     ebind (stage_events E first_chain_seq (entry_last_thread_seq current_entry) 0
       (cs_last_event_hash current) (entry_last_event_hash current_entry) events)
       (\<lambda>(stored, event_writes, last_event_hash, last_thread_event_hash).
     ebind (expect (map_of (cs_threads current) thread_id) ''appending thread was checked above'') (\<lambda>_.
     ebind (apply_updates E os cas final_chain_seq append_timestamp thread_id
         (if stored = [] then None else Some (last stored)) 0 previous_snapshots
         (bt_modify thread_id (\<lambda>entry. entry\<lparr> entry_last_event_hash := last_thread_event_hash,
            entry_last_thread_seq := final_thread_seq \<rparr>) (cs_threads current)) snapshot_updates)
       (\<lambda>(new_threads, snapshot_writes, updates).
     ebind (validate_untouched_entries (cs_threads current) new_threads
       (map upd_thread_id updates @ [thread_id])) (\<lambda>_.
     ebind (prospective_state E (os_clock os 0)
         ([cs_updated_at current, append_timestamp] @ map (\<lambda>u. snap_updated_at (upd_new_snapshot u)) updates)
         (au_chain_root_id au) (Some (hash_chain_state E current)) last_event_hash final_chain_seq new_threads)
       (\<lambda>state.
     Inr (event_writes @ snapshot_writes @ [state_write E state], state,
       \<lparr> ar_chain_state_hash = hash_chain_state E state, ar_first_chain_seq = first_chain_seq,
         ar_event_count = length stored, ar_events = stored, ar_snapshot_updates = updates \<rparr>))))))))))))))"

definition append_events ::
  "'z lib_env_scheme \<Rightarrow> os \<Rightarrow> authority \<Rightarrow> string \<Rightarrow> thread_event list \<Rightarrow> snapshot_update list
    \<Rightarrow> append_result op" where
  "append_events E os au thread_id events snapshot_updates =
     op_bind (op_lift (require (events \<noteq> []) (Bail ''cannot append empty event list''))) (\<lambda>_.
     op_bind (op_lift (ensure_lock_protects (au_lock_chain au) (au_chain_root_id au))) (\<lambda>_.
     op_bind (op_lift (ensure_signer_trusted E (au_signer au) (au_trust au))) (\<lambda>_.
     op_bind (read_chain_head_for_mutation E os 0 au) (\<lambda>current.
     op_bind (op_read (\<lambda>s. prepare_append E os au thread_id events snapshot_updates current (st_cas s)))
       (\<lambda>(writes, state, result).
     op_bind (commit_closure E os (os_clock os 1) au writes (cs_prev_chain_state_hash state) state) (\<lambda>_.
     op_lift (Inr result)))))))"

section \<open>Adding a thread\<close>

definition check_new_thread :: "authority \<Rightarrow> thread_snapshot \<Rightarrow> unit result" where
  "check_new_thread au snapshot =
     ebind (require (snap_chain_root_id snapshot = au_chain_root_id au)
       (Bail ''snapshot chain_root_id mismatch'')) (\<lambda>_.
     require (snap_thread_id snapshot \<noteq> au_chain_root_id au) (Bail ''use create_chain() for root threads''))"

definition prepare_add_thread ::
  "'z lib_env_scheme \<Rightarrow> os \<Rightarrow> authority \<Rightarrow> thread_snapshot \<Rightarrow> chain_state
    \<Rightarrow> ((string \<times> string) list \<times> chain_state \<times> create_result) result" where
  "prepare_add_thread E os au new_snapshot current =
     ebind (require (map_of (cs_threads current) (snap_thread_id new_snapshot) = None)
       (Bail ''thread already exists in chain'')) (\<lambda>_.
     ebind (normalize_and_validate_new_thread E
         (stamp_snapshot_position new_snapshot (genesis_entry [] (snap_status new_snapshot)) (cs_last_chain_seq current))
         (au_chain_root_id au) (cs_updated_at current) None) (\<lambda>snapshot.
     ebind (prospective_state E (os_clock os 0) [cs_updated_at current, snap_updated_at snapshot]
         (au_chain_root_id au) (Some (hash_chain_state E current)) (cs_last_event_hash current)
         (cs_last_chain_seq current)
         (bt_insert (snap_thread_id snapshot)
           (genesis_entry (hash_snapshot E snapshot) (snap_status snapshot)) (cs_threads current))) (\<lambda>state.
     Inr ([snapshot_write E snapshot, state_write E state], state,
       \<lparr> cr_chain_state_hash = hash_chain_state E state, cr_snapshot_hash = hash_snapshot E snapshot,
         cr_snapshot = snapshot, cr_events = [] \<rparr>))))"

definition add_thread_to_chain ::
  "'z lib_env_scheme \<Rightarrow> os \<Rightarrow> authority \<Rightarrow> thread_snapshot \<Rightarrow> create_result op" where
  "add_thread_to_chain E os au new_snapshot =
     op_bind (op_lift (ensure_lock_protects (au_lock_chain au) (au_chain_root_id au))) (\<lambda>_.
     op_bind (op_lift (ensure_signer_trusted E (au_signer au) (au_trust au))) (\<lambda>_.
     op_bind (op_lift (check_new_thread au new_snapshot)) (\<lambda>_.
     op_bind (read_chain_head_for_mutation E os 0 au) (\<lambda>current.
     op_bind (op_lift (prepare_add_thread E os au new_snapshot current)) (\<lambda>(writes, state, result).
     op_bind (commit_closure E os (os_clock os 1) au writes (cs_prev_chain_state_hash state) state) (\<lambda>_.
     op_lift (Inr result)))))))"

definition prepare_add_thread_with_events ::
  "'z lib_env_scheme \<Rightarrow> os \<Rightarrow> authority \<Rightarrow> thread_snapshot \<Rightarrow> thread_event list \<Rightarrow> chain_state
    \<Rightarrow> ((string \<times> string) list \<times> chain_state \<times> add_thread_result) result" where
  "prepare_add_thread_with_events E os au new_snapshot events current =
     ebind (require (map_of (cs_threads current) (snap_thread_id new_snapshot) = None)
       (Bail ''thread already exists in chain'')) (\<lambda>_.
     ebind (normalize_event_timestamps E events (cs_updated_at current)) (\<lambda>(append_timestamp, events).
     ebind (u64_try_from (length events)) (\<lambda>event_count.
     ebind (ok_or (checked_add (cs_last_chain_seq current) 1) (Bail ''chain sequence exhausted'')) (\<lambda>first_chain_seq.
     ebind (ok_or (checked_add (cs_last_chain_seq current) event_count)
       (Bail ''chain sequence exhausted'')) (\<lambda>final_chain_seq.
     ebind (stage_events E first_chain_seq 0 0 (cs_last_event_hash current) None events)
       (\<lambda>(stored, event_writes, last_event_hash, last_thread_event_hash).
     let new_entry = \<lparr> entry_snapshot_hash = [], entry_last_event_hash = last_thread_event_hash,
           entry_last_thread_seq = event_count, entry_status = snap_status new_snapshot \<rparr>
     in ebind (normalize_and_validate_new_thread E (stamp_snapshot_position new_snapshot new_entry final_chain_seq)
           (au_chain_root_id au) append_timestamp None) (\<lambda>snapshot.
     ebind (ok_or (snap_last_event_hash snapshot)
       (Bail ''new thread snapshot is missing its final event hash'')) (\<lambda>h.
     ebind (expect (if stored = [] then None else Some (last stored)) ''empty event lists are rejected'') (\<lambda>last_event.
     ebind (validate_snapshot_last_event E snapshot h last_event) (\<lambda>_.
     ebind (prospective_state E (os_clock os 0) [cs_updated_at current, append_timestamp, snap_updated_at snapshot]
         (au_chain_root_id au) (Some (hash_chain_state E current)) last_event_hash final_chain_seq
         (bt_insert (snap_thread_id snapshot) (new_entry\<lparr> entry_snapshot_hash := hash_snapshot E snapshot \<rparr>)
           (cs_threads current))) (\<lambda>state.
     Inr (event_writes @ [snapshot_write E snapshot, state_write E state], state,
       \<lparr> at_chain_state_hash = hash_chain_state E state, at_snapshot_hash = hash_snapshot E snapshot,
         at_snapshot = snapshot, at_first_chain_seq = first_chain_seq, at_event_count = length stored,
         at_events = stored, at_snapshot_updates = [] \<rparr>))))))))))))"

definition add_thread_to_chain_with_events ::
  "'z lib_env_scheme \<Rightarrow> os \<Rightarrow> authority \<Rightarrow> thread_snapshot \<Rightarrow> thread_event list \<Rightarrow> add_thread_result op" where
  "add_thread_to_chain_with_events E os au new_snapshot events =
     op_bind (op_lift (ensure_lock_protects (au_lock_chain au) (au_chain_root_id au))) (\<lambda>_.
     op_bind (op_lift (ensure_signer_trusted E (au_signer au) (au_trust au))) (\<lambda>_.
     op_bind (op_lift (check_new_thread au new_snapshot)) (\<lambda>_.
     op_bind (op_lift (require (events \<noteq> []) (Bail ''cannot add thread with empty event list''))) (\<lambda>_.
     op_bind (op_lift (validate_event_identities E (au_chain_root_id au) (snap_thread_id new_snapshot) events)) (\<lambda>_.
     op_bind (read_chain_head_for_mutation E os 0 au) (\<lambda>current.
     op_bind (op_lift (prepare_add_thread_with_events E os au new_snapshot events current))
       (\<lambda>(writes, state, result).
     op_bind (commit_closure E os (os_clock os 1) au writes (cs_prev_chain_state_hash state) state) (\<lambda>_.
     op_lift (Inr result)))))))))"

section \<open>Adding a thread and appending to another in one transition\<close>

definition prepare_add_and_append ::
  "'z lib_env_scheme \<Rightarrow> os \<Rightarrow> authority \<Rightarrow> thread_snapshot \<Rightarrow> thread_event list \<Rightarrow> string \<Rightarrow> thread_event list
    \<Rightarrow> snapshot_update list \<Rightarrow> chain_state \<Rightarrow> cas
    \<Rightarrow> ((string \<times> string) list \<times> chain_state \<times> add_thread_result) result" where
  "prepare_add_and_append E os au new_snapshot new_thread_events existing_thread_id existing_thread_events
     snapshot_updates current cas =
     ebind (require (map_of (cs_threads current) (snap_thread_id new_snapshot) = None)
       (Bail ''thread already exists in chain'')) (\<lambda>_.
     ebind (ok_or (map_of (cs_threads current) existing_thread_id) (Bail ''thread not found in chain''))
       (\<lambda>existing_entry.
     ebind (load_previous_snapshots E os cas current (au_chain_root_id au) (Some (snap_thread_id new_snapshot)) 0 []
       snapshot_updates) (\<lambda>previous_snapshots.
     ebind (normalize_event_timestamps E new_thread_events (cs_updated_at current))
       (\<lambda>(new_thread_timestamp, new_thread_events).
     ebind (normalize_event_timestamps E existing_thread_events new_thread_timestamp)
       (\<lambda>(append_timestamp, existing_thread_events).
     ebind (u64_try_from (length new_thread_events)) (\<lambda>new_event_count.
     ebind (u64_try_from (length existing_thread_events)) (\<lambda>existing_event_count.
     ebind (ok_or (checked_add new_event_count existing_event_count)
       (Bail ''event batch is too large'')) (\<lambda>total_event_count.
     ebind (ok_or (checked_add (cs_last_chain_seq current) 1) (Bail ''chain sequence exhausted'')) (\<lambda>first_chain_seq.
     ebind (ok_or (checked_add (cs_last_chain_seq current) total_event_count)
       (Bail ''chain sequence exhausted'')) (\<lambda>final_chain_seq.
     ebind (ok_or (checked_add (entry_last_thread_seq existing_entry) existing_event_count)
       (Bail ''thread sequence exhausted'')) (\<lambda>existing_final_thread_seq.
     ebind (stage_events E first_chain_seq 0 0 (cs_last_event_hash current) None new_thread_events)
       (\<lambda>(new_stored, new_writes, chain_hash, new_thread_last_hash).
     ebind (ok_or (checked_add first_chain_seq new_event_count) (Bail ''chain sequence exhausted''))
       (\<lambda>first_existing_seq.
     ebind (stage_events E first_existing_seq (entry_last_thread_seq existing_entry) 0 chain_hash
         (entry_last_event_hash existing_entry) existing_thread_events)
       (\<lambda>(existing_stored, existing_writes, last_chain_event_hash, existing_thread_last_hash).
     let stored = new_stored @ existing_stored;
         new_entry = \<lparr> entry_snapshot_hash = [], entry_last_event_hash = new_thread_last_hash,
           entry_last_thread_seq = new_event_count, entry_status = snap_status new_snapshot \<rparr>
     in ebind (normalize_and_validate_new_thread E (stamp_snapshot_position new_snapshot new_entry final_chain_seq)
           (au_chain_root_id au) append_timestamp (Some existing_thread_id)) (\<lambda>snapshot.
     ebind (ok_or (snap_last_event_hash snapshot)
       (Bail ''new thread snapshot is missing its final event hash'')) (\<lambda>h.
     ebind (expect (if new_event_count - 1 < length stored then Some (stored ! (new_event_count - 1)) else None)
       ''index out of bounds'') (\<lambda>last_event.
     ebind (validate_snapshot_last_event E snapshot h last_event) (\<lambda>_.
     let threads = bt_insert (snap_thread_id snapshot)
           (new_entry\<lparr> entry_snapshot_hash := hash_snapshot E snapshot \<rparr>) (cs_threads current)
     in ebind (expect (map_of threads existing_thread_id) ''existing thread was checked above'') (\<lambda>_.
     ebind (apply_updates E os cas final_chain_seq append_timestamp existing_thread_id
         (if stored = [] then None else Some (last stored)) 0 previous_snapshots
         (bt_modify existing_thread_id (\<lambda>entry. entry\<lparr> entry_last_event_hash := existing_thread_last_hash,
            entry_last_thread_seq := existing_final_thread_seq \<rparr>) threads) snapshot_updates)
       (\<lambda>(new_threads, update_writes, updates).
     ebind (validate_untouched_entries (cs_threads current) new_threads
       (map upd_thread_id updates @ [existing_thread_id])) (\<lambda>_.
     ebind (prospective_state E (os_clock os 0)
         ([cs_updated_at current, append_timestamp, snap_updated_at snapshot]
           @ map (\<lambda>u. snap_updated_at (upd_new_snapshot u)) updates)
         (au_chain_root_id au) (Some (hash_chain_state E current)) last_chain_event_hash final_chain_seq new_threads)
       (\<lambda>state.
     Inr (new_writes @ existing_writes @ [snapshot_write E snapshot] @ update_writes @ [state_write E state], state,
       \<lparr> at_chain_state_hash = hash_chain_state E state, at_snapshot_hash = hash_snapshot E snapshot,
         at_snapshot = snapshot, at_first_chain_seq = first_chain_seq, at_event_count = length stored,
         at_events = stored, at_snapshot_updates = updates \<rparr>)))))))))))))))))))))))"

definition add_thread_with_events_and_append ::
  "'z lib_env_scheme \<Rightarrow> os \<Rightarrow> authority \<Rightarrow> thread_snapshot \<Rightarrow> thread_event list \<Rightarrow> string \<Rightarrow> thread_event list
    \<Rightarrow> snapshot_update list \<Rightarrow> add_thread_result op" where
  "add_thread_with_events_and_append E os au new_snapshot new_thread_events existing_thread_id
     existing_thread_events snapshot_updates =
     op_bind (op_lift (ensure_lock_protects (au_lock_chain au) (au_chain_root_id au))) (\<lambda>_.
     op_bind (op_lift (ensure_signer_trusted E (au_signer au) (au_trust au))) (\<lambda>_.
     op_bind (op_lift (check_new_thread au new_snapshot)) (\<lambda>_.
     op_bind (op_lift (require (\<not> (new_thread_events = [] \<or> existing_thread_events = []))
       (Bail ''atomic add-and-append requires events for both threads''))) (\<lambda>_.
     op_bind (op_lift (validate_event_identities E (au_chain_root_id au) (snap_thread_id new_snapshot)
       new_thread_events)) (\<lambda>_.
     op_bind (op_lift (validate_event_identities E (au_chain_root_id au) existing_thread_id
       existing_thread_events)) (\<lambda>_.
     op_bind (read_chain_head_for_mutation E os 0 au) (\<lambda>current.
     op_bind (op_read (\<lambda>s. prepare_add_and_append E os au new_snapshot new_thread_events existing_thread_id
       existing_thread_events snapshot_updates current (st_cas s))) (\<lambda>(writes, state, result).
     op_bind (commit_closure E os (os_clock os 1) au writes (cs_prev_chain_state_hash state) state) (\<lambda>_.
     op_lift (Inr result))))))))))"

section \<open>Reading a snapshot\<close>

definition cached_head_state ::
  "'z lib_env_scheme \<Rightarrow> authority \<Rightarrow> string \<Rightarrow> chain_state \<Rightarrow> chain_state result" where
  "cached_head_state E au target state =
     ebind (validate_state E state) (\<lambda>_.
     ebind (validate_chain_positions E state) (\<lambda>_.
     ebind (require (cs_chain_root_id state = au_chain_root_id au)
       (Bail ''cached chain head object root mismatch'')) (\<lambda>_.
     ebind (require (hash_chain_state E state = target) (Bail ''cached chain head hash mismatch'')) (\<lambda>_.
     Inr state))))"

definition read_thread_snapshot ::
  "'z lib_env_scheme \<Rightarrow> os \<Rightarrow> authority \<Rightarrow> string \<Rightarrow> thread_snapshot option op" where
  "read_thread_snapshot E os au thread_id =
     op_bind (op_lift (validate_chain_root_id (au_chain_root_id au))) (\<lambda>_.
     op_bind (op_lift (ensure_protects os 0 (au_lock_chain au) (au_chain_root_id au))) (\<lambda>_.
     op_bind (op_lift (os_call os (HeadRead 0))) (\<lambda>_.
     op_bind (op_read (read_verified_head E (au_trust au) (au_lock_chain au))) (\<lambda>head.
     case head of
       None \<Rightarrow> op_bind (cache_invalidate (au_chain_root_id au)) (\<lambda>_. op_lift (Inr None))
     | Some r \<Rightarrow>
         op_bind (op_read (\<lambda>s. Inr (cache_get (au_chain_root_id au) s))) (\<lambda>cached.
         op_bind (case cached of
             Some c \<Rightarrow>
               if cached_hash c = ref_target_hash r
               then op_lift (cached_head_state E au (ref_target_hash r) (cached_state c))
               else read_chain_head_for_mutation E os 1 au
           | None \<Rightarrow> read_chain_head_for_mutation E os 1 au) (\<lambda>state.
         if map_of (cs_threads state) thread_id = None then op_lift (Inr None)
         else op_read (\<lambda>s. ebind (read_current_snapshot_for_mutation E os 1 (st_cas s) state thread_id)
           (\<lambda>snapshot. Inr (Some snapshot)))))))))"

end
