(* ===== verification/Chain_Writers.thy ===== *)
theory Chain_Writers
  imports State_History Chain_Ops
begin

text \<open>
  What the writers of \<^verbatim>\<open>chain.rs\<close> stage: the events they link, the snapshots they stamp and
  normalize, and the state they publish are together a legal successor of the state they read.
\<close>

section \<open>Inputs that the codec reads back\<close>

text \<open>
  The caller's objects are values of the Rust types whose JSON the parser reads back: nested no
  deeper than its recursion limit, and with exact floats.
\<close>

definition encodable_event :: "'z lib_env_scheme \<Rightarrow> thread_event \<Rightarrow> bool" where
  "encodable_event E e \<longleftrightarrow> json_storable E 127 (event_to_value e)"

definition encodable_snapshot :: "'z lib_env_scheme \<Rightarrow> thread_snapshot \<Rightarrow> bool" where
  "encodable_snapshot E s \<longleftrightarrow>
     json_storable E 127 (snapshot_to_value s) \<and> (\<forall>u. snap_budget s = Some u \<longrightarrow> usage_typed u)"

lemma encodable_event_iff:
  "encodable_event E e \<longleftrightarrow> (\<forall>(k, v) \<in> set (event_fields e). valid_utf8 k \<and> json_storable E 126 v)"
  by (simp add: encodable_event_def event_to_value_def storable_object)

lemma encodable_event_linked:
  assumes "encodable_event E e" and "m < u64_bound" and "n < u64_bound"
    and "\<And>h. c = Some h \<Longrightarrow> valid_utf8 h" and "\<And>h. t = Some h \<Longrightarrow> valid_utf8 h"
  shows "encodable_event E (e\<lparr> ev_chain_seq := m, ev_thread_seq := n, ev_prev_chain_event_hash := c,
    ev_prev_thread_event_hash := t \<rparr>)"
  using assms by (simp add: encodable_event_iff event_fields_def)

lemma encodable_event_ts:
  "encodable_event E e \<Longrightarrow> valid_utf8 ts \<Longrightarrow> encodable_event E (e\<lparr> ev_ts := ts \<rparr>)"
  by (simp add: encodable_event_iff event_fields_def)

lemma encodable_event_storable:
  "encodable_event E e \<Longrightarrow> validate_event E e = Inr () \<Longrightarrow> storable_event E e"
  by (auto simp: encodable_event_def storable_event_def validate_event_def result_iff)

lemma encodable_snapshot_iff:
  "encodable_snapshot E s \<longleftrightarrow> (\<forall>(k, v) \<in> set (snapshot_fields s). valid_utf8 k \<and> json_storable E 126 v)
     \<and> (\<forall>u. snap_budget s = Some u \<longrightarrow> usage_typed u)"
  by (simp add: encodable_snapshot_def snapshot_to_value_def storable_object)

lemma encodable_snapshot_position:
  assumes "encodable_snapshot E s" and "entry_last_thread_seq entry < u64_bound" and "n < u64_bound"
    and "\<And>h. entry_last_event_hash entry = Some h \<Longrightarrow> valid_utf8 h"
  shows "encodable_snapshot E (stamp_snapshot_position s entry n)"
  using assms by (simp add: encodable_snapshot_iff snapshot_fields_def stamp_snapshot_position_def)

lemma encodable_snapshot_times:
  assumes "encodable_snapshot E s" and "valid_utf8 u"
    and "\<And>x. a = Some x \<Longrightarrow> valid_utf8 x" and "\<And>x. b = Some x \<Longrightarrow> valid_utf8 x"
  shows "encodable_snapshot E (s\<lparr> snap_updated_at := u, snap_started_at := a, snap_finished_at := b \<rparr>)"
  using assms by (simp add: encodable_snapshot_iff snapshot_fields_def)

lemma encodable_snapshot_storable:
  "encodable_snapshot E s \<Longrightarrow> validate_snapshot E s = Inr () \<Longrightarrow> storable_snapshot E s"
  by (simp add: encodable_snapshot_def storable_snapshot_def)

section \<open>Normalized events\<close>

lemma clamp_events_ok:
  assumes "clamp_events E floor events = Inr (final, clamped)" and "canonical_ts E floor"
  shows "length clamped = length events" and "canonical_ts E final"
    and "sorted (map (instant E) (floor # map ev_ts clamped))"
    and "final = last (floor # map ev_ts clamped)"
    and "\<forall>i < length events. \<exists>ts. canonical_ts E ts \<and> clamped ! i = (events ! i)\<lparr> ev_ts := ts \<rparr>"
proof -
  have "length clamped = length events \<and> canonical_ts E final
    \<and> sorted (map (instant E) (floor # map ev_ts clamped)) \<and> final = last (floor # map ev_ts clamped)
    \<and> (\<forall>i < length events. \<exists>ts. canonical_ts E ts \<and> clamped ! i = (events ! i)\<lparr> ev_ts := ts \<rparr>)"
    using assms
  proof (induction events arbitrary: floor final clamped)
    case (Cons e events)
    from Cons.prems(1) obtain ts rest where ts: "clamp_timestamp E (ev_ts e) floor = Inr ts"
        "clamp_events E ts events = Inr (final, rest)" "clamped = e\<lparr> ev_ts := ts \<rparr> # rest"
      by (auto simp: ebind_eq_Inr)
    have c: "canonical_ts E ts" "instant E floor \<le> instant E ts"
      using ts(1) by (auto simp: result_iff split: if_splits)
    note IH = Cons.IH [OF ts(2) c(1)]
    have "\<exists>t. canonical_ts E t \<and> clamped ! i = ((e # events) ! i)\<lparr> ev_ts := t \<rparr>" if "i < length (e # events)" for i
      using that IH c(1) ts(3) by (cases i) auto
    with IH ts(3) c show ?case by auto
  qed simp
  then show "length clamped = length events" "canonical_ts E final"
    "sorted (map (instant E) (floor # map ev_ts clamped))" "final = last (floor # map ev_ts clamped)"
    "\<forall>i < length events. \<exists>ts. canonical_ts E ts \<and> clamped ! i = (events ! i)\<lparr> ev_ts := ts \<rparr>"
    by blast+
qed

lemma normalize_event_timestamps_ok:
  assumes "normalize_event_timestamps E events floor = Inr (final, clamped)"
  shows "canonical_ts E floor" and "clamp_events E floor events = Inr (final, clamped)"
  using assms by (auto simp: normalize_event_timestamps_def result_iff)

text \<open>The events that reach the staging loop of a writer.\<close>

definition stageable ::
  "'z lib_env_scheme \<Rightarrow> string \<Rightarrow> string \<Rightarrow> string \<Rightarrow> thread_event list \<Rightarrow> bool" where
  "stageable E root t floor events \<longleftrightarrow>
     (\<forall>e \<in> set events. encodable_event E e \<and> ev_chain_root_id e = root \<and> ev_thread_id e = t)
     \<and> sorted (map (instant E) (floor # map ev_ts events))"

lemma normalized_stageable:
  assumes "normalize_event_timestamps E events floor = Inr (final, clamped)"
    and "validate_event_identities E root t events = Inr ()" and "\<forall>e \<in> set events. encodable_event E e"
  shows "stageable E root t floor clamped"
proof -
  note c = clamp_events_ok [OF normalize_event_timestamps_ok(2,1) [OF assms(1)]]
  have "encodable_event E e \<and> ev_chain_root_id e = root \<and> ev_thread_id e = t" if "e \<in> set clamped" for e
  proof -
    obtain i where i: "i < length events" "e = clamped ! i" using \<open>e \<in> set clamped\<close> c(1) by (auto simp: in_set_conv_nth)
    then obtain ts where ts: "canonical_ts E ts" "e = (events ! i)\<lparr> ev_ts := ts \<rparr>" using c(5) by auto
    have "events ! i \<in> set events" using i(1) by simp
    then have "encodable_event E (events ! i)" "ev_chain_root_id (events ! i) = root" "ev_thread_id (events ! i) = t"
      using assms(2,3) by (auto simp: validate_event_identities_def result_iff)
    with ts canonical_ts_utf8 [OF ts(1)] encodable_event_ts show ?thesis by auto
  qed
  with c(3) show ?thesis by (simp add: stageable_def)
qed

section \<open>Staged events\<close>

definition env_ok :: "'z lib_env_scheme \<Rightarrow> bool" where
  "env_ok E \<longleftrightarrow> json_parser E \<and> (\<forall>s. canonical_cas_hash (sha256 E s))"

definition staged_log :: "'z lib_env_scheme \<Rightarrow> thread_event list \<Rightarrow> event_log" where
  "staged_log E stored = map (\<lambda>e. (hash_event E e, e)) stored"

definition event_writes :: "'z lib_env_scheme \<Rightarrow> thread_event list \<Rightarrow> (string \<times> string) list" where
  "event_writes E stored = map (\<lambda>e. (hash_event E e, canonical_json E (event_to_value e))) stored"

lemma hash_utf8: "env_ok E \<Longrightarrow> valid_utf8 (sha256_hex E x)"
  by (simp add: env_ok_def sha256_hex_def canonical_hash_utf8)

lemma load_event_stored:
  assumes "env_ok E" and "storable_event E e"
    and "map_of cas (hash_event E e) = Some (canonical_json E (event_to_value e))"
  shows "load_hashed_event E cas (hash_event E e) = Inr e"
  using event_codec.load_stored [of E e cas] assms
  by (simp add: load_hashed_event_def hash_objects env_ok_def)

lemma load_state_stored:
  assumes "env_ok E" and "storable_state E s"
    and "map_of cas (hash_chain_state E s) = Some (canonical_json E (state_to_value s))"
  shows "load_hashed_chain_state E cas (hash_chain_state E s) = Inr s"
  using state_codec.load_stored [of E s cas] assms
  by (simp add: load_hashed_chain_state_def hash_objects env_ok_def)

lemma load_snapshot_stored:
  assumes "env_ok E" and "storable_snapshot E s"
    and "map_of cas (hash_snapshot E s) = Some (canonical_json E (snapshot_to_value s))"
  shows "load_hashed_snapshot E cas (hash_snapshot E s) = Inr (snap_norm s)"
  using snapshot_codec.load_stored [of E s cas] assms
  by (simp add: load_hashed_snapshot_def hash_objects env_ok_def)

definition linked_event ::
  "nat \<Rightarrow> nat \<Rightarrow> string option \<Rightarrow> string option \<Rightarrow> thread_event \<Rightarrow> thread_event" where
  "linked_event m n lc lt event = event\<lparr> ev_chain_seq := m, ev_thread_seq := n,
     ev_prev_chain_event_hash := lc, ev_prev_thread_event_hash := lt \<rparr>"

lemma stage_events_ConsD:
  assumes "stage_events E first base offset lc lt (event # events) = Inr r"
    and "e = linked_event (first + offset) (Suc (base + offset)) lc lt event"
  obtains st ws lc' lt' where "first + offset < u64_bound" "Suc (base + offset) < u64_bound"
    "validate_event E e = Inr ()"
    "stage_events E first base (Suc offset) (Some (hash_event E e)) (Some (hash_event E e)) events = Inr (st, ws, lc', lt')"
    "r = (e # st, (hash_event E e, canonical_json E (event_to_value e)) # ws, lc', lt')"
proof -
  from assms(1) obtain m n where mn: "checked_add first offset = Some m"
      "Option.bind (checked_add base offset) (\<lambda>sequence. checked_add sequence 1) = Some n"
    by (auto simp: ebind_eq_Inr ok_or_eq_Inr)
  then have m: "m = first + offset" "first + offset < u64_bound" "n = Suc (base + offset)" "Suc (base + offset) < u64_bound"
    by (auto simp: bind_eq_Some_conv checked_add_eq_Some)
  have "ebind (validate_event E e) (\<lambda>_.
      ebind (stage_events E first base (Suc offset) (Some (hash_event E e)) (Some (hash_event E e)) events)
        (\<lambda>(stored, writes, lc, lt).
          Inr (e # stored, (hash_event E e, canonical_json E (event_to_value e)) # writes, lc, lt))) = Inr r"
    using assms mn m by (simp add: Let_def hash_event_def linked_event_def ok_or_def)
  then show ?thesis using m that by (auto simp: ebind_eq_Inr)
qed

lemma stage_events_shape:
  assumes "stage_events E first base offset lc lt events = Inr (stored, writes, lc', lt')"
  shows "length stored = length events \<and> writes = event_writes E stored
    \<and> map ev_ts stored = map ev_ts events"
  using assms
proof (induction events arbitrary: offset lc lt stored writes)
  case (Cons event events)
  from Cons.prems obtain st ws lc1 lt1 where "stage_events E first base (Suc offset)
      (Some (hash_event E (linked_event (first + offset) (Suc (base + offset)) lc lt event)))
      (Some (hash_event E (linked_event (first + offset) (Suc (base + offset)) lc lt event))) events = Inr (st, ws, lc1, lt1)"
      "stored = linked_event (first + offset) (Suc (base + offset)) lc lt event # st"
      "writes = (hash_event E (linked_event (first + offset) (Suc (base + offset)) lc lt event),
         canonical_json E (event_to_value (linked_event (first + offset) (Suc (base + offset)) lc lt event))) # ws"
      "lc' = lc1" "lt' = lt1"
    by (rule stage_events_ConsD [OF _ refl]) simp
  with Cons.IH show ?case by (simp add: event_writes_def linked_event_def)
qed (simp add: event_writes_def)

lemma stage_events_linked:
  assumes "stage_events E first base offset lc lt events = Inr (stored, writes, lc', lt')"
    and "env_ok E" and "stageable E root t floor events"
    and "linked_log E cas root log" and "not_after E log (instant E floor)"
    and "first + offset = Suc (length log)" and "lc = last_hash log"
    and "base + offset = length (of_thread t log)" and "lt = last_hash (of_thread t log)"
    and "\<forall>(h, b) \<in> set writes. map_of cas h = Some b"
    and "\<And>h. lc = Some h \<Longrightarrow> valid_utf8 h" and "\<And>h. lt = Some h \<Longrightarrow> valid_utf8 h"
  shows "linked_log E cas root (log @ staged_log E stored) \<and> lc' = last_hash (log @ staged_log E stored)
    \<and> lt' = last_hash (of_thread t (log @ staged_log E stored))
    \<and> (\<forall>e \<in> set stored. ev_thread_id e = t)"
  using assms
proof (induction events arbitrary: offset lc lt stored writes log floor)
  case Nil
  then show ?case by (simp add: staged_log_def)
next
  case (Cons event events)
  define e where "e = linked_event (first + offset) (Suc (base + offset)) lc lt event"
  let ?h = "hash_event E e"
  from Cons.prems(1) e_def obtain st ws where st: "first + offset < u64_bound" "Suc (base + offset) < u64_bound"
      "validate_event E e = Inr ()"
      "stage_events E first base (Suc offset) (Some ?h) (Some ?h) events = Inr (st, ws, lc', lt')"
      "stored = e # st" "writes = (?h, canonical_json E (event_to_value e)) # ws"
    by (rule stage_events_ConsD) simp
  have stg: "encodable_event E event" "ev_chain_root_id event = root" "ev_thread_id event = t"
      "instant E floor \<le> instant E (ev_ts event)" "stageable E root t (ev_ts event) events"
    using Cons.prems(3) by (auto simp: stageable_def)
  have "encodable_event E e"
    unfolding e_def linked_event_def using stg(1) st(1,2) Cons.prems(11,12) by (intro encodable_event_linked) auto
  then have "load_hashed_event E cas ?h = Inr e"
    using Cons.prems(2,10) st(3,6) by (intro load_event_stored encodable_event_storable) auto
  then have link: "linked_log E cas root (log @ [(?h, e)])"
    using Cons.prems(4-9) st(3) stg not_after_mono [OF Cons.prems(5) stg(4)]
    by (intro linked_log.extend) (auto simp: e_def linked_event_def)
  have t: "ev_thread_id e = t" "ev_ts e = ev_ts event" using stg(3) by (simp_all add: e_def linked_event_def)
  have hu: "valid_utf8 ?h" using hash_utf8 [OF Cons.prems(2)] by (simp add: hash_event_def)
  have "linked_log E cas root ((log @ [(?h, e)]) @ staged_log E st)
      \<and> lc' = last_hash ((log @ [(?h, e)]) @ staged_log E st)
      \<and> lt' = last_hash (of_thread t ((log @ [(?h, e)]) @ staged_log E st))
      \<and> (\<forall>e \<in> set st. ev_thread_id e = t)"
    by (rule Cons.IH [OF st(4) Cons.prems(2) stg(5) link])
      (use Cons.prems st t hu in auto)
  then show ?case using st(5) t by (simp add: staged_log_def)
qed

section \<open>Normalized snapshots\<close>

lemma stored_snapshot_norm:
  "validate_stored_snapshot E state t entry (snap_norm s) = validate_stored_snapshot E state t entry s"
  by (simp only: validate_stored_snapshot_def snap_norm_simps validate_snapshot_norm)

lemma historical_transition_norm:
  "validate_historical_snapshot_transition E previous (snap_norm s) through =
   validate_historical_snapshot_transition E previous s through"
  by (simp only: validate_historical_snapshot_transition_def validate_snapshot_transition_identity_def
      snap_norm_simps validate_snapshot_norm)

lemma clamp_timestamp_ok:
  assumes "clamp_timestamp E v floor = Inr w"
  shows "canonical_ts E v" "canonical_ts E floor" "canonical_ts E w"
    "instant E v \<le> instant E w" "instant E floor \<le> instant E w"
    "instant E floor \<le> instant E v \<Longrightarrow> w = v"
  using assms by (auto simp: result_iff)

lemma transpose_timestamp_eq_Inr:
  "map_transpose (parse_canonical_timestamp E) o' = Inr r \<longleftrightarrow>
     (\<forall>t. o' = Some t \<longrightarrow> canonical_ts E t) \<and> r = map_option (instant E) o'"
  by (cases o') (auto simp: map_transpose_eq_Inr parse_canonical_timestamp_eq_Inr simp del: map_transpose_simps)

lemma validate_snapshot_times:
  assumes "validate_snapshot E s = Inr ()"
  shows "canonical_ts E (snap_created_at s)" "canonical_ts E (snap_updated_at s)"
    "\<And>t. snap_started_at s = Some t \<Longrightarrow> canonical_ts E t \<and> instant E (snap_created_at s) \<le> instant E t"
    "\<And>t. snap_finished_at s = Some t \<Longrightarrow> canonical_ts E t"
proof -
  have t: "validate_snapshot_times E s = Inr ()" using assms by (simp add: validate_snapshot_def ebind_eq_Inr)
  then show "canonical_ts E (snap_created_at s)" "canonical_ts E (snap_updated_at s)"
    by (auto simp: validate_snapshot_times_def result_iff)
  show "canonical_ts E x \<and> instant E (snap_created_at s) \<le> instant E x" if "snap_started_at s = Some x" for x
  proof -
    have "(\<forall>t. snap_started_at s = Some t \<longrightarrow> canonical_ts E t) \<and> \<not> (case map_option (instant E) (snap_started_at s) of
        None \<Rightarrow> False | Some t \<Rightarrow> t < instant E (snap_created_at s) \<or> t > instant E (snap_updated_at s))"
      using t unfolding validate_snapshot_times_def ebind_eq_Inr require_eq_Inr transpose_timestamp_eq_Inr
        parse_canonical_timestamp_eq_Inr by blast
    with that show ?thesis by simp
  qed
  show "canonical_ts E x" if "snap_finished_at s = Some x" for x
    using t that unfolding validate_snapshot_times_def ebind_eq_Inr transpose_timestamp_eq_Inr by blast
qed

lemma normalize_started_ok:
  assumes "normalize_started E previous new = Inr n" and "validate_snapshot E previous = Inr ()"
    and "snap_created_at previous = snap_created_at new"
    and "snap_started_at previous \<noteq> None \<Longrightarrow> snap_started_at previous = snap_started_at new"
    and "canonical_ts E (snap_updated_at new)"
  shows "\<exists>a u. n = new\<lparr> snap_started_at := a, snap_updated_at := u \<rparr> \<and> canonical_ts E u
    \<and> instant E (snap_updated_at new) \<le> instant E u
    \<and> (snap_started_at previous \<noteq> None \<longrightarrow> a = snap_started_at previous)
    \<and> (\<forall>t. a = Some t \<longrightarrow> canonical_ts E t \<and> (snap_started_at previous = None \<longrightarrow>
         instant E (snap_updated_at previous) \<le> instant E t))"
proof (cases "snap_started_at new")
  case None
  then have "n = new" using assms(1) by (simp add: normalize_started_def)
  then show ?thesis using assms(4,5) None
    by (intro exI [of _ "snap_started_at new"] exI [of _ "snap_updated_at new"]) auto
next
  case (Some started)
  then obtain s1 s2 u where s1: "clamp_timestamp E started (snap_created_at new) = Inr s1"
    and s2: "(if snap_started_at previous = None then clamp_timestamp E s1 (snap_updated_at previous) else Inr s1) = Inr s2"
    and u: "clamp_timestamp E (snap_updated_at new) s2 = Inr u"
    and n: "n = new\<lparr> snap_started_at := Some s2, snap_updated_at := u \<rparr>"
    using assms(1) by (auto simp: normalize_started_def ebind_eq_Inr)
  have "Some s2 = snap_started_at previous" if "snap_started_at previous \<noteq> None"
  proof -
    have p: "snap_started_at previous = Some started" using assms(4) [OF that] Some by simp
    then show ?thesis
      using validate_snapshot_times(3) [OF assms(2) p] clamp_timestamp_ok(6) [OF s1] assms(3) s2 by simp
  qed
  moreover have "canonical_ts E s2" using clamp_timestamp_ok(2) [OF u] .
  moreover have "instant E (snap_updated_at previous) \<le> instant E s2" if "snap_started_at previous = None"
    using s2 that clamp_timestamp_ok(5) by simp
  ultimately show ?thesis
    using n clamp_timestamp_ok(3,4) [OF u] by (intro exI [of _ "Some s2"] exI [of _ u]) auto
qed

lemma normalize_finished_ok:
  assumes "normalize_finished E previous new ts = Inr n" and "canonical_ts E (snap_updated_at new)"
  shows "\<exists>b u. n = new\<lparr> snap_finished_at := b, snap_updated_at := u \<rparr> \<and> canonical_ts E u
    \<and> instant E (snap_updated_at new) \<le> instant E u
    \<and> (\<forall>t. b = Some t \<longrightarrow> canonical_ts E t \<and> instant E (snap_updated_at previous) \<le> instant E t
         \<and> instant E ts \<le> instant E t)"
proof (cases "snap_finished_at new")
  case None
  then have "n = new" using assms(1) by (simp add: normalize_finished_def)
  then show ?thesis using assms(2) None
    by (intro exI [of _ "snap_finished_at new"] exI [of _ "snap_updated_at new"]) auto
next
  case (Some finished)
  then obtain f1 f2 f3 f4 u where f2: "clamp_timestamp E f1 (snap_updated_at previous) = Inr f2"
    and f3: "clamp_timestamp E f2 ts = Inr f3"
    and f4: "(case snap_started_at new of None \<Rightarrow> Inr f3 | Some started \<Rightarrow> clamp_timestamp E f3 started) = Inr f4"
    and u: "clamp_timestamp E (snap_updated_at new) f4 = Inr u"
    and n: "n = new\<lparr> snap_finished_at := Some f4, snap_updated_at := u \<rparr>"
    using assms(1) by (auto simp: normalize_finished_def ebind_eq_Inr)
  have "instant E f3 \<le> instant E f4"
    using f4 clamp_timestamp_ok(4) by (auto split: option.splits)
  then have "instant E (snap_updated_at previous) \<le> instant E f4" "instant E ts \<le> instant E f4"
    using clamp_timestamp_ok(4,5) [OF f3] clamp_timestamp_ok(5) [OF f2] by auto
  then show ?thesis
    using n clamp_timestamp_ok(2-4) [OF u] by (intro exI [of _ "Some f4"] exI [of _ u]) auto
qed

lemma transition_identity_times:
  assumes "validate_snapshot_transition_identity previous new = Inr ()"
    and "snap_started_at previous = None \<or> snap_started_at previous = a"
  shows "validate_snapshot_transition_identity previous
    (new\<lparr> snap_updated_at := u, snap_started_at := a, snap_finished_at := b \<rparr>) = Inr ()"
  using assms by (simp add: validate_snapshot_transition_identity_def ebind_eq_Inr require_eq_Inr)

lemma status_transition_changes:
  "validate_status_transition p s = Inr () \<Longrightarrow> p \<noteq> s"
  by (cases s) (auto simp: validate_status_transition_def require_eq_Inr is_terminal_def)

lemma transition_identity_facts:
  assumes "validate_snapshot_transition_identity previous new = Inr ()"
  shows "snap_created_at previous = snap_created_at new" "snap_status previous \<noteq> snap_status new"
    "snap_started_at previous \<noteq> None \<Longrightarrow> snap_started_at previous = snap_started_at new"
proof -
  have "validate_status_transition (snap_status previous) (snap_status new) = Inr ()"
    using assms by (simp add: validate_snapshot_transition_identity_def ebind_eq_Inr require_eq_Inr)
  then show "snap_status previous \<noteq> snap_status new" by (rule status_transition_changes)
  show "snap_created_at previous = snap_created_at new"
    "snap_started_at previous \<noteq> None \<Longrightarrow> snap_started_at previous = snap_started_at new"
    using assms by (simp_all add: validate_snapshot_transition_identity_def ebind_eq_Inr require_eq_Inr)
qed

lemma normalize_transition_ok:
  assumes n: "normalize_and_validate_snapshot_transition E previous new ts = Inr s"
    and prev: "validate_snapshot E previous = Inr ()"
  shows "\<exists>u a b. s = new\<lparr> snap_updated_at := u, snap_started_at := a, snap_finished_at := b \<rparr> \<and> canonical_ts E u
      \<and> (\<forall>t. a = Some t \<longrightarrow> canonical_ts E t) \<and> (\<forall>t. b = Some t \<longrightarrow> canonical_ts E t)"
    and "validate_historical_snapshot_transition E previous s (Some ts) = Inr ()"
    and "validate_snapshot E s = Inr ()" and "snap_status previous \<noteq> snap_status s"
proof -
  obtain u1 n1 n2 u2 where id: "validate_snapshot_transition_identity previous new = Inr ()"
    and u1: "clamp_timestamp E (snap_updated_at new) (snap_updated_at previous) = Inr u1"
    and n1: "normalize_started E previous (new\<lparr> snap_updated_at := u1 \<rparr>) = Inr n1"
    and n2: "normalize_finished E previous n1 ts = Inr n2"
    and u2: "clamp_timestamp E (snap_updated_at n2) ts = Inr u2"
    and v: "validate_snapshot E s = Inr ()" and s: "s = n2\<lparr> snap_updated_at := u2 \<rparr>"
    using n by (auto simp: normalize_and_validate_snapshot_transition_def ebind_eq_Inr Let_def)
  note f = transition_identity_facts [OF id]
  obtain a v1 where a: "n1 = new\<lparr> snap_started_at := a, snap_updated_at := v1 \<rparr>" "canonical_ts E v1"
      "instant E u1 \<le> instant E v1" "snap_started_at previous \<noteq> None \<longrightarrow> a = snap_started_at previous"
      "\<forall>t. a = Some t \<longrightarrow> canonical_ts E t \<and> (snap_started_at previous = None \<longrightarrow>
         instant E (snap_updated_at previous) \<le> instant E t)"
    using normalize_started_ok [OF n1 prev] f(1,3) clamp_timestamp_ok(3) [OF u1] by auto
  obtain b v2 where b: "n2 = n1\<lparr> snap_finished_at := b, snap_updated_at := v2 \<rparr>"
      "instant E v1 \<le> instant E v2"
      "\<forall>t. b = Some t \<longrightarrow> canonical_ts E t \<and> instant E (snap_updated_at previous) \<le> instant E t \<and> instant E ts \<le> instant E t"
    using normalize_finished_ok [OF n2] a(1,2) by auto
  have s': "s = new\<lparr> snap_updated_at := u2, snap_started_at := a, snap_finished_at := b \<rparr>"
    using s a(1) b(1) by simp
  note c2 = clamp_timestamp_ok [OF u2]
  have le: "instant E (snap_updated_at previous) \<le> instant E u2" "instant E ts \<le> instant E u2"
    using clamp_timestamp_ok(5) [OF u1] a(3) b(1,2) c2(4,5) by auto
  show "\<exists>u a b. s = new\<lparr> snap_updated_at := u, snap_started_at := a, snap_finished_at := b \<rparr> \<and> canonical_ts E u
      \<and> (\<forall>t. a = Some t \<longrightarrow> canonical_ts E t) \<and> (\<forall>t. b = Some t \<longrightarrow> canonical_ts E t)"
    using s' c2(3) a(5) b(3) by blast
  show "validate_snapshot E s = Inr ()" by (rule v)
  show "snap_status previous \<noteq> snap_status s" using f(2) s' by simp
  have id': "validate_snapshot_transition_identity previous s = Inr ()"
    unfolding s' by (rule transition_identity_times [OF id]) (use a(4) in metis)
  have "snap_updated_at s = u2" "snap_started_at s = a" "snap_finished_at s = b" using s' by simp_all
  then show "validate_historical_snapshot_transition E previous s (Some ts) = Inr ()"
    using id' v validate_snapshot_times(2) [OF prev] c2(2,3) le a(5) b(3)
    by (simp add: validate_historical_snapshot_transition_def ebind_eq_Inr require_eq_Inr
        transpose_timestamp_eq_Inr expect_def option.case_eq_if) (auto simp: not_less)
qed

lemma normalize_new_thread_ok:
  assumes "normalize_and_validate_new_thread E new root floor source = Inr s"
  shows "\<exists>u. s = new\<lparr> snap_updated_at := u \<rparr> \<and> canonical_ts E u" and "validate_snapshot E s = Inr ()"
    and "snap_status s = Created" and "snap_chain_root_id s = root"
    and "snap_result_project_snapshot_hash s = None"
proof -
  obtain u1 u2 where u: "clamp_timestamp E u1 floor = Inr u2" "s = new\<lparr> snap_updated_at := u2 \<rparr>"
      "validate_snapshot E s = Inr ()" "snap_chain_root_id new = root" "snap_status new = Created"
      "validate_new_thread_project_snapshots new source = Inr ()"
    using assms by (auto simp: normalize_and_validate_new_thread_def ebind_eq_Inr Let_def require_eq_Inr)
  show "\<exists>u. s = new\<lparr> snap_updated_at := u \<rparr> \<and> canonical_ts E u"
    using u(2) clamp_timestamp_ok(3) [OF u(1)] by blast
  show "validate_snapshot E s = Inr ()" "snap_status s = Created" "snap_chain_root_id s = root"
    using u by simp_all
  show "snap_result_project_snapshot_hash s = None"
    using u(2,6) by (simp add: validate_new_thread_project_snapshots_def ebind_eq_Inr require_eq_Inr)
qed

section \<open>Snapshot updates\<close>

lemma read_cas_object_load:
  assumes "read_cas_object E os site dec cas h = Inr x" and "sha256_hex E (canonical_json E (enc x)) = h"
  shows "load_hashed E dec enc cas h = Inr x"
  using assms by (auto simp: read_cas_object_def load_hashed_def ebind_eq_Inr ok_or_eq_Inr)

lemma read_current_snapshot_ok:
  assumes "read_current_snapshot_for_mutation E os i cas state t = Inr s"
  shows "\<exists>entry. map_of (cs_threads state) t = Some entry
    \<and> load_hashed_snapshot E cas (entry_snapshot_hash entry) = Inr s
    \<and> validate_stored_snapshot E state t entry s = Inr () \<and> validate_snapshot E s = Inr ()"
proof -
  obtain entry where e: "map_of (cs_threads state) t = Some entry"
      "read_cas_object E os (CasRoot i) (snapshot_from_current_value E) cas (entry_snapshot_hash entry) = Inr s"
      "hash_snapshot E s = entry_snapshot_hash entry" "validate_stored_snapshot E state t entry s = Inr ()"
    using assms by (auto simp: read_current_snapshot_for_mutation_def ebind_eq_Inr ok_or_eq_Inr require_eq_Inr)
  then have "load_hashed_snapshot E cas (entry_snapshot_hash entry) = Inr s"
    unfolding load_hashed_snapshot_def by (intro read_cas_object_load) (auto simp: hash_snapshot_def)
  with e show ?thesis by (auto simp: validate_stored_snapshot_def ebind_eq_Inr)
qed

lemma load_previous_snapshots_ok:
  assumes "load_previous_snapshots E os cas state root added i prev updates = Inr prev'" and "bt_sorted prev"
  shows "bt_sorted prev'"
    and "map_of prev' t = Some s \<Longrightarrow> map_of prev t = Some s
      \<or> added \<noteq> Some t \<and> (\<exists>j. read_current_snapshot_for_mutation E os j cas state t = Inr s)"
    and "u \<in> set updates \<Longrightarrow> snap_thread_id (upd_new_snapshot u) = upd_thread_id u
      \<and> snap_chain_root_id (upd_new_snapshot u) = root"
proof -
  have "bt_sorted prev' \<and> (\<forall>t s. map_of prev' t = Some s \<longrightarrow> map_of prev t = Some s
      \<or> added \<noteq> Some t \<and> (\<exists>j. read_current_snapshot_for_mutation E os j cas state t = Inr s))
    \<and> (\<forall>u \<in> set updates. snap_thread_id (upd_new_snapshot u) = upd_thread_id u
      \<and> snap_chain_root_id (upd_new_snapshot u) = root)"
    using assms
  proof (induction updates arbitrary: i prev)
    case (Cons u updates)
    from Cons.prems(1) obtain s where s: "snap_thread_id (upd_new_snapshot u) = upd_thread_id u"
        "snap_chain_root_id (upd_new_snapshot u) = root" "added \<noteq> Some (upd_thread_id u)"
        "read_current_snapshot_for_mutation E os (3 * i + 1) cas state (upd_thread_id u) = Inr s"
        "load_previous_snapshots E os cas state root added (Suc i) (bt_insert (upd_thread_id u) s prev) updates = Inr prev'"
      by (auto simp: ebind_eq_Inr require_eq_Inr validate_update_identity_def)
    have IH: "bt_sorted prev' \<and> (\<forall>t x. map_of prev' t = Some x \<longrightarrow> map_of (bt_insert (upd_thread_id u) s prev) t = Some x
        \<or> added \<noteq> Some t \<and> (\<exists>j. read_current_snapshot_for_mutation E os j cas state t = Inr x))
      \<and> (\<forall>u \<in> set updates. snap_thread_id (upd_new_snapshot u) = upd_thread_id u
        \<and> snap_chain_root_id (upd_new_snapshot u) = root)"
      by (rule Cons.IH [OF s(5)]) (simp add: Cons.prems(2))
    have "map_of prev t = Some x \<or> added \<noteq> Some t \<and> (\<exists>j. read_current_snapshot_for_mutation E os j cas state t = Inr x)"
      if "map_of prev' t = Some x" for t x
    proof (cases "t = upd_thread_id u")
      case True
      have "map_of (bt_insert (upd_thread_id u) s prev) t = Some x
          \<or> added \<noteq> Some t \<and> (\<exists>j. read_current_snapshot_for_mutation E os j cas state t = Inr x)"
        using IH that by blast
      then show ?thesis using s(3,4) True by (auto split: if_splits)
    next
      case False
      then show ?thesis using IH that by (metis map_of_bt_insert)
    qed
    with IH s(1,2) show ?case by simp
  qed simp
  then show "bt_sorted prev'"
    and "map_of prev' t = Some s \<Longrightarrow> map_of prev t = Some s
      \<or> added \<noteq> Some t \<and> (\<exists>j. read_current_snapshot_for_mutation E os j cas state t = Inr s)"
    and "u \<in> set updates \<Longrightarrow> snap_thread_id (upd_new_snapshot u) = upd_thread_id u
      \<and> snap_chain_root_id (upd_new_snapshot u) = root"
    by blast+
qed

text \<open>What the second pass makes of one update.\<close>

definition update_applied ::
  "'z lib_env_scheme \<Rightarrow> nat \<Rightarrow> string \<Rightarrow> thread_snapshot btree \<Rightarrow> chain_thread_entry btree
    \<Rightarrow> chain_thread_entry btree \<Rightarrow> (string \<times> string) list \<Rightarrow> snapshot_update \<Rightarrow> snapshot_update \<Rightarrow> bool" where
  "update_applied E final ts prev threads threads' writes u u' \<longleftrightarrow>
     upd_thread_id u' = upd_thread_id u
     \<and> (\<exists>entry previous. map_of threads (upd_thread_id u) = Some entry \<and> map_of prev (upd_thread_id u) = Some previous
          \<and> normalize_and_validate_snapshot_transition E previous
              (stamp_snapshot_position (upd_new_snapshot u) entry final) ts = Inr (upd_new_snapshot u')
          \<and> map_of threads' (upd_thread_id u) = Some (entry\<lparr> entry_snapshot_hash := hash_snapshot E (upd_new_snapshot u'),
              entry_status := snap_status (upd_new_snapshot u') \<rparr>))
     \<and> snapshot_write E (upd_new_snapshot u') \<in> set writes"

lemma apply_updates_ConsD:
  assumes "apply_updates E os cas final ts tid last_event i prev threads (u # us) = Inr (threads', writes, us')"
  obtains entry previous s ws us1 where "map_of threads (upd_thread_id u) = Some entry"
    "map_of prev (upd_thread_id u) = Some previous"
    "normalize_and_validate_snapshot_transition E previous (stamp_snapshot_position (upd_new_snapshot u) entry final) ts = Inr s"
    "apply_updates E os cas final ts tid last_event (Suc i) (bt_remove (upd_thread_id u) prev)
       (bt_modify (upd_thread_id u) (\<lambda>entry. entry\<lparr> entry_snapshot_hash := hash_snapshot E s,
          entry_status := snap_status s \<rparr>) threads) us = Inr (threads', ws, us1)"
    "writes = snapshot_write E s # ws" "us' = \<lparr> upd_thread_id = upd_thread_id u, upd_new_snapshot = s \<rparr> # us1"
  using assms
  by (auto simp: ebind_eq_Inr ok_or_eq_Inr expect_def Let_def hash_snapshot_def snapshot_write_def split: option.splits)

lemma apply_updates_ok:
  assumes "apply_updates E os cas final ts tid last_event i prev threads us = Inr (threads', writes, us')"
  shows "map fst threads' = map fst threads \<and> map upd_thread_id us' = map upd_thread_id us
    \<and> set (map upd_thread_id us) \<subseteq> dom (map_of prev)
    \<and> (\<forall>t. t \<notin> set (map upd_thread_id us) \<longrightarrow> map_of threads' t = map_of threads t)
    \<and> (\<forall>u' \<in> set us'. \<exists>u \<in> set us. update_applied E final ts prev threads threads' writes u u')"
  using assms
proof (induction us arbitrary: i prev threads writes us')
  case (Cons u us)
  let ?t = "upd_thread_id u"
  from Cons.prems obtain entry previous s ws us1 where s: "map_of threads ?t = Some entry" "map_of prev ?t = Some previous"
      "normalize_and_validate_snapshot_transition E previous (stamp_snapshot_position (upd_new_snapshot u) entry final) ts = Inr s"
    and rec: "apply_updates E os cas final ts tid last_event (Suc i) (bt_remove ?t prev)
       (bt_modify ?t (\<lambda>entry. entry\<lparr> entry_snapshot_hash := hash_snapshot E s,
          entry_status := snap_status s \<rparr>) threads) us = Inr (threads', ws, us1)"
    and w: "writes = snapshot_write E s # ws" "us' = \<lparr> upd_thread_id = ?t, upd_new_snapshot = s \<rparr> # us1"
    by (rule apply_updates_ConsD)
  let ?threads = "bt_modify ?t (\<lambda>entry. entry\<lparr> entry_snapshot_hash := hash_snapshot E s,
      entry_status := snap_status s \<rparr>) threads"
  note IH = Cons.IH [OF rec]
  have t: "?t \<notin> set (map upd_thread_id us)" using IH by (auto simp: dom_def split: if_splits)
  have "map_of threads' ?t = map_of ?threads ?t" using IH t by blast
  then have head: "update_applied E final ts prev threads threads' writes u \<lparr> upd_thread_id = ?t, upd_new_snapshot = s \<rparr>"
    using s w(1) by (simp add: update_applied_def)
  have rest: "update_applied E final ts prev threads threads' writes v v'"
    if "v \<in> set us" "update_applied E final ts (bt_remove ?t prev) ?threads threads' ws v v'" for v v'
  proof -
    have "upd_thread_id v \<noteq> ?t" using t that(1) by (metis imageI list.set_map)
    then show ?thesis using that(2) w(1) by (auto simp: update_applied_def)
  qed
  have sub: "dom (map_of (bt_remove ?t prev)) \<subseteq> dom (map_of prev)" "?t \<in> dom (map_of prev)"
    using s(2) by (auto split: if_splits)
  show ?case
  proof (intro conjI)
    show "map fst threads' = map fst threads" using IH by simp
    show "map upd_thread_id us' = map upd_thread_id (u # us)" using IH w(2) by simp
    have "set (map upd_thread_id us) \<subseteq> dom (map_of (bt_remove ?t prev))" using IH by blast
    then show "set (map upd_thread_id (u # us)) \<subseteq> dom (map_of prev)"
      using sub by (simp del: map_of_bt_remove)
    show "\<forall>x. x \<notin> set (map upd_thread_id (u # us)) \<longrightarrow> map_of threads' x = map_of threads x" using IH by simp
    show "\<forall>u' \<in> set us'. \<exists>v \<in> set (u # us). update_applied E final ts prev threads threads' writes v u'"
      using IH head rest w(2) by (metis list.set_intros(1,2) set_ConsD)
  qed
qed simp

section \<open>Published entries\<close>

lemma validated_entry_utf8:
  assumes "validate_state E state = Inr ()" and "(t, entry) \<in> set (cs_threads state)"
    and "entry_last_event_hash entry = Some h"
  shows "valid_utf8 h"
proof -
  have "validate_entry entry = Inr ()"
    using assms(1,2) by (auto simp: validate_state_def ebind_eq_Inr for_each_eq_Inr)
  then show ?thesis
    using assms(3) by (auto simp: validate_entry_def ebind_eq_Inr validate_canonical_hash_eq_Inr intro: canonical_hash_utf8)
qed

lemma published_fresh:
  assumes "validate_snapshot E s = Inr ()" and "validate_chain_positions E state = Inr ()"
    and "(t, entry) \<in> set (cs_threads state)" and "snap_thread_id s = t"
    and "snap_chain_root_id s = cs_chain_root_id state" and "snap_status s = entry_status entry"
    and "snap_last_chain_seq s = cs_last_chain_seq state" and "snap_last_thread_seq s = entry_last_thread_seq entry"
    and "snap_last_event_hash s = entry_last_event_hash entry"
    and "instant E (snap_updated_at s) \<le> instant E (cs_updated_at state)"
  shows "fresh_snapshot E state t entry (snap_norm s)"
proof -
  have "validate_hash_sequence_pair (entry_last_thread_seq entry) (entry_last_event_hash entry) = Inr ()"
    "entry_last_thread_seq entry \<le> cs_last_chain_seq state"
    using assms(2,3) by (auto simp: validate_chain_positions_def ebind_eq_Inr for_each_eq_Inr require_eq_Inr)
  then show ?thesis
    using assms validate_snapshot_times(2) [OF assms(1)]
    by (simp add: fresh_snapshot_def validate_snapshot_norm validate_stored_snapshot_def)
qed

lemma published_storable:
  assumes "env_ok E" and "encodable_snapshot E new" and "validate_snapshot E s = Inr ()"
    and "s = (stamp_snapshot_position new entry n)\<lparr> snap_updated_at := u, snap_started_at := a, snap_finished_at := b \<rparr>"
    and "canonical_ts E u" and "\<forall>t. a = Some t \<longrightarrow> canonical_ts E t" and "\<forall>t. b = Some t \<longrightarrow> canonical_ts E t"
    and "entry_last_thread_seq entry < u64_bound" and "n < u64_bound"
    and "\<And>h. entry_last_event_hash entry = Some h \<Longrightarrow> valid_utf8 h"
    and "map_of cas (hash_snapshot E s) = Some (canonical_json E (snapshot_to_value s))"
  shows "load_hashed_snapshot E cas (hash_snapshot E s) = Inr (snap_norm s)"
proof -
  have "encodable_snapshot E s"
    unfolding assms(4)
    by (rule encodable_snapshot_times [OF encodable_snapshot_position [OF assms(2,8-10)]])
      (use assms(5-7) canonical_ts_utf8 in blast)+
  then show ?thesis
    by (intro load_snapshot_stored encodable_snapshot_storable assms(1,3,11))
qed

text \<open>Where the writes of a writer ended up: a batch that succeeded left each of them in the store.\<close>

definition stored_in :: "(string \<times> string) list \<Rightarrow> cas \<Rightarrow> bool" where
  "stored_in writes cas \<longleftrightarrow> (\<forall>(h, b) \<in> set writes. map_of cas h = Some b)"

lemma stored_in_simps [simp]:
  "stored_in [] cas" "stored_in (ws @ ws') cas \<longleftrightarrow> stored_in ws cas \<and> stored_in ws' cas"
  "stored_in (w # ws) cas \<longleftrightarrow> map_of cas (fst w) = Some (snd w) \<and> stored_in ws cas"
  by (auto simp: stored_in_def)

lemma stored_in_snapshot:
  "stored_in ws cas \<Longrightarrow> snapshot_write E s \<in> set ws \<Longrightarrow>
   map_of cas (hash_snapshot E s) = Some (canonical_json E (snapshot_to_value s))"
  by (force simp: stored_in_def snapshot_write_def hash_snapshot_def Let_def)

lemma updated_entry_grown:
  assumes env: "env_ok E" and sub: "map_of cas \<subseteq>\<^sub>m map_of cas'"
    and read: "read_current_snapshot_for_mutation E os j cas old t = Inr previous"
    and norm: "normalize_and_validate_snapshot_transition E previous (stamp_snapshot_position x entry1 (cs_last_chain_seq new)) ts = Inr s"
    and x: "encodable_snapshot E x" "snap_thread_id x = t" "snap_chain_root_id x = cs_chain_root_id new"
    and entry: "entry = entry1\<lparr> entry_snapshot_hash := hash_snapshot E s, entry_status := snap_status s \<rparr>"
    and new: "(t, entry) \<in> set (cs_threads new)" "validate_state E new = Inr ()"
      "validate_chain_positions E new = Inr ()" "state_wf new"
    and stored: "map_of cas' (hash_snapshot E s) = Some (canonical_json E (snapshot_to_value s))"
    and time: "instant E (snap_updated_at s) \<le> instant E (cs_updated_at new)"
    and staged: "staged \<noteq> []" "ts = ev_ts (snd (last staged))"
  shows "entry_grown E cas' old new staged t entry"
proof -
  obtain entry0 where e0: "map_of (cs_threads old) t = Some entry0"
      "load_hashed_snapshot E cas (entry_snapshot_hash entry0) = Inr previous" "validate_snapshot E previous = Inr ()"
    using read_current_snapshot_ok [OF read] by blast
  note n = normalize_transition_ok [OF norm e0(3)]
  obtain u a b where s: "s = (stamp_snapshot_position x entry1 (cs_last_chain_seq new))\<lparr> snap_updated_at := u,
      snap_started_at := a, snap_finished_at := b \<rparr>" "canonical_ts E u"
      "\<forall>t. a = Some t \<longrightarrow> canonical_ts E t" "\<forall>t. b = Some t \<longrightarrow> canonical_ts E t"
    using n(1) by blast
  have bounds: "entry_last_thread_seq entry1 < u64_bound" "cs_last_chain_seq new < u64_bound"
      "\<And>h. entry_last_event_hash entry1 = Some h \<Longrightarrow> valid_utf8 h"
    using new(1,4) validated_entry_utf8 [OF new(2,1)] entry by (auto simp: state_wf_def)
  have load: "load_hashed_snapshot E cas' (hash_snapshot E s) = Inr (snap_norm s)"
    by (rule published_storable [OF env x(1) n(3) s bounds stored])
  have before: "load_hashed_snapshot E cas' (entry_snapshot_hash entry0) = Inr previous"
    using load_hashed_mono(2) [OF sub] e0(2) by (rule result_leD)
  have "hash_snapshot E s \<noteq> entry_snapshot_hash entry0"
    using load before n(4) by auto
  moreover have "fresh_snapshot E new t entry (snap_norm s)"
    by (rule published_fresh [OF n(3) new(3,1)])
      (use s(1) x entry time in \<open>simp_all add: stamp_snapshot_position_def\<close>)
  ultimately show ?thesis
    using e0(1) load before n(2) staged entry
    by (auto simp: entry_grown_def historical_transition_norm)
qed

lemma added_entry_grown:
  assumes env: "env_ok E" and old: "map_of (cs_threads old) t = None"
    and norm: "normalize_and_validate_new_thread E (stamp_snapshot_position x entry1 (cs_last_chain_seq new))
      (cs_chain_root_id new) floor source = Inr s"
    and x: "encodable_snapshot E x" "snap_thread_id x = t"
    and entry: "entry = entry1\<lparr> entry_snapshot_hash := hash_snapshot E s \<rparr>" "entry_status entry1 = snap_status x"
    and new: "(t, entry) \<in> set (cs_threads new)" "validate_state E new = Inr ()"
      "validate_chain_positions E new = Inr ()" "state_wf new"
    and stored: "map_of cas' (hash_snapshot E s) = Some (canonical_json E (snapshot_to_value s))"
    and time: "instant E (snap_updated_at s) \<le> instant E (cs_updated_at new)"
  shows "entry_grown E cas' old new staged t entry"
proof -
  note n = normalize_new_thread_ok [OF norm]
  obtain u where u: "s = (stamp_snapshot_position x entry1 (cs_last_chain_seq new))\<lparr> snap_updated_at := u \<rparr>"
      "canonical_ts E u" using n(1) by blast
  have s: "s = (stamp_snapshot_position x entry1 (cs_last_chain_seq new))\<lparr> snap_updated_at := u,
      snap_started_at := snap_started_at s, snap_finished_at := snap_finished_at s \<rparr>" using u(1) by simp
  have bounds: "entry_last_thread_seq entry1 < u64_bound" "cs_last_chain_seq new < u64_bound"
      "\<And>h. entry_last_event_hash entry1 = Some h \<Longrightarrow> valid_utf8 h"
    using new(1,4) validated_entry_utf8 [OF new(2,1)] entry by (auto simp: state_wf_def)
  have ts: "\<forall>t. snap_started_at s = Some t \<longrightarrow> canonical_ts E t" "\<forall>t. snap_finished_at s = Some t \<longrightarrow> canonical_ts E t"
    using validate_snapshot_times(3,4) [OF n(2)] by blast+
  have load: "load_hashed_snapshot E cas' (hash_snapshot E s) = Inr (snap_norm s)"
    by (rule published_storable [OF env x(1) n(2) s u(2) ts bounds stored])
  moreover have "fresh_snapshot E new t entry (snap_norm s)"
    by (rule published_fresh [OF n(2) new(3,1)])
      (use u(1) x entry time n(4) in \<open>simp_all add: stamp_snapshot_position_def\<close>)
  ultimately show ?thesis
    using old n(3,5) entry(1) by (auto simp: entry_grown_def)
qed

section \<open>The prospective state\<close>

lemma prospective_state_ok:
  assumes "prospective_state E clock floors root prev leh seq threads = Inr state"
  shows "cs_chain_root_id state = root" "cs_prev_chain_state_hash state = prev" "cs_last_event_hash state = leh"
    "cs_last_chain_seq state = seq" "cs_threads state = threads" "validate_state E state = Inr ()"
    "validate_chain_positions E state = Inr ()"
    "f \<in> set floors \<Longrightarrow> instant E f \<le> instant E (cs_updated_at state)"
  using assms monotonic_now_ok(3) [of E clock floors _ f]
  by (auto simp: prospective_state_def ebind_eq_Inr Let_def)

lemma linked_log_hash_utf8:
  assumes "linked_log E cas root log" and "last_hash (of_thread t log) = Some h \<or> last_hash log = Some h"
  shows "valid_utf8 h"
proof -
  have last: "\<exists>e. (h, e) \<in> set xs" if "last_hash xs = Some h" for xs :: event_log
    using that last_in_set [of xs] by (cases "last xs") (auto simp: last_hash_def split: if_splits)
  then obtain e where "(h, e) \<in> set log"
    using assms(2) of_thread_subset by blast
  then have "load_hashed_event E cas h = Inr e" by (rule linked_log_member [OF assms(1)])
  then have "canonical_cas_hash h"
    by (auto simp: load_hashed_event_def load_hashed_def ebind_eq_Inr get_object_def split: if_splits)
  then show ?thesis by (rule canonical_hash_utf8)
qed

text \<open>One staged batch, after a log.\<close>

lemma staged_batch:
  assumes st: "stage_events E first base 0 lc lt events = Inr (stored, writes, lc', lt')"
    and env: "env_ok E" and ok: "stageable E root t floor events"
    and log: "linked_log E cas root log" "not_after E log (instant E floor)"
    and at: "first = Suc (length log)" "lc = last_hash log" "base = length (of_thread t log)"
      "lt = last_hash (of_thread t log)"
    and w: "stored_in writes cas"
  shows "linked_log E cas root (log @ staged_log E stored)" "lc' = last_hash (log @ staged_log E stored)"
    "lt' = last_hash (of_thread t (log @ staged_log E stored))"
    "\<And>h e. (h, e) \<in> set (staged_log E stored) \<Longrightarrow> ev_thread_id e = t"
    "length (staged_log E stored) = length events" "of_thread t (staged_log E stored) = staged_log E stored"
    "t' \<noteq> t \<Longrightarrow> of_thread t' (staged_log E stored) = []"
    "map (ev_ts \<circ> snd) (staged_log E stored) = map ev_ts events"
proof -
  have "linked_log E cas root (log @ staged_log E stored) \<and> lc' = last_hash (log @ staged_log E stored)
    \<and> lt' = last_hash (of_thread t (log @ staged_log E stored)) \<and> (\<forall>e \<in> set stored. ev_thread_id e = t)"
    by (rule stage_events_linked [OF st env ok log])
      (use at w linked_log_hash_utf8 [OF log(1)] in \<open>auto simp: stored_in_def\<close>)
  then show "linked_log E cas root (log @ staged_log E stored)" "lc' = last_hash (log @ staged_log E stored)"
    "lt' = last_hash (of_thread t (log @ staged_log E stored))"
    and t: "\<And>h e. (h, e) \<in> set (staged_log E stored) \<Longrightarrow> ev_thread_id e = t"
    by (auto simp: staged_log_def)
  show "length (staged_log E stored) = length events" "map (ev_ts \<circ> snd) (staged_log E stored) = map ev_ts events"
    using stage_events_shape [OF st] by (simp_all add: staged_log_def comp_def)
  show "of_thread t (staged_log E stored) = staged_log E stored"
    "t' \<noteq> t \<Longrightarrow> of_thread t' (staged_log E stored) = []"
    using t by (auto simp: of_thread_def filter_id_conv filter_empty_conv)
qed

lemma closed_log_extended:
  assumes old: "closed_log E cas old log" and link: "linked_log E cas (cs_chain_root_id new) (log @ staged)"
    and new: "cs_last_chain_seq new = cs_last_chain_seq old + length staged"
      "cs_last_event_hash new = last_hash (log @ staged)"
      "instant E (cs_updated_at old) \<le> instant E (cs_updated_at new)"
      "staged \<noteq> [] \<Longrightarrow> instant E (ev_ts (snd (last staged))) \<le> instant E (cs_updated_at new)"
    and entries: "\<And>t entry. (t, entry) \<in> set (cs_threads new) \<Longrightarrow>
      entry_last_event_hash entry = last_hash (of_thread t (log @ staged))
      \<and> entry_last_thread_seq entry = length (of_thread t (log @ staged))"
    and keys: "\<And>t. map_of (cs_threads old) t \<noteq> None \<Longrightarrow> map_of (cs_threads new) t \<noteq> None"
      "\<And>h e. (h, e) \<in> set staged \<Longrightarrow> map_of (cs_threads new) (ev_thread_id e) \<noteq> None"
  shows "closed_log E cas new (log @ staged)"
proof -
  have "not_after E (log @ staged) (instant E (cs_updated_at new))"
    using old new(3,4) by (cases "staged = []") (auto simp: closed_log_def not_after_def)
  then show ?thesis
    using old link new(1,2) entries keys unfolding closed_log_def by fastforce
qed

section \<open>The entries after the updates\<close>

lemma updates_grown:
  assumes env: "env_ok E" and sub: "map_of cas \<subseteq>\<^sub>m map_of cas'"
    and load: "load_previous_snapshots E os cas old (cs_chain_root_id new) added 0 [] us = Inr prev"
    and app: "apply_updates E os cas (cs_last_chain_seq new) ts tid le 0 prev threads us = Inr (cs_threads new, ws, us')"
    and x: "\<forall>u \<in> set us. encodable_snapshot E (upd_new_snapshot u)"
    and new: "validate_state E new = Inr ()" "validate_chain_positions E new = Inr ()" "state_wf new"
    and w: "stored_in ws cas'" and time: "\<forall>u \<in> set us'. instant E (snap_updated_at (upd_new_snapshot u)) \<le> instant E (cs_updated_at new)"
    and staged: "staged \<noteq> []" "ts = ev_ts (snd (last staged))"
    and e: "(t, entry) \<in> set (cs_threads new)"
  obtains entry1 where "map_of threads t = Some entry1" "entry_last_event_hash entry = entry_last_event_hash entry1"
    "entry_last_thread_seq entry = entry_last_thread_seq entry1"
    "entry = entry1 \<or> added \<noteq> Some t \<and> entry_grown E cas' old new staged t entry"
proof -
  note ap = apply_updates_ok [OF app] and lp = load_previous_snapshots_ok [OF load bt_sorted_Nil]
  have get: "map_of (cs_threads new) t = Some entry" using e new(3) by (simp add: state_wf_def bt_get_iff)
  show thesis
  proof (cases "t \<in> set (map upd_thread_id us)")
    case False
    then have "map_of threads t = Some entry" using ap get by metis
    then show ?thesis by (rule that) auto
  next
    case True
    then obtain u' where "u' \<in> set us'" "upd_thread_id u' = t" using ap by (metis (no_types, lifting) image_iff list.set_map)
    then obtain u where u: "u \<in> set us" "upd_thread_id u = t" "u' \<in> set us'"
        "update_applied E (cs_last_chain_seq new) ts prev threads (cs_threads new) ws u u'"
      using ap by (metis update_applied_def)
    then obtain entry1 previous where p: "map_of threads t = Some entry1" "map_of prev t = Some previous"
        "normalize_and_validate_snapshot_transition E previous
           (stamp_snapshot_position (upd_new_snapshot u) entry1 (cs_last_chain_seq new)) ts = Inr (upd_new_snapshot u')"
        "entry = entry1\<lparr> entry_snapshot_hash := hash_snapshot E (upd_new_snapshot u'),
           entry_status := snap_status (upd_new_snapshot u') \<rparr>" "snapshot_write E (upd_new_snapshot u') \<in> set ws"
      using get by (auto simp: update_applied_def)
    obtain j where j: "added \<noteq> Some t" "read_current_snapshot_for_mutation E os j cas old t = Inr previous"
      using lp(2) [OF p(2)] by auto
    have "entry_grown E cas' old new staged t entry"
      by (rule updated_entry_grown [OF env sub j(2) p(3) _ _ _ p(4) e new stored_in_snapshot [OF w p(5)] _ staged])
        (use x lp(3) [OF u(1)] u time in auto)
    with p j(1) show ?thesis by (intro that [OF p(1)]) auto
  qed
qed

section \<open>Every writer publishes a legal successor\<close>

lemma encodable_snapshot_thread_id: "encodable_snapshot E s \<Longrightarrow> valid_utf8 (snap_thread_id s)"
  by (simp add: encodable_snapshot_iff snapshot_fields_def)

lemma stored_state_write:
  "stored_in [state_write E s] cas \<longleftrightarrow> map_of cas (hash_chain_state E s) = Some (canonical_json E (state_to_value s))"
  by (simp add: state_write_def hash_chain_state_def Let_def)

lemma stored_snapshot_write:
  "map_of cas (fst (snapshot_write E s)) = Some (snd (snapshot_write E s)) \<longleftrightarrow>
   map_of cas (hash_snapshot E s) = Some (canonical_json E (snapshot_to_value s))"
  by (simp add: snapshot_write_def hash_snapshot_def Let_def)

lemma bt_entry_iff: "state_wf s \<Longrightarrow> (t, entry) \<in> set (cs_threads s) \<longleftrightarrow> map_of (cs_threads s) t = Some entry"
  by (simp add: state_wf_def bt_get_iff)

lemma unchanged_entry_grown: "map_of (cs_threads old) t = Some entry \<Longrightarrow> entry_grown E cas old new staged t entry"
  by (simp add: entry_grown_def)

lemma state_wf_insert:
  assumes "state_wf old" and "cs_chain_root_id new = cs_chain_root_id old" and "cs_last_chain_seq new < u64_bound"
    and "cs_threads new = bt_insert t entry (cs_threads old)" and "valid_utf8 t" and "entry_last_thread_seq entry < u64_bound"
  shows "state_wf new"
proof -
  have "valid_utf8 t' \<and> entry_last_thread_seq e < u64_bound" if "(t', e) \<in> set (cs_threads new)" for t' e
  proof -
    have "map_of (bt_insert t entry (cs_threads old)) t' = Some e"
      using that assms(1,4) by (simp add: bt_get_iff state_wf_def del: map_of_bt_insert)
    then have "t' = t \<and> e = entry \<or> (t', e) \<in> set (cs_threads old)"
      by (auto split: if_splits dest: map_of_SomeD)
    then show ?thesis using assms(1,5,6) by (auto simp: state_wf_def)
  qed
  then show ?thesis using assms(1-4) by (auto simp: state_wf_def)
qed

lemma legal_successorI:
  assumes pro: "prospective_state E clock floors (cs_chain_root_id old) (Some (hash_chain_state E old)) leh
      (cs_last_chain_seq old + length staged) threads = Inr new" and wf: "state_wf new"
    and floors: "cs_updated_at old \<in> set floors" "staged \<noteq> [] \<Longrightarrow> ev_ts (snd (last staged)) \<in> set floors"
    and first: "staged \<noteq> [] \<Longrightarrow> instant E (cs_updated_at old) \<le> instant E (ev_ts (snd (hd staged)))"
    and log: "\<And>log. closed_log E cas old log \<Longrightarrow> linked_log E cas (cs_chain_root_id old) (log @ staged)
        \<and> leh = last_hash (log @ staged)
        \<and> (\<forall>t entry. (t, entry) \<in> set threads \<longrightarrow> entry_last_event_hash entry = last_hash (of_thread t (log @ staged))
             \<and> entry_last_thread_seq entry = length (of_thread t (log @ staged)))"
    and keys: "\<And>t. map_of (cs_threads old) t \<noteq> None \<Longrightarrow> map_of threads t \<noteq> None"
      "\<And>h e. (h, e) \<in> set staged \<Longrightarrow> map_of threads (ev_thread_id e) \<noteq> None"
    and grown: "\<And>t entry. (t, entry) \<in> set threads \<Longrightarrow> entry_grown E cas old new staged t entry"
  shows "legal_successor E cas (hash_chain_state E old) old new staged"
proof -
  note n = prospective_state_ok [OF pro]
  have "closed_log E cas new (log @ staged)" if "closed_log E cas old log" for log
    by (rule closed_log_extended [OF that])
      (use log [OF that] n(1,3-5) n(8) [OF floors(1)] n(8) [OF floors(2)] keys in auto)
  then show ?thesis
    using n(1-7) n(8) [OF floors(1)] wf first keys(1) grown by (auto simp: legal_successor_def state_wf_def)
qed

lemma inserted_entries:
  assumes "state_wf old" and "state_wf new" and "cs_threads new = bt_insert t e (cs_threads old)"
  shows "(t', e') \<in> set (cs_threads new) \<longleftrightarrow> (if t' = t then e' = e else map_of (cs_threads old) t' = Some e')"
  using bt_entry_iff [OF assms(2)] assms(3) by auto

lemma prepare_add_thread_legal:
  assumes env: "env_ok E" and wf: "state_wf old" and root: "cs_chain_root_id old = au_chain_root_id au"
    and prep: "prepare_add_thread E os au x old = Inr (writes, new, res)"
    and x: "encodable_snapshot E x" and w: "stored_in writes cas'"
  shows "state_wf new" and "legal_successor E cas' (hash_chain_state E old) old new []"
proof -
  let ?t = "snap_thread_id x"
  let ?e1 = "genesis_entry [] (snap_status x)"
  from prep obtain s where t: "map_of (cs_threads old) ?t = None"
    and s: "normalize_and_validate_new_thread E (stamp_snapshot_position x ?e1 (cs_last_chain_seq old))
        (au_chain_root_id au) (cs_updated_at old) None = Inr s"
    and pro: "prospective_state E (os_clock os 0) [cs_updated_at old, snap_updated_at s]
         (au_chain_root_id au) (Some (hash_chain_state E old)) (cs_last_event_hash old) (cs_last_chain_seq old)
         (bt_insert (snap_thread_id s) (genesis_entry (hash_snapshot E s) (snap_status s)) (cs_threads old)) = Inr new"
    and writes: "writes = [snapshot_write E s, state_write E new]"
    by (auto simp: prepare_add_thread_def ebind_eq_Inr require_eq_Inr)
  note n = prospective_state_ok [OF pro] and ns = normalize_new_thread_ok [OF s]
  let ?e = "genesis_entry (hash_snapshot E s) (snap_status s)"
  have s1: "snap_thread_id s = ?t" "snap_status s = snap_status x"
    using ns(1) by (auto simp: stamp_snapshot_position_def)
  have threads: "cs_threads new = bt_insert ?t ?e (cs_threads old)" using n(5) s1(1) by simp
  show wf': "state_wf new"
    by (rule state_wf_insert [OF wf _ _ threads encodable_snapshot_thread_id [OF x]])
      (use n(1,4) root wf in \<open>simp_all add: state_wf_def genesis_entry_def\<close>)
  note mem = inserted_entries [OF wf wf' threads]
  have st: "map_of cas' (hash_snapshot E s) = Some (canonical_json E (snapshot_to_value s))"
    using w writes by (simp add: stored_snapshot_write)
  have s': "normalize_and_validate_new_thread E (stamp_snapshot_position x ?e1 (cs_last_chain_seq new))
      (cs_chain_root_id new) (cs_updated_at old) None = Inr s" using s n(1,4) by simp
  have "(?t, ?e) \<in> set (cs_threads new)" by (simp add: mem)
  from added_entry_grown [OF env t s' x refl _ _ this n(6,7) wf' st]
  have added: "entry_grown E cas' old new [] ?t ?e" using n(8) s1 by (simp add: genesis_entry_def)
  have pro': "prospective_state E (os_clock os 0) [cs_updated_at old, snap_updated_at s] (cs_chain_root_id old)
      (Some (hash_chain_state E old)) (cs_last_event_hash old) (cs_last_chain_seq old + length ([] :: event_log))
      (cs_threads new) = Inr new" using pro root n(5) by simp
  show "legal_successor E cas' (hash_chain_state E old) old new []"
  proof (rule legal_successorI [OF pro' wf'])
    show "linked_log E cas' (cs_chain_root_id old) (log @ []) \<and> cs_last_event_hash old = last_hash (log @ [])
        \<and> (\<forall>t entry. (t, entry) \<in> set (cs_threads new) \<longrightarrow> entry_last_event_hash entry = last_hash (of_thread t (log @ []))
             \<and> entry_last_thread_seq entry = length (of_thread t (log @ [])))" if log: "closed_log E cas' old log" for log
      using log closed_log_absent [OF log t] closed_log_entry [OF log]
      by (auto simp: closed_log_def mem genesis_entry_def dest: map_of_SomeD)
    show "entry_grown E cas' old new [] t' entry" if "(t', entry) \<in> set (cs_threads new)" for t' entry
      using that added unchanged_entry_grown [of old t' entry] by (auto simp: mem split: if_splits)
  qed (use threads in auto)
qed

lemma normalized_events:
  assumes "normalize_event_timestamps E events floor = Inr (final, clamped)"
  shows "length clamped = length events" and "canonical_ts E floor" and "canonical_ts E final"
    and "final = last (floor # map ev_ts clamped)" and "instant E floor \<le> instant E final"
    and "clamped \<noteq> [] \<Longrightarrow> instant E floor \<le> instant E (ev_ts (hd clamped))"
proof -
  note n = normalize_event_timestamps_ok [OF assms] and c = clamp_events_ok [OF n(2,1)]
  show "length clamped = length events" "canonical_ts E floor" "canonical_ts E final"
    "final = last (floor # map ev_ts clamped)" using n(1) c(1,2,4) by blast+
  show "instant E floor \<le> instant E (ev_ts (hd clamped))" if "clamped \<noteq> []"
    using that c(3) by (cases clamped) auto
  show "instant E floor \<le> instant E final"
    using c(3,4) by (cases "clamped = []") (auto simp: last_map)
qed

lemma staged_last:
  assumes "map (ev_ts \<circ> snd) staged = map ev_ts events" and "events \<noteq> []"
  shows "ev_ts (snd (last staged)) = last (floor # map ev_ts events)" "ev_ts (snd (hd staged)) = ev_ts (hd events)"
    "staged \<noteq> []"
proof -
  show ne: "staged \<noteq> []" using assms by auto
  have "last (map (ev_ts \<circ> snd) staged) = ev_ts (snd (last staged))" "hd (map (ev_ts \<circ> snd) staged) = ev_ts (snd (hd staged))"
    using ne by (simp_all add: last_map hd_map)
  then show "ev_ts (snd (last staged)) = last (floor # map ev_ts events)" "ev_ts (snd (hd staged)) = ev_ts (hd events)"
    using assms by (simp_all add: hd_map)
qed

lemma staged_thread:
  assumes "stage_events E first base offset lc lt events = Inr (stored, writes, lc', lt')"
    and "stageable E root t floor events" and "(h, e) \<in> set (staged_log E stored)"
  shows "ev_thread_id e = t"
proof -
  have "map ev_thread_id stored = map ev_thread_id events"
    using assms(1)
  proof (induction events arbitrary: offset lc lt stored writes)
    case (Cons event events)
    show ?case
      by (rule stage_events_ConsD [OF Cons.prems refl]) (use Cons.IH in \<open>auto simp: linked_event_def\<close>)
  qed simp
  moreover have "\<forall>e \<in> set events. ev_thread_id e = t" using assms(2) by (simp add: stageable_def)
  ultimately have "\<forall>x \<in> set (map ev_thread_id stored). x = t" by simp
  with assms(3) show ?thesis by (auto simp: staged_log_def)
qed

lemma u64_try_from_eq_Inr [result_iff]: "u64_try_from n = Inr m \<longleftrightarrow> m = n \<and> n < u64_bound"
  by (auto simp: u64_try_from_def)

lemma prepare_add_thread_with_eventsD:
  assumes "prepare_add_thread_with_events E os au x events old = Inr (writes, new, res)"
  obtains ts evs stored ews lc lt s where "map_of (cs_threads old) (snap_thread_id x) = None"
    "normalize_event_timestamps E events (cs_updated_at old) = Inr (ts, evs)"
    "cs_last_chain_seq old + length evs < u64_bound"
    "stage_events E (Suc (cs_last_chain_seq old)) 0 0 (cs_last_event_hash old) None evs = Inr (stored, ews, lc, lt)"
    "normalize_and_validate_new_thread E (stamp_snapshot_position x \<lparr> entry_snapshot_hash = [],
        entry_last_event_hash = lt, entry_last_thread_seq = length evs, entry_status = snap_status x \<rparr>
        (cs_last_chain_seq old + length evs)) (au_chain_root_id au) ts None = Inr s"
    "prospective_state E (os_clock os 0) [cs_updated_at old, ts, snap_updated_at s]
        (au_chain_root_id au) (Some (hash_chain_state E old)) lc (cs_last_chain_seq old + length evs)
        (bt_insert (snap_thread_id s) \<lparr> entry_snapshot_hash = hash_snapshot E s,
          entry_last_event_hash = lt, entry_last_thread_seq = length evs, entry_status = snap_status x \<rparr>
          (cs_threads old)) = Inr new"
    "writes = ews @ [snapshot_write E s, state_write E new]"
  using assms
  unfolding prepare_add_thread_with_events_def ebind_eq_Inr require_eq_Inr ok_or_eq_Inr u64_try_from_eq_Inr
    checked_add_eq_Some Let_def case_prod_unfold
  by (elim exE conjE) (simp add: ebind_eq_Inr prod_eq_iff)

lemma prepare_add_thread_with_events_legal:
  assumes env: "env_ok E" and wf: "state_wf old" and root: "cs_chain_root_id old = au_chain_root_id au"
    and prep: "prepare_add_thread_with_events E os au x events old = Inr (writes, new, res)"
    and x: "encodable_snapshot E x" and ev: "\<forall>e \<in> set events. encodable_event E e" "events \<noteq> []"
      "validate_event_identities E (au_chain_root_id au) (snap_thread_id x) events = Inr ()"
    and w: "stored_in writes cas'"
  shows "state_wf new \<and> (\<exists>staged. legal_successor E cas' (hash_chain_state E old) old new staged)"
  using prep
proof (rule prepare_add_thread_with_eventsD)
  let ?t = "snap_thread_id x"
  fix ts and evs stored :: "thread_event list" and ews lc lt s
  let ?e1 = "\<lparr> entry_snapshot_hash = [], entry_last_event_hash = lt, entry_last_thread_seq = length evs,
      entry_status = snap_status x \<rparr>"
  let ?e = "\<lparr> entry_snapshot_hash = hash_snapshot E s, entry_last_event_hash = lt, entry_last_thread_seq = length evs,
      entry_status = snap_status x \<rparr>"
  let ?staged = "staged_log E stored"
  assume t: "map_of (cs_threads old) ?t = None"
    and norm: "normalize_event_timestamps E events (cs_updated_at old) = Inr (ts, evs)"
    and len: "cs_last_chain_seq old + length evs < u64_bound"
    and st: "stage_events E (Suc (cs_last_chain_seq old)) 0 0 (cs_last_event_hash old) None evs = Inr (stored, ews, lc, lt)"
    and s: "normalize_and_validate_new_thread E (stamp_snapshot_position x ?e1 (cs_last_chain_seq old + length evs))
        (au_chain_root_id au) ts None = Inr s"
    and pro: "prospective_state E (os_clock os 0) [cs_updated_at old, ts, snap_updated_at s] (au_chain_root_id au)
        (Some (hash_chain_state E old)) lc (cs_last_chain_seq old + length evs)
        (bt_insert (snap_thread_id s) ?e (cs_threads old)) = Inr new"
    and writes: "writes = ews @ [snapshot_write E s, state_write E new]"
  note n = prospective_state_ok [OF pro] and ns = normalize_new_thread_ok [OF s] and nt = normalized_events [OF norm]
  have threads: "cs_threads new = bt_insert ?t ?e (cs_threads old)"
    using n(5) ns(1) by (auto simp: stamp_snapshot_position_def)
  have wf': "state_wf new"
    by (rule state_wf_insert [OF wf _ _ threads encodable_snapshot_thread_id [OF x]]) (use n(1,4) root len in \<open>simp_all\<close>)
  note mem = inserted_entries [OF wf wf' threads]
  have evs: "evs \<noteq> []" using nt(1) ev(2) by auto
  have ws: "stored_in ews cas'" "map_of cas' (hash_snapshot E s) = Some (canonical_json E (snapshot_to_value s))"
    using w writes by (simp_all add: stored_snapshot_write)
  have shape: "length ?staged = length evs" "map (ev_ts \<circ> snd) ?staged = map ev_ts evs"
    using stage_events_shape [OF st] by (simp_all add: staged_log_def comp_def)
  note sl = staged_last [OF shape(2) evs]
  have s': "normalize_and_validate_new_thread E (stamp_snapshot_position x ?e1 (cs_last_chain_seq new))
      (cs_chain_root_id new) ts None = Inr s" using s n(1,4) by simp
  have "(?t, ?e) \<in> set (cs_threads new)" by (simp add: mem)
  from added_entry_grown [OF env t s' x refl _ _ this n(6,7) wf' ws(2)]
  have added: "entry_grown E cas' old new ?staged ?t ?e" using n(8) by simp
  have pro': "prospective_state E (os_clock os 0) [cs_updated_at old, ts, snap_updated_at s] (cs_chain_root_id old)
      (Some (hash_chain_state E old)) lc (cs_last_chain_seq old + length ?staged) (cs_threads new) = Inr new"
    using pro root shape(1) n(5) by simp
  have "legal_successor E cas' (hash_chain_state E old) old new ?staged"
  proof (rule legal_successorI [OF pro' wf'])
    fix log assume log: "closed_log E cas' old log"
    have sb: "stageable E (cs_chain_root_id old) ?t (cs_updated_at old) evs"
      using normalized_stageable [OF norm ev(3,1)] root by simp
    have l: "linked_log E cas' (cs_chain_root_id old) log" "not_after E log (instant E (cs_updated_at old))"
        "Suc (cs_last_chain_seq old) = Suc (length log)" "cs_last_event_hash old = last_hash log"
        "0 = length (of_thread ?t log)" "None = last_hash (of_thread ?t log)"
      using log closed_log_absent [OF log t] by (simp_all add: closed_log_def)
    note b = staged_batch [OF st env sb l ws(1)]
    show "linked_log E cas' (cs_chain_root_id old) (log @ ?staged) \<and> lc = last_hash (log @ ?staged)
        \<and> (\<forall>t entry. (t, entry) \<in> set (cs_threads new) \<longrightarrow> entry_last_event_hash entry = last_hash (of_thread t (log @ ?staged))
             \<and> entry_last_thread_seq entry = length (of_thread t (log @ ?staged)))"
      using b(1-3,6,7) closed_log_absent [OF log t] closed_log_entry [OF log] shape(1)
      by (auto simp: mem dest: map_of_SomeD split: if_splits)
  next
    show "map_of (cs_threads new) (ev_thread_id e) \<noteq> None" if "(h, e) \<in> set ?staged" for h e
      using that staged_thread [OF st normalized_stageable [OF norm ev(3,1)]] threads by simp
    show "entry_grown E cas' old new ?staged t' entry" if "(t', entry) \<in> set (cs_threads new)" for t' entry
      using that added unchanged_entry_grown [of old t' entry] by (auto simp: mem split: if_splits)
  qed (use threads sl nt(4,6) evs sl(1) [of "cs_updated_at old"] in auto)
  with wf' show ?thesis by blast
qed


lemma prepare_appendD:
  assumes "prepare_append E os au tid events us old cas = Inr (writes, new, res)"
  obtains entry0 prev ts evs stored ews lc lt sws us' where "map_of (cs_threads old) tid = Some entry0"
    "load_previous_snapshots E os cas old (au_chain_root_id au) None 0 [] us = Inr prev"
    "validate_event_identities E (au_chain_root_id au) tid events = Inr ()"
    "normalize_event_timestamps E events (cs_updated_at old) = Inr (ts, evs)"
    "cs_last_chain_seq old + length evs < u64_bound" "entry_last_thread_seq entry0 + length evs < u64_bound"
    "stage_events E (Suc (cs_last_chain_seq old)) (entry_last_thread_seq entry0) 0 (cs_last_event_hash old)
       (entry_last_event_hash entry0) evs = Inr (stored, ews, lc, lt)"
    "apply_updates E os cas (cs_last_chain_seq old + length evs) ts tid (if stored = [] then None else Some (last stored))
       0 prev (bt_modify tid (\<lambda>entry. entry\<lparr> entry_last_event_hash := lt,
         entry_last_thread_seq := entry_last_thread_seq entry0 + length evs \<rparr>) (cs_threads old)) us
       = Inr (cs_threads new, sws, us')"
    "prospective_state E (os_clock os 0)
       ([cs_updated_at old, ts] @ map (\<lambda>u. snap_updated_at (upd_new_snapshot u)) us')
       (au_chain_root_id au) (Some (hash_chain_state E old)) lc (cs_last_chain_seq old + length evs) (cs_threads new)
       = Inr new"
    "writes = ews @ sws @ [state_write E new]"
proof -
  from assms obtain entry0 prev ts evs stored ews lc lt threads sws us' where d: "map_of (cs_threads old) tid = Some entry0"
    "load_previous_snapshots E os cas old (au_chain_root_id au) None 0 [] us = Inr prev"
    "validate_event_identities E (au_chain_root_id au) tid events = Inr ()"
    "normalize_event_timestamps E events (cs_updated_at old) = Inr (ts, evs)"
    "cs_last_chain_seq old + length evs < u64_bound" "entry_last_thread_seq entry0 + length evs < u64_bound"
    "stage_events E (Suc (cs_last_chain_seq old)) (entry_last_thread_seq entry0) 0 (cs_last_event_hash old)
       (entry_last_event_hash entry0) evs = Inr (stored, ews, lc, lt)"
    "apply_updates E os cas (cs_last_chain_seq old + length evs) ts tid (if stored = [] then None else Some (last stored))
       0 prev (bt_modify tid (\<lambda>entry. entry\<lparr> entry_last_event_hash := lt,
         entry_last_thread_seq := entry_last_thread_seq entry0 + length evs \<rparr>) (cs_threads old)) us
       = Inr (threads, sws, us')"
    "prospective_state E (os_clock os 0)
       ([cs_updated_at old, ts] @ map (\<lambda>u. snap_updated_at (upd_new_snapshot u)) us')
       (au_chain_root_id au) (Some (hash_chain_state E old)) lc (cs_last_chain_seq old + length evs) threads
       = Inr new"
    "writes = ews @ sws @ [state_write E new]"
    unfolding prepare_append_def ebind_eq_Inr require_eq_Inr ok_or_eq_Inr u64_try_from_eq_Inr
      checked_add_eq_Some case_prod_unfold expect_def
    by (elim exE conjE) (simp add: ebind_eq_Inr prod_eq_iff)
  then show thesis using that prospective_state_ok(5) [OF d(9)] by simp
qed

lemma apply_updates_positions:
  assumes "apply_updates E os cas final ts tid le i prev threads us = Inr (threads', ws, us')"
    and "map_of threads' t = Some entry"
  shows "\<exists>entry1. map_of threads t = Some entry1 \<and> entry_last_event_hash entry = entry_last_event_hash entry1
    \<and> entry_last_thread_seq entry = entry_last_thread_seq entry1"
proof (cases "t \<in> set (map upd_thread_id us)")
  case True
  note ap = apply_updates_ok [OF assms(1)]
  obtain u' where "u' \<in> set us'" "upd_thread_id u' = t"
    using ap True by (metis (no_types, lifting) image_iff list.set_map)
  then obtain u where "upd_thread_id u = t" "update_applied E final ts prev threads threads' ws u u'"
    using ap by (metis update_applied_def)
  then show ?thesis using assms(2) by (auto simp: update_applied_def)
qed (use apply_updates_ok [OF assms(1)] assms(2) in auto)

lemma state_wf_updated:
  assumes "state_wf old" and "cs_chain_root_id new = cs_chain_root_id old" and "cs_last_chain_seq new < u64_bound"
    and app: "apply_updates E os cas final ts tid le i prev threads us = Inr (cs_threads new, ws, us')"
    and "bt_sorted threads" and "\<And>t e. map_of threads t = Some e \<Longrightarrow> valid_utf8 t \<and> entry_last_thread_seq e < u64_bound"
  shows "state_wf new"
proof -
  have "map fst (cs_threads new) = map fst threads" using apply_updates_ok [OF app] by blast
  then have s: "bt_sorted (cs_threads new)" using assms(5) by (simp add: bt_sorted_def)
  have "valid_utf8 t \<and> entry_last_thread_seq e < u64_bound" if "(t, e) \<in> set (cs_threads new)" for t e
    using apply_updates_positions [OF app, of t e] assms(6) [of t] that s by (auto simp: bt_get_iff)
  then show ?thesis using assms(1-3) s by (auto simp: state_wf_def)
qed

lemma apply_updates_keys:
  assumes "apply_updates E os cas final ts tid le i prev threads us = Inr (threads', ws, us')"
  shows "map_of threads' t \<noteq> None \<longleftrightarrow> map_of threads t \<noteq> None"
proof -
  have "map fst threads' = map fst threads" using apply_updates_ok [OF assms] by blast
  then have "fst ` set threads' = fst ` set threads" by (metis list.set_map)
  then show ?thesis by (simp add: map_of_eq_None_iff)
qed

lemma state_wf_entry:
  "state_wf s \<Longrightarrow> map_of (cs_threads s) t = Some e \<Longrightarrow> valid_utf8 t \<and> entry_last_thread_seq e < u64_bound"
  by (auto simp: state_wf_def dest: map_of_SomeD)

text \<open>
  A transition that stages events, sets positions (\<open>threads\<close>) and applies snapshot updates: the
  entries before the updates are old ones up to their position, or the thread the operation adds.
\<close>

lemma legal_with_updates:
  assumes env: "env_ok E" and sub: "map_of cas \<subseteq>\<^sub>m map_of cas'" and wf': "state_wf new" and ne: "staged \<noteq> []"
    and load: "load_previous_snapshots E os cas old (cs_chain_root_id old) added 0 [] us = Inr prev"
    and app: "apply_updates E os cas (cs_last_chain_seq old + length staged) (ev_ts (snd (last staged))) tid le 0 prev
      threads us = Inr (cs_threads new, sws, us')"
    and pro: "prospective_state E clock (floors @ map (\<lambda>u. snap_updated_at (upd_new_snapshot u)) us')
      (cs_chain_root_id old) (Some (hash_chain_state E old)) lc (cs_last_chain_seq old + length staged) (cs_threads new) = Inr new"
    and us: "\<forall>u \<in> set us. encodable_snapshot E (upd_new_snapshot u)" and sws: "stored_in sws cas'"
    and floors: "cs_updated_at old \<in> set floors" "ev_ts (snd (last staged)) \<in> set floors"
      "instant E (cs_updated_at old) \<le> instant E (ev_ts (snd (hd staged)))"
    and entries: "\<And>t e. map_of threads t = Some e \<Longrightarrow>
      (\<exists>e0. map_of (cs_threads old) t = Some e0 \<and> entry_snapshot_hash e = entry_snapshot_hash e0
        \<and> entry_status e = entry_status e0)
      \<or> (map_of (cs_threads new) t = Some e \<longrightarrow> entry_grown E cas' old new staged t e)"
    and log: "\<And>log. closed_log E cas' old log \<Longrightarrow> linked_log E cas' (cs_chain_root_id old) (log @ staged)
        \<and> lc = last_hash (log @ staged)
        \<and> (\<forall>t entry. map_of threads t = Some entry \<longrightarrow> entry_last_event_hash entry = last_hash (of_thread t (log @ staged))
             \<and> entry_last_thread_seq entry = length (of_thread t (log @ staged)))"
    and keys: "\<And>t. map_of (cs_threads old) t \<noteq> None \<Longrightarrow> map_of threads t \<noteq> None"
      "\<And>h e. (h, e) \<in> set staged \<Longrightarrow> map_of threads (ev_thread_id e) \<noteq> None"
  shows "legal_successor E cas' (hash_chain_state E old) old new staged"
proof (rule legal_successorI [OF pro wf'])
  note n = prospective_state_ok [OF pro]
  show "linked_log E cas' (cs_chain_root_id old) (log @ staged) \<and> lc = last_hash (log @ staged)
      \<and> (\<forall>t entry. (t, entry) \<in> set (cs_threads new) \<longrightarrow> entry_last_event_hash entry = last_hash (of_thread t (log @ staged))
           \<and> entry_last_thread_seq entry = length (of_thread t (log @ staged)))" if "closed_log E cas' old log" for log
    using log [OF that] apply_updates_positions [OF app] unfolding bt_entry_iff [OF wf'] by metis
  show "map_of (cs_threads new) t \<noteq> None" if "map_of (cs_threads old) t \<noteq> None" for t
    using apply_updates_keys [OF app] keys(1) [OF that] by blast
  show "map_of (cs_threads new) (ev_thread_id e) \<noteq> None" if "(h, e) \<in> set staged" for h e
    using apply_updates_keys [OF app] keys(2) [OF that] by blast
  show "entry_grown E cas' old new staged t entry" if e: "(t, entry) \<in> set (cs_threads new)" for t entry
  proof (rule updates_grown [OF env sub _ _ us n(6,7) wf' sws _ ne refl e])
    show "load_previous_snapshots E os cas old (cs_chain_root_id new) added 0 [] us = Inr prev" using load n(1) by simp
    show "apply_updates E os cas (cs_last_chain_seq new) (ev_ts (snd (last staged))) tid le 0 prev threads us =
      Inr (cs_threads new, sws, us')" using app n(4) by simp
    show "\<forall>u \<in> set us'. instant E (snap_updated_at (upd_new_snapshot u)) \<le> instant E (cs_updated_at new)" using n(8) by simp
    fix e1 assume "map_of threads t = Some e1" "entry = e1 \<or> added \<noteq> Some t \<and> entry_grown E cas' old new staged t entry"
    then show ?thesis
      using entries [of t e1] e unfolding bt_entry_iff [OF wf'] by (auto simp: entry_grown_def)
  qed
qed (use floors in auto)

lemma prepare_append_legal:
  assumes env: "env_ok E" and wf: "state_wf old" and root: "cs_chain_root_id old = au_chain_root_id au"
    and prep: "prepare_append E os au tid events us old cas = Inr (writes, new, res)"
    and ev: "\<forall>e \<in> set events. encodable_event E e" "events \<noteq> []"
    and us: "\<forall>u \<in> set us. encodable_snapshot E (upd_new_snapshot u)"
    and w: "stored_in writes cas'" and sub: "map_of cas \<subseteq>\<^sub>m map_of cas'"
  shows "state_wf new \<and> (\<exists>staged. legal_successor E cas' (hash_chain_state E old) old new staged)"
  using prep
proof (rule prepare_appendD)
  fix entry0 :: chain_thread_entry and prev ts and evs stored :: "thread_event list" and ews lc lt sws us'
  let ?f = "\<lambda>entry :: chain_thread_entry. entry\<lparr> entry_last_event_hash := lt, entry_last_thread_seq := entry_last_thread_seq entry0 + length evs \<rparr>"
  let ?staged = "staged_log E stored"
  assume e0: "map_of (cs_threads old) tid = Some entry0"
    and load: "load_previous_snapshots E os cas old (au_chain_root_id au) None 0 [] us = Inr prev"
    and ids: "validate_event_identities E (au_chain_root_id au) tid events = Inr ()"
    and norm: "normalize_event_timestamps E events (cs_updated_at old) = Inr (ts, evs)"
    and len: "cs_last_chain_seq old + length evs < u64_bound" "entry_last_thread_seq entry0 + length evs < u64_bound"
    and st: "stage_events E (Suc (cs_last_chain_seq old)) (entry_last_thread_seq entry0) 0 (cs_last_event_hash old)
       (entry_last_event_hash entry0) evs = Inr (stored, ews, lc, lt)"
    and app: "apply_updates E os cas (cs_last_chain_seq old + length evs) ts tid
       (if stored = [] then None else Some (last stored)) 0 prev (bt_modify tid ?f (cs_threads old)) us
       = Inr (cs_threads new, sws, us')"
    and pro: "prospective_state E (os_clock os 0)
       ([cs_updated_at old, ts] @ map (\<lambda>u. snap_updated_at (upd_new_snapshot u)) us')
       (au_chain_root_id au) (Some (hash_chain_state E old)) lc (cs_last_chain_seq old + length evs) (cs_threads new) = Inr new"
    and writes: "writes = ews @ sws @ [state_write E new]"
  note n = prospective_state_ok [OF pro] and nt = normalized_events [OF norm]
  have wf': "state_wf new"
    by (rule state_wf_updated [OF wf _ _ app]) (use n(1,4) root len wf state_wf_entry [OF wf] in \<open>auto simp: state_wf_def split: if_splits\<close>)
  have evs: "evs \<noteq> []" using nt(1) ev(2) by auto
  have ws: "stored_in ews cas'" "stored_in sws cas'" using w writes by simp_all
  have shape: "length ?staged = length evs" "map (ev_ts \<circ> snd) ?staged = map ev_ts evs"
    using stage_events_shape [OF st] by (simp_all add: staged_log_def comp_def)
  note sl = staged_last [OF shape(2) evs]
  have ts: "ts = ev_ts (snd (last ?staged))" using nt(4) sl(1) [of "cs_updated_at old"] by simp
  have sb: "stageable E (cs_chain_root_id old) tid (cs_updated_at old) evs"
    using normalized_stageable [OF norm ids ev(1)] root by simp
  have "legal_successor E cas' (hash_chain_state E old) old new ?staged"
  proof (rule legal_with_updates [OF env sub wf' sl(3) load [folded root] _ _ us ws(2)])
    show "apply_updates E os cas (cs_last_chain_seq old + length ?staged) (ev_ts (snd (last ?staged))) tid
        (if stored = [] then None else Some (last stored)) 0 prev (bt_modify tid ?f (cs_threads old)) us
      = Inr (cs_threads new, sws, us')" using app ts shape(1) by simp
    show "prospective_state E (os_clock os 0) ([cs_updated_at old, ts] @ map (\<lambda>u. snap_updated_at (upd_new_snapshot u)) us')
        (cs_chain_root_id old) (Some (hash_chain_state E old)) lc (cs_last_chain_seq old + length ?staged) (cs_threads new) = Inr new"
      using pro root shape(1) by simp
    fix log assume log: "closed_log E cas' old log"
    have l: "linked_log E cas' (cs_chain_root_id old) log" "not_after E log (instant E (cs_updated_at old))"
        "Suc (cs_last_chain_seq old) = Suc (length log)" "cs_last_event_hash old = last_hash log"
        "entry_last_thread_seq entry0 = length (of_thread tid log)" "entry_last_event_hash entry0 = last_hash (of_thread tid log)"
      using log closed_log_entry [OF log map_of_SomeD [OF e0]] by (simp_all add: closed_log_def)
    note b = staged_batch [OF st env sb l ws(1)]
    show "linked_log E cas' (cs_chain_root_id old) (log @ ?staged) \<and> lc = last_hash (log @ ?staged)
        \<and> (\<forall>t entry. map_of (bt_modify tid ?f (cs_threads old)) t = Some entry \<longrightarrow>
             entry_last_event_hash entry = last_hash (of_thread t (log @ ?staged))
             \<and> entry_last_thread_seq entry = length (of_thread t (log @ ?staged)))"
      using b(1-3,6,7) closed_log_entry [OF log] shape(1) l(5) by (auto simp: bt_entry_iff [OF wf] split: if_splits)
  qed (use staged_thread [OF st sb] e0 ts sl nt(6) evs in \<open>auto split: if_splits\<close>)
  with wf' show ?thesis by blast
qed

text \<open>The entry of the thread that the combined operation adds, before its snapshot is known.\<close>

definition added_entry :: "string option \<Rightarrow> nat \<Rightarrow> thread_status \<Rightarrow> string \<Rightarrow> chain_thread_entry" where
  "added_entry lt n status h = \<lparr> entry_snapshot_hash = h, entry_last_event_hash = lt, entry_last_thread_seq = n,
     entry_status = status \<rparr>"

lemma prepare_add_and_appendD:
  assumes "prepare_add_and_append E os au x new_events xt x_events us old cas = Inr (writes, new, res)"
  obtains entry0 prev ts1 ts nevs xevs nst nws lc1 lt1 xst xws lc lt s uws us' where
    "map_of (cs_threads old) (snap_thread_id x) = None" "map_of (cs_threads old) xt = Some entry0"
    "load_previous_snapshots E os cas old (au_chain_root_id au) (Some (snap_thread_id x)) 0 [] us = Inr prev"
    "normalize_event_timestamps E new_events (cs_updated_at old) = Inr (ts1, nevs)"
    "normalize_event_timestamps E x_events ts1 = Inr (ts, xevs)"
    "cs_last_chain_seq old + (length nevs + length xevs) < u64_bound" "entry_last_thread_seq entry0 + length xevs < u64_bound"
    "stage_events E (Suc (cs_last_chain_seq old)) 0 0 (cs_last_event_hash old) None nevs = Inr (nst, nws, lc1, lt1)"
    "stage_events E (Suc (cs_last_chain_seq old) + length nevs) (entry_last_thread_seq entry0) 0 lc1
       (entry_last_event_hash entry0) xevs = Inr (xst, xws, lc, lt)"
    "normalize_and_validate_new_thread E (stamp_snapshot_position x (added_entry lt1 (length nevs) (snap_status x) [])
        (cs_last_chain_seq old + (length nevs + length xevs))) (au_chain_root_id au) ts (Some xt) = Inr s"
    "apply_updates E os cas (cs_last_chain_seq old + (length nevs + length xevs)) ts xt
       (if nst @ xst = [] then None else Some (last (nst @ xst))) 0 prev
       (bt_modify xt (\<lambda>entry. entry\<lparr> entry_last_event_hash := lt,
         entry_last_thread_seq := entry_last_thread_seq entry0 + length xevs \<rparr>)
         (bt_insert (snap_thread_id s) (added_entry lt1 (length nevs) (snap_status x) (hash_snapshot E s)) (cs_threads old))) us
       = Inr (cs_threads new, uws, us')"
    "prospective_state E (os_clock os 0)
       ([cs_updated_at old, ts, snap_updated_at s] @ map (\<lambda>u. snap_updated_at (upd_new_snapshot u)) us')
       (au_chain_root_id au) (Some (hash_chain_state E old)) lc (cs_last_chain_seq old + (length nevs + length xevs))
       (cs_threads new) = Inr new"
    "writes = nws @ xws @ [snapshot_write E s] @ uws @ [state_write E new]"
proof -
  from assms obtain entry0 prev ts1 ts nevs xevs nst nws lc1 lt1 xst xws lc lt s threads uws us' where d:
    "map_of (cs_threads old) (snap_thread_id x) = None" "map_of (cs_threads old) xt = Some entry0"
    "load_previous_snapshots E os cas old (au_chain_root_id au) (Some (snap_thread_id x)) 0 [] us = Inr prev"
    "normalize_event_timestamps E new_events (cs_updated_at old) = Inr (ts1, nevs)"
    "normalize_event_timestamps E x_events ts1 = Inr (ts, xevs)"
    "cs_last_chain_seq old + (length nevs + length xevs) < u64_bound" "entry_last_thread_seq entry0 + length xevs < u64_bound"
    "stage_events E (Suc (cs_last_chain_seq old)) 0 0 (cs_last_event_hash old) None nevs = Inr (nst, nws, lc1, lt1)"
    "stage_events E (Suc (cs_last_chain_seq old) + length nevs) (entry_last_thread_seq entry0) 0 lc1
       (entry_last_event_hash entry0) xevs = Inr (xst, xws, lc, lt)"
    "normalize_and_validate_new_thread E (stamp_snapshot_position x (added_entry lt1 (length nevs) (snap_status x) [])
        (cs_last_chain_seq old + (length nevs + length xevs))) (au_chain_root_id au) ts (Some xt) = Inr s"
    "apply_updates E os cas (cs_last_chain_seq old + (length nevs + length xevs)) ts xt
       (if nst @ xst = [] then None else Some (last (nst @ xst))) 0 prev
       (bt_modify xt (\<lambda>entry. entry\<lparr> entry_last_event_hash := lt,
         entry_last_thread_seq := entry_last_thread_seq entry0 + length xevs \<rparr>)
         (bt_insert (snap_thread_id s) (added_entry lt1 (length nevs) (snap_status x) (hash_snapshot E s)) (cs_threads old))) us
       = Inr (threads, uws, us')"
    "prospective_state E (os_clock os 0)
       ([cs_updated_at old, ts, snap_updated_at s] @ map (\<lambda>u. snap_updated_at (upd_new_snapshot u)) us')
       (au_chain_root_id au) (Some (hash_chain_state E old)) lc (cs_last_chain_seq old + (length nevs + length xevs))
       threads = Inr new"
    "writes = nws @ xws @ [snapshot_write E s] @ uws @ [state_write E new]"
    unfolding prepare_add_and_append_def ebind_eq_Inr require_eq_Inr ok_or_eq_Inr u64_try_from_eq_Inr
      checked_add_eq_Some case_prod_unfold expect_def Let_def added_entry_def
    by (elim exE conjE) (simp add: ebind_eq_Inr prod_eq_iff)
  then show thesis using that prospective_state_ok(5) [OF d(12)] by simp
qed

lemma prepare_add_and_append_legal:
  assumes env: "env_ok E" and wf: "state_wf old" and root: "cs_chain_root_id old = au_chain_root_id au"
    and prep: "prepare_add_and_append E os au x new_events xt x_events us old cas = Inr (writes, new, res)"
    and x: "encodable_snapshot E x"
    and nev: "\<forall>e \<in> set new_events. encodable_event E e" "new_events \<noteq> []"
      "validate_event_identities E (au_chain_root_id au) (snap_thread_id x) new_events = Inr ()"
    and xev: "\<forall>e \<in> set x_events. encodable_event E e" "x_events \<noteq> []"
      "validate_event_identities E (au_chain_root_id au) xt x_events = Inr ()"
    and us: "\<forall>u \<in> set us. encodable_snapshot E (upd_new_snapshot u)"
    and w: "stored_in writes cas'" and sub: "map_of cas \<subseteq>\<^sub>m map_of cas'"
  shows "state_wf new \<and> (\<exists>staged. legal_successor E cas' (hash_chain_state E old) old new staged)"
  using prep
proof (rule prepare_add_and_appendD)
  let ?t = "snap_thread_id x"
  fix entry0 :: chain_thread_entry and prev ts1 ts and nevs xevs nst :: "thread_event list" and nws lc1 lt1
    and xst :: "thread_event list" and xws lc lt s uws us'
  let ?f = "\<lambda>entry :: chain_thread_entry. entry\<lparr> entry_last_event_hash := lt,
      entry_last_thread_seq := entry_last_thread_seq entry0 + length xevs \<rparr>"
  let ?e1 = "added_entry lt1 (length nevs) (snap_status x) []"
  let ?e = "added_entry lt1 (length nevs) (snap_status x) (hash_snapshot E s)"
  let ?threads = "bt_modify xt ?f (bt_insert (snap_thread_id s) ?e (cs_threads old))"
  let ?n = "staged_log E nst" and ?x = "staged_log E xst"
  assume t: "map_of (cs_threads old) ?t = None" and e0: "map_of (cs_threads old) xt = Some entry0"
    and load: "load_previous_snapshots E os cas old (au_chain_root_id au) (Some ?t) 0 [] us = Inr prev"
    and nnorm: "normalize_event_timestamps E new_events (cs_updated_at old) = Inr (ts1, nevs)"
    and xnorm: "normalize_event_timestamps E x_events ts1 = Inr (ts, xevs)"
    and len: "cs_last_chain_seq old + (length nevs + length xevs) < u64_bound" "entry_last_thread_seq entry0 + length xevs < u64_bound"
    and nst: "stage_events E (Suc (cs_last_chain_seq old)) 0 0 (cs_last_event_hash old) None nevs = Inr (nst, nws, lc1, lt1)"
    and xst: "stage_events E (Suc (cs_last_chain_seq old) + length nevs) (entry_last_thread_seq entry0) 0 lc1
       (entry_last_event_hash entry0) xevs = Inr (xst, xws, lc, lt)"
    and s: "normalize_and_validate_new_thread E (stamp_snapshot_position x ?e1
        (cs_last_chain_seq old + (length nevs + length xevs))) (au_chain_root_id au) ts (Some xt) = Inr s"
    and app: "apply_updates E os cas (cs_last_chain_seq old + (length nevs + length xevs)) ts xt
       (if nst @ xst = [] then None else Some (last (nst @ xst))) 0 prev ?threads us = Inr (cs_threads new, uws, us')"
    and pro: "prospective_state E (os_clock os 0)
       ([cs_updated_at old, ts, snap_updated_at s] @ map (\<lambda>u. snap_updated_at (upd_new_snapshot u)) us')
       (au_chain_root_id au) (Some (hash_chain_state E old)) lc (cs_last_chain_seq old + (length nevs + length xevs))
       (cs_threads new) = Inr new"
    and writes: "writes = nws @ xws @ [snapshot_write E s] @ uws @ [state_write E new]"
  note n = prospective_state_ok [OF pro] and nt = normalized_events [OF nnorm] and xt = normalized_events [OF xnorm]
  have ne: "nevs \<noteq> []" "xevs \<noteq> []" using nt(1) xt(1) nev(2) xev(2) by auto
  have ids: "snap_thread_id s = ?t" "xt \<noteq> ?t"
    using normalize_new_thread_ok(1) [OF s] t e0 by (auto simp: stamp_snapshot_position_def)
  have wf': "state_wf new"
    by (rule state_wf_updated [OF wf _ _ app])
      (use n(1,4) root len wf state_wf_entry [OF wf] encodable_snapshot_thread_id [OF x] ids in
        \<open>auto simp: state_wf_def added_entry_def split: if_splits\<close>)
  have ws: "stored_in nws cas'" "stored_in xws cas'" "stored_in uws cas'"
      "map_of cas' (hash_snapshot E s) = Some (canonical_json E (snapshot_to_value s))"
    using w writes by (simp_all add: stored_snapshot_write)
  have shape: "length ?n = length nevs" "map (ev_ts \<circ> snd) ?n = map ev_ts nevs"
      "length ?x = length xevs" "map (ev_ts \<circ> snd) ?x = map ev_ts xevs"
    using stage_events_shape [OF nst] stage_events_shape [OF xst] by (simp_all add: staged_log_def comp_def)
  note nl = staged_last [OF shape(2) ne(1)] and xl = staged_last [OF shape(4) ne(2)]
  have ts: "ts1 = ev_ts (snd (last ?n))" "ts = ev_ts (snd (last (?n @ ?x)))"
    using nt(4) xt(4) nl(1) [of "cs_updated_at old"] xl(1) [of ts1] xl(3) by simp_all
  have nsb: "stageable E (cs_chain_root_id old) ?t (cs_updated_at old) nevs"
    and xsb: "stageable E (cs_chain_root_id old) xt ts1 xevs"
    using normalized_stageable [OF nnorm nev(3,1)] normalized_stageable [OF xnorm xev(3,1)] root by simp_all
  have s': "normalize_and_validate_new_thread E (stamp_snapshot_position x ?e1 (cs_last_chain_seq new))
      (cs_chain_root_id new) ts (Some xt) = Inr s" using s n(1,4) by simp
  have added: "map_of (cs_threads new) ?t = Some ?e \<Longrightarrow> entry_grown E cas' old new (?n @ ?x) ?t ?e"
    using added_entry_grown [OF env t s' x refl _ _ _ n(6,7) wf' ws(4), of ?e "?n @ ?x"] n(8)
    by (simp add: added_entry_def bt_entry_iff [OF wf'])
  have "legal_successor E cas' (hash_chain_state E old) old new (?n @ ?x)"
  proof (rule legal_with_updates [OF env sub wf' _ load [folded root] _ _ us ws(3)])
    show "apply_updates E os cas (cs_last_chain_seq old + length (?n @ ?x)) (ev_ts (snd (last (?n @ ?x)))) xt
        (if nst @ xst = [] then None else Some (last (nst @ xst))) 0 prev ?threads us = Inr (cs_threads new, uws, us')"
      using app ts(2) shape(1,3) by simp
    show "prospective_state E (os_clock os 0)
        ([cs_updated_at old, ts, snap_updated_at s] @ map (\<lambda>u. snap_updated_at (upd_new_snapshot u)) us')
        (cs_chain_root_id old) (Some (hash_chain_state E old)) lc (cs_last_chain_seq old + length (?n @ ?x))
        (cs_threads new) = Inr new" using pro root shape(1,3) by simp
    fix log assume log: "closed_log E cas' old log"
    have l: "linked_log E cas' (cs_chain_root_id old) log" "not_after E log (instant E (cs_updated_at old))"
        "Suc (cs_last_chain_seq old) = Suc (length log)" "cs_last_event_hash old = last_hash log"
        "0 = length (of_thread ?t log)" "None = last_hash (of_thread ?t log)"
      using log closed_log_absent [OF log t] by (simp_all add: closed_log_def)
    note nb = staged_batch [OF nst env nsb l ws(1)]
    have m: "not_after E (log @ ?n) (instant E ts1)" "Suc (cs_last_chain_seq old) + length nevs = Suc (length (log @ ?n))"
        "entry_last_thread_seq entry0 = length (of_thread xt (log @ ?n))"
        "entry_last_event_hash entry0 = last_hash (of_thread xt (log @ ?n))"
      using l(3) shape(1) ts(1) nl(3) nb(7) [OF ids(2)] closed_log_entry [OF log map_of_SomeD [OF e0]]
      by (simp_all add: not_after_def)
    note xb = staged_batch [OF xst env xsb nb(1) m(1,2) nb(2) m(3,4) ws(2)]
    show "linked_log E cas' (cs_chain_root_id old) (log @ ?n @ ?x) \<and> lc = last_hash (log @ ?n @ ?x)
        \<and> (\<forall>t entry. map_of ?threads t = Some entry \<longrightarrow>
             entry_last_event_hash entry = last_hash (of_thread t (log @ ?n @ ?x))
             \<and> entry_last_thread_seq entry = length (of_thread t (log @ ?n @ ?x)))"
      using nb(3,6,7) xb(1-3,6,7) closed_log_entry [OF log] shape(1,3) m(3) l(5) ids
      by (auto simp: bt_entry_iff [OF wf] added_entry_def split: if_splits)
  qed (use added staged_thread [OF nst nsb] staged_thread [OF xst xsb] e0 ids ts nl(2,3) nt(6) ne in \<open>auto split: if_splits\<close>)
  with wf' show ?thesis by blast
qed

section \<open>The genesis state\<close>

lemma genesis_accepted:
  assumes env: "env_ok E" and x: "encodable_snapshot E x" "snap_thread_id x = au_chain_root_id au"
    and s: "normalize_root_snapshot E au x = Inr s" and g: "genesis_state E clock au s = Inr state"
    and w: "stored_in [snapshot_write E s, state_write E state] cas"
  shows "state_wf state" and "load_hashed_chain_state E cas (hash_chain_state E state) = Inr state"
    and "\<exists>events. accepted_history E cas (au_chain_root_id au) [(hash_chain_state E state, state)] events"
proof -
  let ?c = "au_chain_root_id au" and ?e1 = "genesis_entry [] (snap_status x)"
  let ?e = "genesis_entry (hash_snapshot E s) (snap_status s)"
  have s0: "normalize_and_validate_new_thread E (stamp_snapshot_position x ?e1 0) ?c
      (snap_created_at (stamp_snapshot_position x ?e1 0)) None = Inr s"
    using s by (simp add: normalize_root_snapshot_def Let_def)
  note n = prospective_state_ok [OF g [unfolded genesis_state_def]] and ns = normalize_new_thread_ok [OF s0]
  obtain u where u: "s = (stamp_snapshot_position x ?e1 0)\<lparr> snap_updated_at := u \<rparr>" "canonical_ts E u" using ns(1) by blast
  have utf8: "valid_utf8 ?c" using encodable_snapshot_thread_id [OF x(1)] x(2) by simp
  show wf: "state_wf state" using n(1,4,5) utf8 by (simp add: state_wf_def genesis_entry_def bt_sorted_def)
  show load: "load_hashed_chain_state E cas (hash_chain_state E state) = Inr state"
    by (rule load_state_stored [OF env state_storable [OF wf n(6)]])
      (use w in \<open>simp add: state_write_def hash_chain_state_def Let_def\<close>)
  have entry: "cs_threads state = [(?c, ?e)]" using n(5) .
  have closed: "closed_log E cas state []" using n(3,4) entry by (auto simp: closed_log_def genesis_entry_def intro: linked_log.empty)
  have pos: "(?c, ?e) \<in> set (cs_threads state)" using entry by simp
  have sw: "map_of cas (hash_snapshot E s) = Some (canonical_json E (snapshot_to_value s))"
    using w by (simp add: stored_snapshot_write)
  have s': "normalize_and_validate_new_thread E (stamp_snapshot_position x ?e1 (cs_last_chain_seq state))
      (cs_chain_root_id state) (snap_created_at (stamp_snapshot_position x ?e1 0)) None = Inr s"
    using s0 n(1,4) by simp
  have st: "snap_status s = snap_status x" using u(1) by (simp add: stamp_snapshot_position_def)
  have time: "instant E (snap_updated_at s) \<le> instant E (cs_updated_at state)" using n(8) by simp
  have "entry_grown E cas (state\<lparr> cs_threads := [] \<rparr>) state [] ?c ?e"
    by (rule added_entry_grown [OF env _ s' x(1,2) _ _ pos n(6,7) wf sw time]) (use st in \<open>simp_all add: genesis_entry_def\<close>)
  then obtain snapshot where sn: "load_hashed_snapshot E cas (hash_snapshot E s) = Inr snapshot"
      "fresh_snapshot E state ?c ?e snapshot" "snap_status snapshot = Created" "snap_result_project_snapshot_hash snapshot = None"
    by (auto simp: entry_grown_def genesis_entry_def)
  have ts: "canonical_ts E (cs_updated_at state)" using validate_state_ts [OF n(6)] .
  have pub: "validate_published_snapshot E state ?c ?e snapshot [] = Inr ()"
    using validate_published_fresh [OF closed pos sn(2) ts] by simp
  have closure: "validate_authoritative_closure E cas state = Inr []"
    using closure_iff [of state E cas "[]"] wf n(6,7) closed entry sn pub
    by (auto simp: state_wf_def snapshot_closed_def fresh_snapshot_def genesis_entry_def validate_published_snapshot_def
        ebind_eq_Inr intro!: exI [of _ "[]"])
  have gen: "validate_genesis_state E cas state [] = Inr ()"
    using n(1-4) entry sn pub
    by (simp add: validate_genesis_state_def expect_def genesis_entry_def validate_new_thread_snapshot_def
        validate_new_thread_project_snapshots_def)
  have "state_chain E cas ?c [(hash_chain_state E state, state)]"
    by (rule state_chain.genesis [OF load n(6,7,1,2)])
  then show "\<exists>events. accepted_history E cas ?c [(hash_chain_state E state, state)] events"
    using closure gen by (auto simp: accepted_history_def legal_steps_def)
qed

end
