(* ===== verification/Chain_Invariant.thy ===== *)
theory Chain_Invariant
  imports Chain_Writers
begin

text \<open>
  The invariant of the authority's store: every chain head that verifies names a history the
  validator accepts. Every writer keeps it, at every point where the operating system may fail,
  and moves a head only to a state whose history contains the state of the old head.
\<close>

section \<open>Valid heads\<close>

definition good_head :: "'z lib_env_scheme \<Rightarrow> trust_store \<Rightarrow> string \<Rightarrow> store \<Rightarrow> bool" where
  "good_head E trust c s \<longleftrightarrow>
     (\<forall>r. read_verified_head E trust c s = Inr (Some r) \<longrightarrow>
        validate_authoritative_history E (st_cas s) c (ref_target_hash r) None = Inr ())"

definition heads_valid :: "'z lib_env_scheme \<Rightarrow> trust_store \<Rightarrow> store \<Rightarrow> bool" where
  "heads_valid E trust s \<longleftrightarrow> (\<forall>c. good_head E trust c s)"

definition head_target :: "'z lib_env_scheme \<Rightarrow> trust_store \<Rightarrow> string \<Rightarrow> store \<Rightarrow> string option" where
  "head_target E trust c s =
     (case read_verified_head E trust c s of Inr (Some r) \<Rightarrow> Some (ref_target_hash r) | _ \<Rightarrow> None)"

text \<open>
  \<open>publishes E trust c s s'\<close>: the head of \<open>c\<close> moved from its state in \<open>s\<close> to one whose accepted
  history contains the old target, and the journal names the old and the new target.
\<close>

definition publishes :: "'z lib_env_scheme \<Rightarrow> trust_store \<Rightarrow> string \<Rightarrow> store \<Rightarrow> store \<Rightarrow> bool" where
  "publishes E trust c s s' \<longleftrightarrow>
     (\<forall>r. read_verified_head E trust c s' = Inr (Some r) \<longrightarrow>
        validate_authoritative_history E (st_cas s') c (ref_target_hash r) (head_target E trust c s) = Inr ())
     \<and> (\<exists>p. journalled E c p s' \<and> pend_operation p = OpSet
        \<and> pend_expected_previous_hash p = head_target E trust c s
        \<and> (\<forall>r. read_verified_head E trust c s' = Inr (Some r) \<longrightarrow> pend_target_hash p = Some (ref_target_hash r)))"

text \<open>
  \<open>extends E trust c s s'\<close>: no object of the CAS changes, no head but that of \<open>c\<close> moves, and that
  one only as above.
\<close>

definition extends :: "'z lib_env_scheme \<Rightarrow> trust_store \<Rightarrow> string \<Rightarrow> store \<Rightarrow> store \<Rightarrow> bool" where
  "extends E trust c s s' \<longleftrightarrow>
     map_of (st_cas s) \<subseteq>\<^sub>m map_of (st_cas s')
     \<and> (\<forall>c'. c' \<noteq> c \<longrightarrow> map_of (st_heads s') c' = map_of (st_heads s) c')
     \<and> (map_of (st_heads s') c = map_of (st_heads s) c \<or> publishes E trust c s s')"

lemma read_verified_head_cong:
  "map_of (st_heads s') c = map_of (st_heads s) c \<Longrightarrow> read_verified_head E trust c s' = read_verified_head E trust c s"
  by (simp add: read_verified_head_def)

lemma extends_valid:
  assumes "heads_valid E trust s" and "extends E trust c s s'"
  shows "heads_valid E trust s'"
proof -
  have sub: "map_of (st_cas s) \<subseteq>\<^sub>m map_of (st_cas s')" using assms(2) by (simp add: extends_def)
  have "validate_authoritative_history E (st_cas s') d (ref_target_hash r) None = Inr ()"
    if "read_verified_head E trust d s' = Inr (Some r)" for d r
  proof (cases "map_of (st_heads s') d = map_of (st_heads s) d")
    case True
    then have "validate_authoritative_history E (st_cas s) d (ref_target_hash r) None = Inr ()"
      using that assms(1) unfolding read_verified_head_cong [OF True] heads_valid_def good_head_def by blast
    then show ?thesis by (rule history_mono [OF sub])
  next
    case False
    then have "d = c" using assms(2) by (auto simp: extends_def)
    then show ?thesis using False assms(2) that history_any_ancestor unfolding extends_def publishes_def by blast
  qed
  then show ?thesis by (simp add: heads_valid_def good_head_def)
qed

lemma extends_same_heads:
  "map_of (st_cas s) \<subseteq>\<^sub>m map_of (st_cas s') \<Longrightarrow> st_heads s' = st_heads s \<Longrightarrow> extends E trust c s s'"
  by (simp add: extends_def)

section \<open>The steps of a commit\<close>

lemma write_cas_batch_effect:
  assumes "write_cas_batch os writes s = (r, s')"
  shows "\<exists>cas. s' = s\<lparr> st_cas := cas \<rparr> \<and> map_of (st_cas s) \<subseteq>\<^sub>m map_of cas \<and> (r = Inr () \<longrightarrow> stored_in writes cas)"
proof -
  consider "s' = s" "\<exists>e. r = Inl e" | cas where "atomic_write_batch os (st_cas s) writes = (r, cas)" "s' = s\<lparr> st_cas := cas \<rparr>"
    using assms by (auto simp: write_cas_batch_def op_bind_eq op_lift_eq split: prod.splits)
  then show ?thesis
  proof cases
    case 1
    then show ?thesis by (intro exI [of _ "st_cas s"]) (auto simp: map_le_def)
  next
    case (2 cas)
    have "map_of (st_cas s) \<subseteq>\<^sub>m map_of cas" using batch.submap [of "st_cas s" os writes] 2(1) by simp
    moreover have "stored_in writes cas" if "r = Inr ()"
      using batch.stores [of os "st_cas s" writes cas] 2(1) that by (auto simp: stored_in_def)
    ultimately show ?thesis using 2(2) by blast
  qed
qed

definition same_authority :: "store \<Rightarrow> store \<Rightarrow> bool" where
  "same_authority s s' \<longleftrightarrow> st_cas s' = st_cas s \<and> st_heads s' = st_heads s"

lemma same_authority_simps [simp]:
  "same_authority s s" "same_authority a b \<Longrightarrow> same_authority b c \<Longrightarrow> same_authority a c"
  by (auto simp: same_authority_def)

lemma same_authority_bind [intro]:
  "op_keeps same_authority m \<Longrightarrow> (\<And>x. op_keeps same_authority (f x)) \<Longrightarrow> op_keeps same_authority (op_bind m f)"
  by (rule op_keeps_bind) (auto intro: same_authority_simps)

lemma same_authority_update [simp]:
  "op_keeps same_authority (op_update (\<lambda>s. s\<lparr> st_pending := f s \<rparr>))"
  "op_keeps same_authority (op_update (\<lambda>s. s\<lparr> st_cache := g s \<rparr>))"
  by (simp_all add: op_keeps_def op_update_def same_authority_def)

lemma cache_keeps_authority [simp]:
  "op_keeps same_authority (cache_insert c h st)" "op_keeps same_authority (cache_invalidate c)"
  by (simp_all add: cache_insert_def cache_invalidate_def)

lemma write_pending_authority [simp]: "op_keeps same_authority (write_pending E os i p b)"
  unfolding write_pending_def by (intro same_authority_bind) simp_all

lemma prepare_set_authority [simp]: "op_keeps same_authority (prepare_set E os clock l c e t)"
  unfolding prepare_set_def Let_def
  by (intro same_authority_bind op_keeps_pure same_authority_simps(1))
    (auto split: option.split head_operation.split intro!: same_authority_bind)

lemma advance_phase_authority [simp]: "op_keeps same_authority (advance_phase E os l c i p q)"
  unfolding advance_phase_def Let_def by (intro same_authority_bind) simp_all

lemma op_effect: "op_keeps same_authority m \<Longrightarrow> m s = (r, s') \<Longrightarrow> st_cas s' = st_cas s \<and> st_heads s' = st_heads s"
  using op_keepsD [of same_authority m s r s'] by (simp add: same_authority_def)

lemma write_signed_head_effect:
  assumes "write_signed_head E os c ref sg s = (r, s')"
  shows "s' = s \<or> (\<exists>bytes. encode_signed_ref E sg ref = Inr bytes \<and> s' = s\<lparr> st_heads := bt_insert c bytes (st_heads s) \<rparr>)"
  using assms by (auto simp: write_signed_head_def op_bind_eq op_lift_eq op_update_eq)

definition head_ref :: "authority \<Rightarrow> string \<Rightarrow> string \<Rightarrow> signed_ref" where
  "head_ref au target updated_at =
     signed_ref_new (head_ref_path (au_chain_root_id au)) target updated_at (signer_fingerprint (au_signer au))"

lemma publish_effect:
  assumes "publish_chain_head E os clock au expected target ts s = (r, s')" and "json_parser E"
    and "valid_utf8 (au_chain_root_id au)"
  shows "st_cas s' = st_cas s \<and> (st_heads s' = st_heads s
    \<or> (\<exists>bytes p. encode_signed_ref E (au_signer au) (head_ref au target ts) = Inr bytes
         \<and> st_heads s' = bt_insert (au_chain_root_id au) bytes (st_heads s)
         \<and> verify_expected_current_head E os 1 au expected s = Inr ()
         \<and> journalled E (au_chain_root_id au) p s' \<and> pend_operation p = OpSet
         \<and> pend_target_hash p = Some target \<and> pend_expected_previous_hash p = expected))"
proof -
  let ?c = "au_chain_root_id au"
  from assms(1) consider "s' = s"
    | r1 where "prepare_set E os clock (au_lock_chain au) ?c expected target s = (r1, s')"
    | p s1 r1 s2 where "prepare_set E os clock (au_lock_chain au) ?c expected target s = (Inr p, s1)"
        "write_signed_head E os (au_lock_chain au) (head_ref au target ts) (au_signer au) s1 = (r1, s2)"
        "au_lock_chain au = ?c" "verify_expected_current_head E os 1 au expected s = Inr ()"
        "s' = s2 \<or> (\<exists>r2. advance_phase E os (au_lock_chain au) ?c (pend_transition_id p) Prepared HeadPublished s2 = (r2, s'))"
    unfolding publish_chain_head_def head_ref_def [symmetric]
    by (auto simp: op_bind_eq op_lift_eq op_read_eq ensure_protects_def ensure_lock_protects_def ebind_eq_Inr require_eq_Inr
        split: if_splits)
  then show ?thesis
  proof cases
    case 2
    then show ?thesis using op_effect [OF prepare_set_authority] by blast
  next
    case (3 p s1 r1 s2)
    note p = op_effect [OF prepare_set_authority 3(1)] and w = write_signed_head_effect [OF 3(2)]
      and j = prepare_set_effect [OF 3(1) assms(2,3)]
    have s': "st_cas s' = st_cas s2 \<and> st_heads s' = st_heads s2"
      using 3(5) op_effect [OF advance_phase_authority] by blast
    have "journalled E ?c p s2" using j w by (auto simp: journalled_def)
    then have "journalled E ?c p s' \<or> journalled E ?c (p\<lparr> pend_phase := HeadPublished \<rparr>) s'"
      using 3(5) advance_phase_effect [OF _ assms(2)] by blast
    then obtain q where q: "journalled E ?c q s'" "pend_operation q = OpSet" "pend_target_hash q = Some target"
        "pend_expected_previous_hash q = expected" using j by auto
    from s' p w 3(3,4) q show ?thesis by auto
  qed simp
qed

text \<open>The head that a publication compares with is the one it was told.\<close>

lemma expected_head:
  assumes "verify_expected_current_head E os i au expected s = Inr ()"
  shows "head_target E (au_trust au) (au_chain_root_id au) s = expected"
  using assms
  by (auto simp: verify_expected_current_head_def head_target_def ebind_eq_Inr ensure_lock_protects_def require_eq_Inr
      split: option.splits)

text \<open>What the theorems take of the libraries beyond the JSON parser: base64 text is ASCII.\<close>

definition laws :: "'z lib_env_scheme \<Rightarrow> bool" where
  "laws E \<longleftrightarrow> env_ok E \<and> (\<forall>b. valid_utf8 (base64_encode E b))"

lemma written_head_target:
  assumes "laws E" and "encode_signed_ref E (au_signer au) (head_ref au target ts) = Inr bytes"
    and "valid_utf8 (au_chain_root_id au)" and "map_of (st_heads s) (au_chain_root_id au) = Some bytes"
    and "read_verified_head E trust (au_chain_root_id au) s = Inr (Some r)"
  shows "ref_target_hash r = target"
proof -
  let ?r = "(head_ref au target ts)\<lparr> ref_signature := base64_encode E (signer_sign (au_signer au)
      (canonical_json E (without_signature (head_ref au target ts)))) \<rparr>"
  have v: "validate_signed_ref E ?r = Inr ()" and b: "bytes = canonical_json E (signed_ref_to_value ?r)"
    using assms(2) by (auto simp: encode_signed_ref_def Let_def ebind_eq_Inr)
  have "valid_utf8 (''chains/'' @ au_chain_root_id au @ ''/head'')"
    using assms(3) by (intro valid_utf8_append) (simp_all add: valid_utf8_ascii byte_def)
  moreover have "canonical_ts E ts" using v by (simp add: validate_signed_ref_eq_Inr head_ref_def signed_ref_new_def)
  ultimately have "ref_strings_typed ?r"
    using assms(1) canonical_ts_utf8 by (simp add: ref_strings_typed_def head_ref_def signed_ref_new_def head_ref_path_def laws_def)
  then have "read_signed_ref E bytes = Inr ?r"
    using read_signed_ref_encode [OF _ v] assms(1) b by (simp add: laws_def env_ok_def)
  then have "r = ?r"
    using assms(4,5) by (auto simp: read_verified_head_def read_verified_ref_def ebind_eq_Inr)
  then show ?thesis by (simp add: head_ref_def signed_ref_new_def)
qed

lemma extends_same_authority:
  assumes "same_authority s s1" and "extends E trust c s1 s'"
  shows "extends E trust c s s'"
proof -
  have "read_verified_head E trust c s1 = read_verified_head E trust c s"
    using assms(1) by (intro read_verified_head_cong) (simp add: same_authority_def)
  then show ?thesis using assms by (simp add: extends_def publishes_def same_authority_def head_target_def)
qed

lemma extends_refl: "extends E trust c s s" "same_authority s s' \<Longrightarrow> extends E trust c s s'"
  by (simp_all add: extends_def same_authority_def)

lemma extends_cong:
  assumes "extends E trust c s s1" and "st_cas s' = st_cas s1" and "st_heads s' = st_heads s1"
    and "st_pending s' = st_pending s1"
  shows "extends E trust c s s'"
  using assms by (simp add: extends_def publishes_def journalled_def read_verified_head_def)

lemma publish_extends:
  assumes laws: "laws E" and utf8: "valid_utf8 (au_chain_root_id au)" and sub: "map_of (st_cas s) \<subseteq>\<^sub>m map_of (st_cas s1)"
    and heads: "st_heads s1 = st_heads s"
    and pub: "publish_chain_head E os clock au expected target ts s1 = (r, s')"
    and hist: "validate_authoritative_history E (st_cas s1) (au_chain_root_id au) target
      (head_target E (au_trust au) (au_chain_root_id au) s) = Inr ()"
  shows "extends E (au_trust au) (au_chain_root_id au) s s'"
proof -
  let ?c = "au_chain_root_id au" and ?trust = "au_trust au"
  have "json_parser E" using laws by (simp add: laws_def env_ok_def)
  note p = publish_effect [OF pub this utf8]
  show ?thesis
  proof (cases "st_heads s' = st_heads s")
    case True
    then show ?thesis using p sub by (intro extends_same_heads) auto
  next
    case False
    then obtain bytes q where b: "encode_signed_ref E (au_signer au) (head_ref au target ts) = Inr bytes"
        "st_heads s' = bt_insert ?c bytes (st_heads s)" "verify_expected_current_head E os 1 au expected s1 = Inr ()"
        "journalled E ?c q s'" "pend_operation q = OpSet" "pend_target_hash q = Some target"
        "pend_expected_previous_hash q = expected"
      using p heads by auto
    have t: "ref_target_hash x = target" if "read_verified_head E ?trust ?c s' = Inr (Some x)" for x
      by (rule written_head_target [OF laws b(1) utf8 _ that]) (simp add: b(2))
    have "head_target E ?trust ?c s = expected"
      using expected_head [OF b(3)] heads by (simp add: head_target_def read_verified_head_def)
    with t b p hist have "publishes E ?trust ?c s s'" by (auto simp: publishes_def)
    then show ?thesis using b(2) p sub by (auto simp: extends_def)
  qed
qed

lemma commit_extends:
  assumes laws: "laws E" and utf8: "valid_utf8 (au_chain_root_id au)"
    and com: "commit_closure E os clock au writes expected state s = (r, s')"
    and hist: "\<And>cas. map_of (st_cas s) \<subseteq>\<^sub>m map_of cas \<Longrightarrow> stored_in writes cas \<Longrightarrow>
      validate_authoritative_history E cas (au_chain_root_id au) (hash_chain_state E state)
        (head_target E (au_trust au) (au_chain_root_id au) s) = Inr ()"
  shows "extends E (au_trust au) (au_chain_root_id au) s s'"
proof -
  obtain r1 s1 where batch: "write_cas_batch os writes s = (r1, s1)" by fastforce
  obtain cas where cas: "s1 = s\<lparr> st_cas := cas \<rparr>" "map_of (st_cas s) \<subseteq>\<^sub>m map_of cas" "r1 = Inr () \<longrightarrow> stored_in writes cas"
    using write_cas_batch_effect [OF batch] by blast
  show ?thesis
  proof (cases r1)
    case (Inl e)
    then show ?thesis using com batch cas by (auto simp: commit_closure_def op_bind_eq intro!: extends_same_heads)
  next
    case (Inr u)
    obtain r2 s2 where pub: "publish_chain_head E os clock au expected (hash_chain_state E state) (cs_updated_at state) s1 = (r2, s2)"
      by fastforce
    have ext: "extends E (au_trust au) (au_chain_root_id au) s s2"
      by (rule publish_extends [OF laws utf8 _ _ pub]) (use cas Inr hist in auto)
    have "st_cas s' = st_cas s2 \<and> st_heads s' = st_heads s2 \<and> st_pending s' = st_pending s2"
      using com batch Inr pub by (auto simp: commit_closure_def op_bind_eq cache_insert_def op_update_eq)
    then show ?thesis using extends_cong [OF ext] by simp
  qed
qed

section \<open>Every writer extends\<close>

lemma read_head_state_ok:
  assumes "read_head_state E os i au s = Inr (h, state)"
  shows "\<exists>r. read_verified_head E (au_trust au) (au_chain_root_id au) s = Inr (Some r) \<and> ref_target_hash r = h"
    and "load_hashed_chain_state E (st_cas s) h = Inr state" and "hash_chain_state E state = h"
    and "cs_chain_root_id state = au_chain_root_id au"
proof -
  obtain r where r: "read_verified_head E (au_trust au) (au_chain_root_id au) s = Inr (Some r)" "ref_target_hash r = h"
      "read_cas_object E os (CasRoot 0) state_decode (st_cas s) h = Inr state" "hash_chain_state E state = h"
      "cs_chain_root_id state = au_chain_root_id au"
    using assms by (auto simp: read_head_state_def ebind_eq_Inr require_eq_Inr ok_or_eq_Inr ensure_lock_protects_def)
  then show "\<exists>r. read_verified_head E (au_trust au) (au_chain_root_id au) s = Inr (Some r) \<and> ref_target_hash r = h"
    "hash_chain_state E state = h" "cs_chain_root_id state = au_chain_root_id au" by blast+
  show "load_hashed_chain_state E (st_cas s) h = Inr state"
    unfolding load_hashed_chain_state_def
    by (rule read_cas_object_load [OF r(3)]) (use r(4) in \<open>simp add: hash_chain_state_def\<close>)
qed

text \<open>A legal successor of the state that the head names has an accepted history over that head.\<close>

lemma successor_history:
  assumes laws: "laws E" and valid: "heads_valid E (au_trust au) s" and head: "read_head_state E os i au s = Inr (h, old)"
    and sub: "map_of (st_cas s) \<subseteq>\<^sub>m map_of cas" and wf: "state_wf new"
    and suc: "legal_successor E cas (hash_chain_state E old) old new staged" and w: "stored_in [state_write E new] cas"
  shows "validate_authoritative_history E cas (au_chain_root_id au) (hash_chain_state E new)
    (head_target E (au_trust au) (au_chain_root_id au) s) = Inr ()"
proof -
  note hd = read_head_state_ok [OF head]
  have env: "env_ok E" using laws by (simp add: laws_def)
  have target: "head_target E (au_trust au) (au_chain_root_id au) s = Some h" using hd(1) by (auto simp: head_target_def)
  have "validate_authoritative_history E (st_cas s) (au_chain_root_id au) h None = Inr ()"
    using valid hd(1) by (auto simp: heads_valid_def good_head_def)
  then obtain states events where a: "accepted_history E (st_cas s) (au_chain_root_id au) states events" "last_hash states = Some h"
    unfolding history_iff by blast
  have sc: "state_chain E (st_cas s) (au_chain_root_id au) states" using a(1) by (simp add: accepted_history_def)
  have last: "last states = (h, old)"
    using state_chain_last [OF sc] a(2) hd(2) state_chain_nonempty [OF sc] by (auto simp: last_hash_def)
  have "load_hashed_chain_state E cas (hash_chain_state E new) = Inr new"
    by (rule load_state_stored [OF env state_storable [OF wf]]) (use suc w [unfolded stored_state_write] in \<open>simp_all add: legal_successor_def\<close>)
  note load = this
  have "bt_sorted (cs_threads old)" using loaded_state_wf [OF _ hd(2)] env by (simp add: env_ok_def state_wf_def)
  from accepted_history_successor [OF a(1) sub last this load suc [unfolded hd(3)]]
  obtain events' where "accepted_history E cas (au_chain_root_id au) (states @ [(hash_chain_state E new, new)]) events'"
    by blast
  moreover have "h \<in> fst ` set (states @ [(hash_chain_state E new, new)])"
    using last state_chain_nonempty [OF sc] by (metis Un_iff fst_conv image_eqI last_in_set set_append)
  moreover have "last_hash (states @ [(hash_chain_state E new, new)]) = Some (hash_chain_state E new)" by simp
  ultimately show ?thesis unfolding history_iff target option.inject by blast
qed

text \<open>What each writer prepares on top of the current head is a legal successor.\<close>

definition prepares_successor ::
  "'z lib_env_scheme \<Rightarrow> authority \<Rightarrow> store \<Rightarrow> (chain_state \<Rightarrow> cas \<Rightarrow> ((string \<times> string) list \<times> chain_state \<times> 'r) result) \<Rightarrow> bool" where
  "prepares_successor E au s prep \<longleftrightarrow>
     (\<forall>old writes new res cas. cs_chain_root_id old = au_chain_root_id au \<longrightarrow> state_wf old \<longrightarrow>
        prep old (st_cas s) = Inr (writes, new, res) \<longrightarrow> map_of (st_cas s) \<subseteq>\<^sub>m map_of cas \<longrightarrow> stored_in writes cas \<longrightarrow>
        (state_wf new \<and> (\<exists>staged. legal_successor E cas (hash_chain_state E old) old new staged))
        \<and> state_write E new \<in> set writes)"

lemma mutation_extends:
  assumes laws: "laws E" and valid: "heads_valid E (au_trust au) s"
    and run: "op_bind (read_chain_head_for_mutation E os i au) (\<lambda>current.
      op_bind (op_read (\<lambda>s. prep current (st_cas s))) (\<lambda>(writes, state, result).
      op_bind (commit_closure E os clock au writes (cs_prev_chain_state_hash state) state) (\<lambda>_. op_lift (Inr result)))) s = (r, s')"
    and legal: "prepares_successor E au s prep"
  shows "extends E (au_trust au) (au_chain_root_id au) s s'"
proof -
  let ?c = "au_chain_root_id au"
  define cached where "cached h old = s\<lparr> st_cache := bt_insert ?c \<lparr> cached_hash = h, cached_state = old \<rparr> (st_cache s) \<rparr>" for h old
  have cached: "same_authority s (cached h old)" "st_cas (cached h old) = st_cas s" for h old
    by (simp_all add: cached_def same_authority_def)
  from run consider "same_authority s s'"
    | h old writes new res r1 where "read_head_state E os i au s = Inr (h, old)"
        "prep old (st_cas s) = Inr (writes, new, res)"
        "commit_closure E os clock au writes (cs_prev_chain_state_hash new) new (cached h old) = (r1, s')"
    unfolding read_chain_head_for_mutation_def cache_insert_def
    by (auto simp: op_bind_eq op_lift_eq op_read_eq op_update_eq cached cached_def [symmetric])
  then show ?thesis
  proof cases
    case (2 h old writes new res r1)
    let ?s1 = "cached h old"
    note hd = read_head_state_ok [OF 2(1)]
    have wf: "state_wf old" using loaded_state_wf [OF _ hd(2)] laws by (simp add: laws_def env_ok_def)
    then have utf8: "valid_utf8 ?c" using hd(4) by (simp add: state_wf_def)
    have same: "st_cas ?s1 = st_cas s" "head_target E (au_trust au) ?c ?s1 = head_target E (au_trust au) ?c s"
      using cached(1) [of h old] by (simp_all add: same_authority_def head_target_def read_verified_head_def)
    have "extends E (au_trust au) ?c ?s1 s'"
    proof (rule commit_extends [OF laws utf8 2(3)])
      fix cas assume cas: "map_of (st_cas ?s1) \<subseteq>\<^sub>m map_of cas" "stored_in writes cas"
      then obtain staged where l: "state_wf new" "legal_successor E cas (hash_chain_state E old) old new staged"
          "stored_in [state_write E new] cas"
        using legal hd(4) wf 2(2) same(1) unfolding prepares_successor_def stored_in_def by fastforce
      show "validate_authoritative_history E cas ?c (hash_chain_state E new) (head_target E (au_trust au) ?c ?s1) = Inr ()"
        unfolding same(2) by (rule successor_history [OF laws valid 2(1) _ l]) (use cas same(1) in simp)
    qed
    then show ?thesis by (rule extends_same_authority [OF cached(1)])
  qed (simp add: extends_refl)
qed

lemma op_lift_read: "op_lift r = op_read (\<lambda>s. r)"
  by (simp add: op_lift_def op_read_def)

lemma guard_extends:
  assumes "op_bind (op_lift x) f s = (r, s')" and "\<And>u. x = Inr u \<Longrightarrow> f u s = (r, s') \<Longrightarrow> extends E trust c s s'"
  shows "extends E trust c s s'"
  using assms by (auto simp: op_bind_eq op_lift_eq extends_refl)

lemma guard_unit_extends:
  assumes "op_bind (op_lift x) f s = (r, s')" and "x = Inr () \<Longrightarrow> f () s = (r, s') \<Longrightarrow> extends E trust c s s'"
  shows "extends E trust c s s'"
  using assms by (auto simp: op_bind_eq op_lift_eq extends_refl)

lemma read_guard_unit_extends:
  assumes "op_bind (op_read g) f s = (r, s')" and "g s = Inr () \<Longrightarrow> f () s = (r, s') \<Longrightarrow> extends E trust c s s'"
  shows "extends E trust c s s'"
  using assms by (auto simp: op_bind_eq op_read_eq extends_refl)

lemma read_guard_extends:
  assumes "op_bind (op_read g) f s = (r, s')" and "\<And>u. g s = Inr u \<Longrightarrow> f u s = (r, s') \<Longrightarrow> extends E trust c s s'"
  shows "extends E trust c s s'"
  using assms by (auto simp: op_bind_eq op_read_eq extends_refl)

lemma add_thread_prepares:
  assumes "laws E" and "encodable_snapshot E x"
  shows "prepares_successor E au s (\<lambda>old _. prepare_add_thread E os au x old)"
  unfolding prepares_successor_def
proof (intro allI impI)
  fix old writes new res cas
  assume *: "cs_chain_root_id old = au_chain_root_id au" "state_wf old"
    "prepare_add_thread E os au x old = Inr (writes, new, res)" "stored_in writes cas"
  then have "state_wf new \<and> (\<exists>staged. legal_successor E cas (hash_chain_state E old) old new staged)"
    using prepare_add_thread_legal [of E old au os x writes new res cas] assms by (auto simp: laws_def)
  moreover have "state_write E new \<in> set writes"
    using *(3) by (auto simp: prepare_add_thread_def ebind_eq_Inr)
  ultimately show "(state_wf new \<and> (\<exists>staged. legal_successor E cas (hash_chain_state E old) old new staged))
      \<and> state_write E new \<in> set writes" by blast
qed

lemma append_prepares:
  assumes "laws E" and ne: "events \<noteq> []" and ev: "\<forall>e \<in> set events. encodable_event E e"
    and us: "\<forall>u \<in> set us. encodable_snapshot E (upd_new_snapshot u)"
  shows "prepares_successor E au s (prepare_append E os au tid events us)"
  unfolding prepares_successor_def
proof (intro allI impI)
  fix old writes new res cas
  assume *: "cs_chain_root_id old = au_chain_root_id au" "state_wf old"
    "prepare_append E os au tid events us old (st_cas s) = Inr (writes, new, res)"
    "map_of (st_cas s) \<subseteq>\<^sub>m map_of cas" "stored_in writes cas"
  have "state_wf new \<and> (\<exists>staged. legal_successor E cas (hash_chain_state E old) old new staged)"
    by (rule prepare_append_legal [OF _ *(2,1,3) ev ne us *(5,4)]) (use assms(1) in \<open>simp add: laws_def\<close>)
  moreover have "state_write E new \<in> set writes" by (rule prepare_appendD [OF *(3)]) simp
  ultimately show "(state_wf new \<and> (\<exists>staged. legal_successor E cas (hash_chain_state E old) old new staged))
      \<and> state_write E new \<in> set writes" by blast
qed

lemma add_with_events_prepares:
  assumes "laws E" and x: "encodable_snapshot E x" and ne: "events \<noteq> []" and ev: "\<forall>e \<in> set events. encodable_event E e"
    and ids: "validate_event_identities E (au_chain_root_id au) (snap_thread_id x) events = Inr ()"
  shows "prepares_successor E au s (\<lambda>old _. prepare_add_thread_with_events E os au x events old)"
  unfolding prepares_successor_def
proof (intro allI impI)
  fix old writes new res cas
  assume *: "cs_chain_root_id old = au_chain_root_id au" "state_wf old"
    "prepare_add_thread_with_events E os au x events old = Inr (writes, new, res)" "stored_in writes cas"
  have "state_wf new \<and> (\<exists>staged. legal_successor E cas (hash_chain_state E old) old new staged)"
    by (rule prepare_add_thread_with_events_legal [OF _ *(2,1,3) x ev ne ids *(4)]) (use assms(1) in \<open>simp add: laws_def\<close>)
  moreover have "state_write E new \<in> set writes" by (rule prepare_add_thread_with_eventsD [OF *(3)]) simp
  ultimately show "(state_wf new \<and> (\<exists>staged. legal_successor E cas (hash_chain_state E old) old new staged))
      \<and> state_write E new \<in> set writes" by blast
qed

lemma add_and_append_prepares:
  assumes "laws E" and x: "encodable_snapshot E x" and ne: "nevs \<noteq> []" "xevs \<noteq> []"
    and nev: "\<forall>e \<in> set nevs. encodable_event E e" and xev: "\<forall>e \<in> set xevs. encodable_event E e"
    and ids: "validate_event_identities E (au_chain_root_id au) (snap_thread_id x) nevs = Inr ()"
      "validate_event_identities E (au_chain_root_id au) xt xevs = Inr ()"
    and us: "\<forall>u \<in> set us. encodable_snapshot E (upd_new_snapshot u)"
  shows "prepares_successor E au s (prepare_add_and_append E os au x nevs xt xevs us)"
  unfolding prepares_successor_def
proof (intro allI impI)
  fix old writes new res cas
  assume *: "cs_chain_root_id old = au_chain_root_id au" "state_wf old"
    "prepare_add_and_append E os au x nevs xt xevs us old (st_cas s) = Inr (writes, new, res)"
    "map_of (st_cas s) \<subseteq>\<^sub>m map_of cas" "stored_in writes cas"
  have "state_wf new \<and> (\<exists>staged. legal_successor E cas (hash_chain_state E old) old new staged)"
    by (rule prepare_add_and_append_legal [OF _ *(2,1,3) x nev ne(1) ids(1) xev ne(2) ids(2) us *(5,4)])
      (use assms(1) in \<open>simp add: laws_def\<close>)
  moreover have "state_write E new \<in> set writes" by (rule prepare_add_and_appendD [OF *(3)]) simp
  ultimately show "(state_wf new \<and> (\<exists>staged. legal_successor E cas (hash_chain_state E old) old new staged))
      \<and> state_write E new \<in> set writes" by blast
qed

lemma add_thread_to_chain_extends:
  assumes "laws E" and "heads_valid E (au_trust au) s" and "encodable_snapshot E x"
    and "add_thread_to_chain E os au x s = (r, s')"
  shows "extends E (au_trust au) (au_chain_root_id au) s s'"
  using assms(4) unfolding add_thread_to_chain_def op_lift_read [of "prepare_add_thread _ _ _ _ _"]
  by (elim guard_unit_extends) (erule mutation_extends [OF assms(1,2) _ add_thread_prepares [OF assms(1,3)]])

lemma append_events_extends:
  assumes "laws E" and "heads_valid E (au_trust au) s" and "\<forall>e \<in> set events. encodable_event E e"
    and "\<forall>u \<in> set us. encodable_snapshot E (upd_new_snapshot u)"
    and "append_events E os au tid events us s = (r, s')"
  shows "extends E (au_trust au) (au_chain_root_id au) s s'"
  using assms(5) unfolding append_events_def
  by (elim guard_unit_extends)
    (erule mutation_extends [OF assms(1,2) _ append_prepares [OF assms(1) _ assms(3,4)]], simp add: require_eq_Inr)

lemma add_thread_to_chain_with_events_extends:
  assumes "laws E" and "heads_valid E (au_trust au) s" and "encodable_snapshot E x"
    and "\<forall>e \<in> set events. encodable_event E e"
    and "add_thread_to_chain_with_events E os au x events s = (r, s')"
  shows "extends E (au_trust au) (au_chain_root_id au) s s'"
  using assms(5) unfolding add_thread_to_chain_with_events_def op_lift_read [of "prepare_add_thread_with_events _ _ _ _ _ _"]
  by (elim guard_unit_extends)
    (erule mutation_extends [OF assms(1,2) _ add_with_events_prepares [OF assms(1,3) _ assms(4)]], simp_all add: require_eq_Inr)

lemma add_thread_with_events_and_append_extends:
  assumes "laws E" and "heads_valid E (au_trust au) s" and "encodable_snapshot E x"
    and "\<forall>e \<in> set nevs. encodable_event E e" and "\<forall>e \<in> set xevs. encodable_event E e"
    and "\<forall>u \<in> set us. encodable_snapshot E (upd_new_snapshot u)"
    and "add_thread_with_events_and_append E os au x nevs xt xevs us s = (r, s')"
  shows "extends E (au_trust au) (au_chain_root_id au) s s'"
  using assms(7) unfolding add_thread_with_events_and_append_def
  by (elim guard_unit_extends)
    (erule mutation_extends [OF assms(1,2) _ add_and_append_prepares [OF assms(1,3) _ _ assms(4,5) _ _ assms(6)]],
      simp_all add: require_eq_Inr)

lemma create_chain_extends:
  assumes laws: "laws E" and x: "encodable_snapshot E x" and "create_chain E os au x s = (r, s')"
  shows "extends E (au_trust au) (au_chain_root_id au) s s'"
  using assms(3) unfolding create_chain_def
proof (elim guard_unit_extends read_guard_unit_extends guard_extends read_guard_extends)
  fix sn state
  assume run: "op_bind (commit_closure E os (os_clock os 1) au [snapshot_write E sn, state_write E state] None state)
      (\<lambda>_. op_lift (Inr \<lparr> cr_chain_state_hash = hash_chain_state E state, cr_snapshot_hash = hash_snapshot E sn,
        cr_snapshot = sn, cr_events = [] \<rparr>)) s = (r, s')"
    and id: "check_root_identity au x = Inr ()" and sn: "normalize_root_snapshot E au x = Inr sn"
    and head: "verify_expected_current_head E os 0 au None s = Inr ()" and g: "genesis_state E (os_clock os 0) au sn = Inr state"
  have t: "snap_thread_id x = au_chain_root_id au" using id by (simp add: check_root_identity_def require_eq_Inr)
  have env: "env_ok E" using laws by (simp add: laws_def)
  have utf8: "valid_utf8 (au_chain_root_id au)" using encodable_snapshot_thread_id [OF x] t by simp
  from run obtain r1 where com: "commit_closure E os (os_clock os 1) au [snapshot_write E sn, state_write E state] None state s = (r1, s')"
    by (auto simp: op_bind_eq op_lift_eq)
  show ?thesis
  proof (rule commit_extends [OF laws utf8 com])
    fix cas assume "stored_in [snapshot_write E sn, state_write E state] cas"
    from genesis_accepted(3) [OF env x t sn g this]
    obtain events where "accepted_history E cas (au_chain_root_id au) [(hash_chain_state E state, state)] events" by blast
    moreover have "last_hash [(hash_chain_state E state, state)] = Some (hash_chain_state E state)" by (simp add: last_hash_def)
    ultimately show "validate_authoritative_history E cas (au_chain_root_id au) (hash_chain_state E state)
        (head_target E (au_trust au) (au_chain_root_id au) s) = Inr ()"
      unfolding history_iff expected_head [OF head] by blast
  qed
qed

lemma create_chain_with_events_extends:
  assumes laws: "laws E" and x: "encodable_snapshot E x" and "create_chain_with_events E os au x events s = (r, s')"
  shows "extends E (au_trust au) (au_chain_root_id au) s s'"
  using assms(3) unfolding create_chain_with_events_def
proof (elim guard_unit_extends read_guard_unit_extends guard_extends read_guard_extends)
  let ?c = "au_chain_root_id au"
  fix sn genesis and p :: "thread_event list \<times> (string \<times> string) list \<times> chain_state"
  assume id: "check_root_identity au x = Inr ()" and head: "verify_expected_current_head E os 0 au None s = Inr ()"
    and run: "(case p of (stored, writes, state) \<Rightarrow>
      op_bind (write_cas_batch os ([snapshot_write E sn, state_write E genesis] @ writes @ [state_write E state])) (\<lambda>_.
      op_bind (op_lift (os_call os HistoryRoot)) (\<lambda>_.
      op_bind (op_read (\<lambda>s. validate_authoritative_history E (st_cas s) ?c (hash_chain_state E state)
        (Some (hash_chain_state E genesis)))) (\<lambda>_.
      op_bind (publish_chain_head E os (os_clock os 2) au None (hash_chain_state E state) (cs_updated_at state)) (\<lambda>_.
      op_bind (cache_insert ?c (hash_chain_state E state) state) (\<lambda>_.
      op_lift (Inr \<lparr> at_chain_state_hash = hash_chain_state E state, at_snapshot_hash = hash_snapshot E sn,
        at_snapshot = sn, at_first_chain_seq = 1, at_event_count = length stored, at_events = stored,
        at_snapshot_updates = [] \<rparr>)))))) ) s = (r, s')"
  obtain stored writes state where p: "p = (stored, writes, state)" by (cases p)
  let ?ws = "[snapshot_write E sn, state_write E genesis] @ writes @ [state_write E state]"
  have utf8: "valid_utf8 ?c"
    using encodable_snapshot_thread_id [OF x] id by (simp add: check_root_identity_def require_eq_Inr)
  obtain r1 s1 where batch: "write_cas_batch os ?ws s = (r1, s1)" by fastforce
  obtain cas where cas: "s1 = s\<lparr> st_cas := cas \<rparr>" "map_of (st_cas s) \<subseteq>\<^sub>m map_of cas"
    using write_cas_batch_effect [OF batch] by blast
  have s1: "extends E (au_trust au) ?c s s1" using cas by (intro extends_same_heads) auto
  from run [unfolded p prod.case op_bind_eq [of "write_cas_batch _ _"] batch] consider "s' = s1"
    | r2 s2 where "validate_authoritative_history E (st_cas s1) ?c (hash_chain_state E state) (Some (hash_chain_state E genesis)) = Inr ()"
        "publish_chain_head E os (os_clock os 2) au None (hash_chain_state E state) (cs_updated_at state) s1 = (r2, s2)"
        "st_cas s' = st_cas s2" "st_heads s' = st_heads s2" "st_pending s' = st_pending s2"
    unfolding cache_insert_def by (auto simp: op_bind_eq op_lift_eq op_read_eq op_update_eq)
  then show ?thesis
  proof cases
    case (2 r2 s2)
    have "extends E (au_trust au) ?c s s2"
      by (rule publish_extends [OF laws utf8 _ _ 2(2)])
        (use cas history_any_ancestor [OF 2(1)] expected_head [OF head] in simp_all)
    then show ?thesis using 2(3-5) by (rule extends_cong)
  qed (use s1 in simp)
qed

section \<open>Runs of the authority\<close>

text \<open>
  One step of the authority: any call of a writer, of the reader, of the journal, of the CAS or
  of the cache, with any answers of the operating system, whatever it returns. Callers hand over
  values that the codec reads back; every operation of one authority uses one trust store.
\<close>

inductive authority_step :: "'z lib_env_scheme \<Rightarrow> trust_store \<Rightarrow> store \<Rightarrow> store \<Rightarrow> bool" for E trust where
  create: "\<lbrakk> au_trust au = trust; encodable_snapshot E x; create_chain E os au x s = (r, s') \<rbrakk>
    \<Longrightarrow> authority_step E trust s s'"
| create_events: "\<lbrakk> au_trust au = trust; encodable_snapshot E x; create_chain_with_events E os au x events s = (r, s') \<rbrakk>
    \<Longrightarrow> authority_step E trust s s'"
| append: "\<lbrakk> au_trust au = trust; \<forall>e \<in> set events. encodable_event E e;
      \<forall>u \<in> set us. encodable_snapshot E (upd_new_snapshot u); append_events E os au tid events us s = (r, s') \<rbrakk>
    \<Longrightarrow> authority_step E trust s s'"
| add: "\<lbrakk> au_trust au = trust; encodable_snapshot E x; add_thread_to_chain E os au x s = (r, s') \<rbrakk>
    \<Longrightarrow> authority_step E trust s s'"
| add_events: "\<lbrakk> au_trust au = trust; encodable_snapshot E x; \<forall>e \<in> set events. encodable_event E e;
      add_thread_to_chain_with_events E os au x events s = (r, s') \<rbrakk>
    \<Longrightarrow> authority_step E trust s s'"
| add_append: "\<lbrakk> au_trust au = trust; encodable_snapshot E x; \<forall>e \<in> set nevs. encodable_event E e;
      \<forall>e \<in> set xevs. encodable_event E e; \<forall>u \<in> set us. encodable_snapshot E (upd_new_snapshot u);
      add_thread_with_events_and_append E os au x nevs xt xevs us s = (r, s') \<rbrakk>
    \<Longrightarrow> authority_step E trust s s'"
| read: "read_thread_snapshot E os au tid s = (r, s') \<Longrightarrow> authority_step E trust s s'"
| prepare_set: "prepare_set E os clock l c previous target s = (r, s') \<Longrightarrow> authority_step E trust s s'"
| prepare_remove: "prepare_remove E os clock l c expected s = (r, s') \<Longrightarrow> authority_step E trust s s'"
| replace: "replace_remove_with_published_set E os clock l c i target s = (r, s') \<Longrightarrow> authority_step E trust s s'"
| advance: "advance_phase E os l c i p q s = (r, s') \<Longrightarrow> authority_step E trust s s'"
| acknowledge: "acknowledge E os l c i s = (r, s') \<Longrightarrow> authority_step E trust s s'"
| remove: "remove_head os c s = (r, s') \<Longrightarrow> authority_step E trust s s'"
| objects: "write_cas_batch os writes s = (r, s') \<Longrightarrow> authority_step E trust s s'"
| restart: "cache_clear s = (r, s') \<Longrightarrow> authority_step E trust s s'"

definition empty_store :: store where
  "empty_store = \<lparr> st_cas = [], st_heads = [], st_pending = [], st_cache = [] \<rparr>"

text \<open>The contract between the steps of a system and a state that they keep.\<close>

locale invariant_system =
  fixes step :: "'s \<Rightarrow> 's \<Rightarrow> bool" and inv :: "'s \<Rightarrow> bool" and grows :: "'s \<Rightarrow> 's \<Rightarrow> bool"
  assumes keeps: "step s t \<Longrightarrow> inv s \<Longrightarrow> inv t"
    and grows_step: "step s t \<Longrightarrow> inv s \<Longrightarrow> grows s t"
    and grows_refl: "grows s s"
    and grows_trans: "grows s t \<Longrightarrow> grows t u \<Longrightarrow> grows s u"
begin

lemma run_keeps: "step\<^sup>*\<^sup>* s t \<Longrightarrow> inv s \<Longrightarrow> inv t"
  by (induction rule: rtranclp_induct) (auto intro: keeps)

lemma run_grows:
  assumes "step\<^sup>*\<^sup>* s t" and "inv s"
  shows "grows s t"
  using assms(1)
proof (induction rule: rtranclp_induct)
  case (step t u)
  then show ?case using run_keeps assms(2) grows_step grows_trans by blast
qed (rule grows_refl)

end

section \<open>Steps that do not publish\<close>

lemma op_case_option_authority [intro]:
  "\<lbrakk> op_keeps same_authority m; \<And>x. op_keeps same_authority (f x) \<rbrakk>
    \<Longrightarrow> op_keeps same_authority (case o' of None \<Rightarrow> m | Some x \<Rightarrow> f x)"
  by (simp split: option.split)

lemma read_chain_head_authority [simp]: "op_keeps same_authority (read_chain_head_for_mutation E os i au)"
  unfolding read_chain_head_for_mutation_def by (intro same_authority_bind) (auto intro!: same_authority_bind)

lemma journal_authority [simp]:
  "op_keeps same_authority (prepare_remove E os clock l c e)"
  "op_keeps same_authority (replace_remove_with_published_set E os clock l c i t)"
  "op_keeps same_authority (acknowledge E os l c i)"
  "op_keeps same_authority cache_clear"
  unfolding prepare_remove_def replace_remove_with_published_set_def acknowledge_def cache_clear_def Let_def
  by (auto intro!: same_authority_bind split: option.split head_operation.split)

lemma read_thread_snapshot_authority [simp]: "op_keeps same_authority (read_thread_snapshot E os au tid)"
  unfolding read_thread_snapshot_def
  by (auto intro!: same_authority_bind split: option.split)

lemma remove_head_effect:
  assumes "remove_head os c s = (r, s')"
  shows "s' = s \<or> s' = s\<lparr> st_heads := bt_remove c (st_heads s) \<rparr>"
  using assms by (auto simp: remove_head_def op_bind_eq op_lift_eq op_update_eq split: if_splits)

lemma removed_head_valid:
  assumes "heads_valid E trust s"
  shows "heads_valid E trust (s\<lparr> st_heads := bt_remove c (st_heads s) \<rparr>)"
  using assms by (auto simp: heads_valid_def good_head_def read_verified_head_def read_verified_ref_def split: option.splits)

definition cas_grows :: "store \<Rightarrow> store \<Rightarrow> bool" where
  "cas_grows s s' \<longleftrightarrow> map_of (st_cas s) \<subseteq>\<^sub>m map_of (st_cas s')"

text \<open>Every step either extends one chain or removes a head.\<close>

lemma authority_step_cases:
  assumes "laws E" and "heads_valid E trust s" and "authority_step E trust s s'"
  obtains c where "extends E trust c s s'" | c where "s' = s\<lparr> st_heads := bt_remove c (st_heads s) \<rparr>"
proof -
  from assms(3) show thesis
  proof cases
    case (create au x os r)
    then show ?thesis using create_chain_extends [OF assms(1)] that(1) by metis
  next
    case (create_events au x os events r)
    then show ?thesis using create_chain_with_events_extends [OF assms(1)] that(1) by metis
  next
    case (append au events us os tid r)
    then show ?thesis using append_events_extends [OF assms(1), of au] assms(2) that(1) by metis
  next
    case (add au x os r)
    then show ?thesis using add_thread_to_chain_extends [OF assms(1), of au] assms(2) that(1) by metis
  next
    case (add_events au x events os r)
    then show ?thesis using add_thread_to_chain_with_events_extends [OF assms(1), of au] assms(2) that(1) by metis
  next
    case (add_append au x nevs xevs us os xt r)
    then show ?thesis using add_thread_with_events_and_append_extends [OF assms(1), of au] assms(2) that(1) by metis
  next
    case (remove os c r)
    then show ?thesis using remove_head_effect [OF remove] that extends_refl(1) by metis
  next
    case (objects os writes r)
    then have "extends E trust c s s'" for c
      using write_cas_batch_effect [OF objects] by (auto intro!: extends_same_heads)
    then show ?thesis by (rule that(1))
  qed (use that(1) extends_refl(2) op_keepsD [OF read_thread_snapshot_authority] op_keepsD [OF journal_authority(1)]
      op_keepsD [OF journal_authority(2)] op_keepsD [OF journal_authority(3)] op_keepsD [OF journal_authority(4)]
      op_keepsD [OF advance_phase_authority] op_keepsD [OF prepare_set_authority] in metis)+
qed

lemma step_keeps_heads_valid:
  assumes "laws E" and "heads_valid E trust s" and "authority_step E trust s s'"
  shows "heads_valid E trust s'"
  using assms by (rule authority_step_cases) (use extends_valid [OF assms(2)] removed_head_valid [OF assms(2)] in auto)

lemma step_cas_grows:
  assumes "laws E" and "heads_valid E trust s" and "authority_step E trust s s'"
  shows "cas_grows s s'"
  using assms by (rule authority_step_cases) (auto simp: cas_grows_def extends_def)

interpretation authority: invariant_system "authority_step E trust" "\<lambda>s. laws E \<and> heads_valid E trust s" cas_grows
proof
  show "laws E \<and> heads_valid E trust t" if "authority_step E trust s t" "laws E \<and> heads_valid E trust s" for s t
    using that step_keeps_heads_valid by blast
  show "cas_grows s t" if "authority_step E trust s t" "laws E \<and> heads_valid E trust s" for s t
    using that step_cas_grows by blast
  show "cas_grows s u" if "cas_grows s t" "cas_grows t u" for s t u
    using that by (auto simp: cas_grows_def intro: map_le_trans)
qed (simp add: cas_grows_def)

lemma empty_store_valid: "heads_valid E trust empty_store"
  by (simp add: heads_valid_def good_head_def empty_store_def read_verified_head_def read_verified_ref_def)

lemma reachable_valid:
  assumes "laws E" and "(authority_step E trust)\<^sup>*\<^sup>* empty_store s"
  shows "heads_valid E trust s"
  using authority.run_keeps [OF assms(2)] assms(1) empty_store_valid by blast

lemma history_own_ancestor:
  assumes "validate_authoritative_history E cas c h None = Inr ()"
  shows "validate_authoritative_history E cas c h (Some h) = Inr ()"
proof -
  obtain states events where a: "accepted_history E cas c states events" "last_hash states = Some h"
    using assms unfolding history_iff by blast
  then have "states \<noteq> []" by (auto simp: last_hash_def split: if_splits)
  then have "h \<in> fst ` set states" using a(2) by (auto simp: last_hash_def)
  with a show ?thesis unfolding history_iff by blast
qed

end
