(* ===== verification/Calendar.thy ===== *)
theory Calendar
  imports Timestamps
begin

text \<open>
  The Gregorian calendar, counted year by year and month by month, and the proof that
  \<open>civil_from_days\<close> computes it, hence that a rendered timestamp reads back.
\<close>

section \<open>The calendar\<close>

definition leap :: "nat \<Rightarrow> bool" where
  "leap y \<longleftrightarrow> 4 dvd y \<and> (\<not> 100 dvd y \<or> 400 dvd y)"

definition month_length :: "nat \<Rightarrow> nat \<Rightarrow> nat" where
  "month_length y m =
     (if m = 2 then (if leap y then 29 else 28) else if m \<in> {4, 6, 9, 11} then 30 else 31)"

fun days_before_month :: "nat \<Rightarrow> nat \<Rightarrow> nat" where
  "days_before_month y 0 = 0"
| "days_before_month y (Suc m) = (if m = 0 then 0 else days_before_month y m + month_length y m)"

text \<open>The days of the years from 1970 to before the year.\<close>

fun days_of_years :: "nat \<Rightarrow> nat" where
  "days_of_years 0 = 0"
| "days_of_years (Suc n) = days_of_years n + (if leap (1970 + n) then 366 else 365)"

definition valid_date :: "nat \<Rightarrow> nat \<Rightarrow> nat \<Rightarrow> bool" where
  "valid_date y m d \<longleftrightarrow> 1970 \<le> y \<and> 1 \<le> m \<and> m \<le> 12 \<and> 1 \<le> d \<and> d \<le> month_length y m"

definition day_number :: "nat \<Rightarrow> nat \<Rightarrow> nat \<Rightarrow> nat" where
  "day_number y m d = days_of_years (y - 1970) + days_before_month y m + (d - 1)"

section \<open>Closed forms\<close>

text \<open>The days of the years before the first of March of year \<open>y\<close>, from year zero.\<close>

definition march_days :: "nat \<Rightarrow> nat" where
  "march_days y = 365 * y + y div 4 - y div 100 + y div 400"

lemma div_Suc_dvd: "0 < k \<Longrightarrow> Suc n div k = n div k + (if k dvd Suc n then 1 else 0)" for k n :: nat
  by (auto simp: div_Suc dvd_eq_mod_eq_0)

lemma leap_step:
  "\<lbrakk> x4 = y4 + (if p then 1 else 0); x100 = y100 + (if q then 1 else 0); x400 = y400 + (if r then 1 else 0);
     r \<Longrightarrow> q; q \<Longrightarrow> p \<rbrakk>
    \<Longrightarrow> x4 + x400 + y100 = y4 + y400 + x100 + (if p \<and> (\<not> q \<or> r) then 1 else 0)" for x4 x100 x400 y4 y100 y400 :: nat
  by (cases p; cases q; cases r) simp_all

lemma leap_count: "Suc n div 4 + Suc n div 400 + n div 100
    = n div 4 + n div 400 + Suc n div 100 + (if leap (Suc n) then 1 else 0)"
  unfolding leap_def
proof (rule leap_step [OF div_Suc_dvd div_Suc_dvd div_Suc_dvd])
  show "400 dvd Suc n \<Longrightarrow> 100 dvd Suc n" by (erule dvd_trans [rotated]) simp
  show "100 dvd Suc n \<Longrightarrow> 4 dvd Suc n" by (erule dvd_trans [rotated]) simp
qed simp_all

lemma year_step:
  "\<lbrakk> a \<le> b; a' \<le> b'; b' + c' + a = b + c + a' + l \<rbrakk>
    \<Longrightarrow> 365 * Suc n + b' - a' + c' = (365 * n + b - a + c) + (365 + l)" for a b c a' b' c' l n :: nat
  by simp

lemma march_days_Suc: "march_days (Suc n) = march_days n + (if leap (Suc n) then 366 else 365)"
proof -
  have "n div 100 \<le> n div 4" "Suc n div 100 \<le> Suc n div 4" by (simp_all add: div_le_mono2)
  from year_step [OF this leap_count] show ?thesis unfolding march_days_def by (cases "leap (Suc n)") (simp_all only: if_True if_False)
qed

lemma days_of_years_march: "days_of_years n + 719468 = march_days (1969 + n) + 306"
proof (induction n)
  case 0
  show ?case by (simp add: march_days_def)
next
  case (Suc n)
  have "march_days (1970 + n) = march_days (1969 + n) + (if leap (1970 + n) then 366 else 365)"
    using march_days_Suc [of "1969 + n"] by simp
  with Suc show ?case by (simp split: if_splits)
qed

section \<open>The year of a day\<close>

text \<open>A day of the 400-year era, split into centuries, four-year cycles and days of the cycle.\<close>

lemma era_split:
  assumes "doe < (146097 :: nat)"
  obtains c q t where "doe = 36524 * c + 1461 * q + t" "c \<le> 3" "q \<le> 24" "t \<le> 1460" "q = 24 \<and> t = 1460 \<longrightarrow> c = 3"
proof -
  define c where "c = (if doe = 146096 then 3 else doe div 36524)"
  define r where "r = doe - 36524 * c"
  have c: "c \<le> 3" "36524 * c \<le> doe" "r \<le> 36524" "r = 36524 \<longrightarrow> c = 3"
  proof -
    have "doe div 36524 \<le> 3" if "doe \<noteq> 146096" using assms that by (simp add: less_Suc_eq_le [symmetric] div_less_iff_less_mult)
    moreover have "36524 * (doe div 36524) \<le> doe" "doe - 36524 * (doe div 36524) < 36524"
      by (simp_all add: minus_mult_div_eq_mod)
    ultimately show "c \<le> 3" "36524 * c \<le> doe" "r \<le> 36524" "r = 36524 \<longrightarrow> c = 3"
      by (auto simp: c_def r_def)
  qed
  have q: "r div 1461 \<le> 24" using c(3) by (simp add: less_Suc_eq_le [symmetric] div_less_iff_less_mult)
  have t: "r mod 1461 < 1461" by simp
  have e: "r = 1461 * (r div 1461) + r mod 1461" by simp
  show ?thesis
  proof (rule that [of c "r div 1461" "r mod 1461"])
    show "doe = 36524 * c + 1461 * (r div 1461) + r mod 1461" using c(2) by (simp add: r_def)
    show "r div 1461 = 24 \<and> r mod 1461 = 1460 \<longrightarrow> c = 3"
    proof (intro impI)
      assume "r div 1461 = 24 \<and> r mod 1461 = 1460"
      then have "r = 36524" using e by simp
      then show "c = 3" using c(4) by blast
    qed
  qed (use c q t in simp_all)
qed

definition year_of_era :: "nat \<Rightarrow> nat" where
  "year_of_era doe = (doe - doe div 1460 + doe div 36524 - doe div 146096) div 365"

lemma div_eqI: "k * q \<le> n \<Longrightarrow> n < k * q + k \<Longrightarrow> n div k = q" for n k q :: nat
  by (rule div_nat_eqI) (simp_all add: mult.commute)

lemma year_of_era_split:
  assumes doe: "doe = 36524 * c + 1461 * q + t" and b: "c \<le> 3" "q \<le> 24" "t \<le> 1460" "q = 24 \<and> t = 1460 \<longrightarrow> c = 3"
  shows "year_of_era doe = 100 * c + 4 * q + min 3 (t div 365)"
proof -
  obtain k where k_def: "min 3 (t div 365) = k" by simp
  define e where "e = (if 1460 \<le> 24 * c + q + t then 1 else 0 :: nat)"
  define g where "g = (if doe = 146096 then 1 else 0 :: nat)"
  have d1: "doe div 1460 = 25 * c + q + e"
    by (rule div_eqI) (use doe b in \<open>auto simp: e_def\<close>)
  have d2: "doe div 36524 = c + g" by (rule div_eqI) (use doe b in \<open>auto simp: g_def\<close>)
  have d3: "doe div 146096 = g" by (rule div_eqI) (use doe b in \<open>auto simp: g_def\<close>)
  obtain u v where t: "t = 365 * u + v" "v < 365" "t div 365 = u"
    using mult_div_mod_eq [of 365 t] by (metis mod_less_divisor zero_less_numeral)
  have u: "u \<le> 4" using t(1) b(3) by simp
  have k: "365 * k \<le> t" "t \<le> 365 * k + 365" "t = 365 * k + 365 \<longrightarrow> t = 1460"
    using k_def t u b(3) by (cases "u \<le> 3"; simp add: min_def)+
  have e: "e \<le> 1" "e = 1 \<longrightarrow> 1364 \<le> t" "t = 1460 \<longrightarrow> e = 1" using b by (auto simp: e_def)
  have le: "25 * c + q + e \<le> doe" using doe b e by (cases "e = 0") auto
  have "doe - doe div 1460 + doe div 36524 - doe div 146096 = 36500 * c + 1460 * q + t - e"
    unfolding d1 d2 d3 using doe le by simp
  moreover have "(36500 * c + 1460 * q + t - e) div 365 = 100 * c + 4 * q + k"
  proof (rule div_eqI)
    have "365 * k + e \<le> t"
    proof (cases "e = 1")
      case True
      then have "1364 \<le> t" using e(2) by blast
      moreover have "k \<le> 3" using k_def by auto
      ultimately show ?thesis using True by linarith
    qed (use e(1) k(1) in simp)
    then show "365 * (100 * c + 4 * q + k) \<le> 36500 * c + 1460 * q + t - e" by simp
    have "t < 365 * k + 365 + e" using k(2,3) e(3) by (cases "t = 1460") auto
    then show "36500 * c + 1460 * q + t - e < 365 * (100 * c + 4 * q + k) + 365" by simp
  qed
  ultimately show ?thesis by (simp add: year_of_era_def k_def)
qed

lemma year_days:
  assumes "y = 100 * c + 4 * q + k" "c \<le> 3" "q \<le> 24" "k \<le> (3::nat)"
  shows "365 * y + y div 4 - y div 100 = 36524 * c + 1461 * q + 365 * k" "y \<le> 399"
    "march_days (400 * era + y) = 146097 * era + (36524 * c + 1461 * q + 365 * k)"
proof -
  have d: "y div 4 = 25 * c + q" "y div 100 = c" by (rule div_eqI; use assms in simp)+
  then show "365 * y + y div 4 - y div 100 = 36524 * c + 1461 * q + 365 * k" "y \<le> 399" using assms by simp_all
  have "(400 * era + y) div 4 = 100 * era + 25 * c + q" "(400 * era + y) div 100 = 4 * era + c" "(400 * era + y) div 400 = era"
    by (rule div_eqI; use assms in simp)+
  then show "march_days (400 * era + y) = 146097 * era + (36524 * c + 1461 * q + 365 * k)"
    using assms(1) by (simp add: march_days_def)
qed

lemma cycle_leap:
  assumes "q \<le> 24" and "q = 24 \<longrightarrow> c = 3"
  shows "leap (Suc (400 * era + (100 * c + 4 * q + 3)))"
proof -
  have y: "Suc (400 * era + (100 * c + 4 * q + 3)) = 4 * (100 * era + 25 * c + q + 1)" by simp
  show ?thesis
  proof (cases "q = 24")
    case True
    then have "Suc (400 * era + (100 * c + 4 * q + 3)) = 400 * (era + 1)" using assms by simp
    then show ?thesis unfolding leap_def y [symmetric] by (metis dvd_triv_left dvd_trans y)
  next
    case False
    then have "4 * (100 * era + 25 * c + q + 1) = 100 * (4 * era + c) + 4 * (q + 1)" "4 * (q + 1) < 100"
      using assms(1) by simp_all
    then have "\<not> 100 dvd 4 * (100 * era + 25 * c + q + 1)" by (metis dvd_add_right_iff dvd_triv_left nat_dvd_not_less zero_less_Suc mult_pos_pos zero_less_numeral Suc_eq_plus1)
    then show ?thesis unfolding leap_def y by simp
  qed
qed

text \<open>The day of the March-based year and its month.\<close>

lemma day_of_year:
  assumes "doe < 146097"
  defines "y \<equiv> year_of_era doe"
  shows "365 * y + y div 4 - y div 100 \<le> doe"
    and "march_days (400 * era + y) + (doe - (365 * y + y div 4 - y div 100)) = 146097 * era + doe"
    and "doe - (365 * y + y div 4 - y div 100) \<le> 365"
    and "doe - (365 * y + y div 4 - y div 100) = 365 \<Longrightarrow> leap (Suc (400 * era + y))"
    and "y \<le> 399"
proof -
  obtain c q t where s: "doe = 36524 * c + 1461 * q + t" "c \<le> 3" "q \<le> 24" "t \<le> 1460" "q = 24 \<and> t = 1460 \<longrightarrow> c = 3"
    using era_split [OF assms(1)] by blast
  obtain k where k: "min 3 (t div 365) = k" by simp
  have y: "y = 100 * c + 4 * q + k" unfolding y_def year_of_era_split [OF s] k ..
  have k3: "k \<le> 3" using k by auto
  note d = year_days [OF y s(2,3) k3]
  obtain u v where t: "t = 365 * u + v" "v < 365" "t div 365 = u"
    using mult_div_mod_eq [of 365 t] by (metis mod_less_divisor zero_less_numeral)
  have u: "u \<le> 4" using t(1) s(4) by simp
  have b: "365 * k \<le> t" "t \<le> 365 * k + 365" "t = 365 * k + 365 \<longrightarrow> t = 1460 \<and> k = 3"
    using k t u s(4) by (cases "u \<le> 3"; simp add: min_def)+
  show "365 * y + y div 4 - y div 100 \<le> doe" "doe - (365 * y + y div 4 - y div 100) \<le> 365"
    "march_days (400 * era + y) + (doe - (365 * y + y div 4 - y div 100)) = 146097 * era + doe"
    unfolding d using s(1) b(1,2) by simp_all
  show "y \<le> 399" by (fact d(2))
  assume "doe - (365 * y + y div 4 - y div 100) = 365"
  then have "t = 365 * k + 365" unfolding d(1) using s(1) b(1) by simp
  then have "k = 3" "q = 24 \<longrightarrow> c = 3" using b(3) s(5) by blast+
  then show "leap (Suc (400 * era + y))" unfolding y using cycle_leap [OF s(3)] by simp
qed

definition march_month :: "nat \<Rightarrow> nat" where
  "march_month doy = (5 * doy + 2) div 153"

definition month_start :: "nat \<Rightarrow> nat" where
  "month_start mp = (153 * mp + 2) div 5"

definition march_length :: "nat \<Rightarrow> nat" where
  "march_length mp = [31, 30, 31, 30, 31, 31, 30, 31, 30, 31, 31, 29] ! mp"

lemma march_month_bounds:
  assumes "doy \<le> 365"
  shows "march_month doy \<le> 11" and "month_start (march_month doy) \<le> doy"
    and "doy < month_start (march_month doy) + march_length (march_month doy)"
proof -
  obtain mp where mp: "march_month doy = mp" by simp
  have b: "153 * mp \<le> 5 * doy + 2" "5 * doy + 2 < 153 * mp + 153"
    unfolding mp [symmetric] march_month_def by (simp_all add: dividend_less_times_div)
  then have "mp \<le> 11" using assms by linarith
  then have "mp \<in> set [0, 1, 2, 3, 4, 5, 6, 7, 8, 9, 10, 11]" by (simp, presburger)
  then have "month_start mp \<le> doy \<and> doy < month_start mp + march_length mp"
    using b assms by (auto simp: month_start_def march_length_def)
  with \<open>mp \<le> 11\<close> mp show "march_month doy \<le> 11" "month_start (march_month doy) \<le> doy"
    "doy < month_start (march_month doy) + march_length (march_month doy)" by auto
qed

lemma days_before_month_step: "0 < m \<Longrightarrow> days_before_month y (m + 1) = days_before_month y m + month_length y m"
  by simp

lemma days_before_months:
  "days_before_month y 1 = 0" "days_before_month y 2 = 31"
  "days_before_month y 3 = 59 + (if leap y then 1 else 0)" "days_before_month y 4 = 90 + (if leap y then 1 else 0)"
  "days_before_month y 5 = 120 + (if leap y then 1 else 0)" "days_before_month y 6 = 151 + (if leap y then 1 else 0)"
  "days_before_month y 7 = 181 + (if leap y then 1 else 0)" "days_before_month y 8 = 212 + (if leap y then 1 else 0)"
  "days_before_month y 9 = 243 + (if leap y then 1 else 0)" "days_before_month y 10 = 273 + (if leap y then 1 else 0)"
  "days_before_month y 11 = 304 + (if leap y then 1 else 0)" "days_before_month y 12 = 334 + (if leap y then 1 else 0)"
proof -
  show 1: "days_before_month y 1 = 0" by simp
  note s = days_before_month_step and m = month_length_def
  from s [of 1 y] 1 show 2: "days_before_month y 2 = 31" by (simp add: m numeral_2_eq_2)
  from s [of 2 y] 2 show 3: "days_before_month y 3 = 59 + (if leap y then 1 else 0)" by (simp add: m)
  from s [of 3 y] 3 show 4: "days_before_month y 4 = 90 + (if leap y then 1 else 0)" by (simp add: m)
  from s [of 4 y] 4 show 5: "days_before_month y 5 = 120 + (if leap y then 1 else 0)" by (simp add: m)
  from s [of 5 y] 5 show 6: "days_before_month y 6 = 151 + (if leap y then 1 else 0)" by (simp add: m)
  from s [of 6 y] 6 show 7: "days_before_month y 7 = 181 + (if leap y then 1 else 0)" by (simp add: m)
  from s [of 7 y] 7 show 8: "days_before_month y 8 = 212 + (if leap y then 1 else 0)" by (simp add: m)
  from s [of 8 y] 8 show 9: "days_before_month y 9 = 243 + (if leap y then 1 else 0)" by (simp add: m)
  from s [of 9 y] 9 show 10: "days_before_month y 10 = 273 + (if leap y then 1 else 0)" by (simp add: m)
  from s [of 10 y] 10 show 11: "days_before_month y 11 = 304 + (if leap y then 1 else 0)" by (simp add: m)
  from s [of 11 y] 11 show "days_before_month y 12 = 334 + (if leap y then 1 else 0)" by (simp add: m)
qed

lemma march_months:
  "mp < 10 \<Longrightarrow> days_before_month y (mp + 3) = 59 + (if leap y then 1 else 0) + month_start mp"
  "mp < 10 \<Longrightarrow> month_length y (mp + 3) = march_length mp"
  "days_before_month y 1 + 306 = month_start 10" "days_before_month y 2 + 306 = month_start 11"
  "month_length y 1 = march_length 10" "march_length 11 = 29" "month_start 11 + 28 = 365"
proof -
  have "mp \<in> set [0, 1, 2, 3, 4, 5, 6, 7, 8, 9]" if "mp < 10" using that by (simp, presburger)
  then show "mp < 10 \<Longrightarrow> days_before_month y (mp + 3) = 59 + (if leap y then 1 else 0) + month_start mp"
    "mp < 10 \<Longrightarrow> month_length y (mp + 3) = march_length mp"
    by (auto simp: month_start_def march_length_def month_length_def days_before_months simp del: days_before_month.simps)
  show "days_before_month y 1 + 306 = month_start 10" "days_before_month y 2 + 306 = month_start 11"
    "month_length y 1 = march_length 10" "march_length 11 = 29" "month_start 11 + 28 = 365"
    using days_before_months(1,2) [of y] by (simp_all add: month_start_def march_length_def month_length_def)
qed

section \<open>The conversion is the calendar\<close>

definition march_date :: "nat \<Rightarrow> nat \<Rightarrow> nat \<times> nat \<times> nat" where
  "march_date y doy =
     (let mp = march_month doy; m = (if mp < 10 then mp + 3 else mp - 9)
      in (if m \<le> 2 then y + 1 else y, m, doy - month_start mp + 1))"

lemma march_date_day_number:
  assumes doy: "doy \<le> 365" "doy = 365 \<Longrightarrow> leap (Suc y)" and y: "march_days y + doy = n + 719468"
    and d: "march_date y doy = (yy, m, d)"
  shows "valid_date yy m d \<and> day_number yy m d = n \<and> yy \<le> Suc y"
proof -
  note b = march_month_bounds [OF doy(1)]
  obtain mp where mp: "march_month doy = mp" by simp
  have y1969: "1969 \<le> y"
  proof (rule ccontr)
    assume "\<not> 1969 \<le> y"
    then have "y \<le> 1968" by simp
    then have "365 * y + y div 4 \<le> 365 * 1968 + 1968 div 4" "y div 400 \<le> 1968 div 400"
      by (intro add_mono mult_le_mono div_le_mono; simp)+
    then have "march_days y \<le> 365 * 1968 + 1968 div 4 + 1968 div 400" unfolding march_days_def by linarith
    then show False using y doy(1) by simp
  qed
  have years: "days_of_years (y - 1969) + 719468 = march_days y + 306"
    using days_of_years_march [of "y - 1969"] y1969 by simp
  show ?thesis
  proof (cases "mp < 10")
    case True
    have date: "yy = y" "m = mp + 3" "d = doy - month_start mp + 1"
      using d True by (auto simp: march_date_def Let_def mp)
    have "march_month doy < 10" using True mp by simp
    then have "5 * doy + 2 < 153 * 10" by (simp add: march_month_def div_less_iff_less_mult)
    then have "y \<noteq> 1969" using y by (auto simp: march_days_def)
    then have y1970: "1970 \<le> y" using y1969 by simp
    have "march_days (Suc (y - 1)) = march_days (y - 1) + (if leap (Suc (y - 1)) then 366 else 365)"
      by (rule march_days_Suc)
    then have m: "march_days y = march_days (y - 1) + 365 + (if leap y then 1 else 0)" using y1970 by simp
    have "days_of_years (y - 1970) + 719468 = march_days (y - 1) + 306"
    proof -
      have "1969 + (y - 1970) = y - 1" using y1970 by simp
      then show ?thesis using days_of_years_march [of "y - 1970"] by simp
    qed
    then have "day_number yy m d = n"
      using m y b(2) unfolding date day_number_def march_months(1) [OF True] mp by simp
    moreover have "valid_date yy m d"
      using True y1970 b(2,3) march_months(2) [OF True, of y] unfolding valid_date_def date mp by simp
    ultimately show ?thesis using date by simp
  next
    case False
    then have "mp = 10 \<or> mp = 11" using b(1) mp by auto
    then have date: "yy = Suc y" "m = mp - 9" "d = doy - month_start mp + 1" "m \<in> {1, 2}"
      using d by (auto simp: march_date_def Let_def mp)
    have start: "days_before_month yy m + 306 = month_start mp"
      using \<open>mp = 10 \<or> mp = 11\<close> date(2) march_months(3,4) [of yy] by auto
    have "Suc y - 1970 = y - 1969" by simp
    then have "day_number yy m d = n"
      using years y b(2) start unfolding day_number_def date(1,3) mp by simp
    moreover have "d \<le> month_length yy m"
    proof (cases "mp = 10")
      case True
      then show ?thesis using b(2,3) march_months(5) [of yy] unfolding date mp by simp
    next
      case 11: False
      then have mp11: "mp = 11" using \<open>mp = 10 \<or> mp = 11\<close> by simp
      have "doy = 365 \<or> doy < month_start 11 + 28" using march_months(7) doy(1) by linarith
      then show ?thesis
        using doy(2) b(2) mp mp11 march_months(7) unfolding date by (auto simp: month_length_def)
    qed
    then have "valid_date yy m d" using y1969 date by (auto simp: valid_date_def)
    ultimately show ?thesis using date by simp
  qed
qed

lemma days_of_years_mono: "m \<le> n \<Longrightarrow> days_of_years m \<le> days_of_years n"
  by (induction n) (auto simp: le_Suc_eq split: if_splits)

lemma civil_from_days_march:
  assumes "N = n + 719468" and "N < 146097 * 5000000"
  defines "y \<equiv> 400 * (N div 146097) + year_of_era (N mod 146097)"
    and "doy \<equiv> N mod 146097 - (365 * year_of_era (N mod 146097) + year_of_era (N mod 146097) div 4 - year_of_era (N mod 146097) div 100)"
  assumes "march_date y doy = (yy, m, d)"
  shows "civil_from_days (int n) = (int yy, m, d)"
proof -
  let ?e = "N div 146097" and ?doe = "N mod 146097"
  let ?yoe = "year_of_era ?doe"
  have e: "(if 0 \<le> int n + 719468 then int n + 719468 else int n + 719468 - 146096) sdiv 146097 = int ?e"
    using assms(1) by (simp add: signed_divide_int_def of_nat_div)
  have "int n + 719468 - int ?e * 146097 = int ?doe"
    using assms(1) by (simp add: of_nat_mod of_nat_div minus_div_mult_eq_mod)
  then have doe: "as_u32 (int n + 719468 - int ?e * 146097) = ?doe"
    by (simp add: as_u32_def nat_mod_distrib)
  have "?e < 5000000" using assms(2) by (simp add: less_mult_imp_div_less)
  moreover have "?yoe \<le> 399" by (rule day_of_year(5)) simp
  ultimately have small: "int y + 1 < 2147483648" unfolding y_def by simp
  then have i32: "as_i32 (int y) = int y" "as_i32 (int y + 1) = int y + 1" by (simp_all add: as_i32_def)
  have iy: "int ?yoe + int ?e * 400 = int y" by (simp add: y_def)
  show ?thesis
    unfolding civil_from_days_def Let_def e doe year_of_era_def [symmetric] doy_def [symmetric] march_month_def [symmetric]
      month_start_def [symmetric] iy
    using assms(5) i32 by (auto simp: march_date_def Let_def split: if_splits)
qed

lemma civil_from_days_day_number:
  assumes "n < 2932897"
  obtains y m d where "civil_from_days (int n) = (int y, m, d)" "valid_date y m d" "day_number y m d = n" "y \<le> 9999"
proof -
  let ?N = "n + 719468"
  let ?e = "?N div 146097" and ?doe = "?N mod 146097"
  let ?Y = "400 * ?e + year_of_era ?doe"
  let ?doy = "?doe - (365 * year_of_era ?doe + year_of_era ?doe div 4 - year_of_era ?doe div 100)"
  have doe: "?doe < 146097" by simp
  obtain y m d where date: "march_date ?Y ?doy = (y, m, d)" by (cases "march_date ?Y ?doy")
  have civil: "civil_from_days (int n) = (int y, m, d)"
    by (rule civil_from_days_march [OF refl _ date]) (use assms in simp)
  have v: "valid_date y m d" "day_number y m d = n"
    using march_date_day_number [OF day_of_year(3,4) [OF doe] _ date] day_of_year(2) [OF doe, of ?e] by simp_all
  have "y \<le> 9999"
  proof (rule ccontr)
    assume "\<not> y \<le> 9999"
    then have "days_of_years 8030 \<le> days_of_years (y - 1970)" by (intro days_of_years_mono) simp
    moreover have "days_of_years 8030 = 2932897" using days_of_years_march [of 8030] by (simp add: march_days_def)
    ultimately show False using v(2) assms by (simp add: day_number_def)
  qed
  with civil v show ?thesis by (rule that)
qed

section \<open>Rendered timestamps read back\<close>

definition utc_instant :: "string \<Rightarrow> int option" where
  "utc_instant s =
     (let y = decimal_reading (take 4 s); m = decimal_reading (take 2 (drop 5 s)); d = decimal_reading (take 2 (drop 8 s));
          hours = decimal_reading (take 2 (drop 11 s)); minutes = decimal_reading (take 2 (drop 14 s));
          seconds = decimal_reading (take 2 (drop 17 s))
      in if valid_date y m d \<and> hours < 24 \<and> minutes < 60 \<and> seconds < 60
         then Some (int (day_number y m d * 86400 + hours * 3600 + minutes * 60 + seconds)) else None)"

text \<open>
  What the code relies on of \<open>NaiveDateTime::parse_from_str\<close>: text of the canonical form from 1970
  on is read by the calendar.
\<close>

definition calendar_parser :: "'z lib_env_scheme \<Rightarrow> bool" where
  "calendar_parser E \<longleftrightarrow>
     (\<forall>s. digits_are_ascii s \<longrightarrow> 1970 \<le> decimal_reading (take 4 s) \<longrightarrow> decimal_reading (take 2 (drop 17 s)) \<le> 59
        \<longrightarrow> chrono_parse E s = utc_instant s)"

lemma decimal_length: "n < 10 ^ w \<Longrightarrow> 0 < w \<Longrightarrow> length (decimal n) \<le> w"
proof (induction n arbitrary: w rule: decimal.induct)
  case (1 n)
  show ?case
  proof (cases "n < 10")
    case True
    then show ?thesis using 1 by (subst decimal.simps) simp
  next
    case False
    then obtain v where w: "w = Suc v" "0 < v" using "1.prems" by (cases w; cases "w - 1") auto
    have "n div 10 < 10 ^ v" using "1.prems"(1) w by (simp add: less_mult_imp_div_less mult.commute)
    then have "length (decimal (n div 10)) \<le> v" using "1.IH" False w(2) by blast
    then show ?thesis using False w by (subst decimal.simps) simp
  qed
qed

lemma decimal_reading_zeros: "decimal_reading (replicate k (CHR ''0'') @ s) = decimal_reading s"
  by (induction k) (simp_all add: decimal_reading_def byte_def)

lemma padded_facts:
  assumes "n < 10 ^ w" and "0 < w"
  shows "length (padded w n) = w" "decimal_reading (padded w n) = n" "list_all is_ascii_digit (padded w n)"
  using decimal_length [OF assms] decimal_digits [of n]
  by (auto simp: padded_def pad_def decimal_reading_zeros list_all_iff is_ascii_digit_def byte_def)

lemma sum_parts: "a = b + s \<Longrightarrow> s = c + (d + e) \<Longrightarrow> a = b + c + d + e" for a b c d e s :: nat
  by simp

lemma iso8601_fields:
  assumes "secs < 253402300800"
  obtains y m d hours minutes seconds where
    "iso8601_from_unix_secs secs = padded 4 y @ ''-'' @ padded 2 m @ ''-'' @ padded 2 d @ ''T''
       @ padded 2 hours @ '':'' @ padded 2 minutes @ '':'' @ padded 2 seconds @ ''Z''"
    "valid_date y m d" "y \<le> 9999" "hours < 24" "minutes < 60" "seconds < 60"
    "secs = day_number y m d * 86400 + hours * 3600 + minutes * 60 + seconds"
proof -
  have "secs div 86400 < 2932897" using assms by (simp add: less_mult_imp_div_less)
  then obtain y m d where date: "civil_from_days (int (secs div 86400)) = (int y, m, d)" "valid_date y m d"
      "day_number y m d = secs div 86400" "y \<le> 9999"
    by (rule civil_from_days_day_number)
  let ?s = "secs mod 86400"
  show ?thesis
  proof (rule that)
    show "iso8601_from_unix_secs secs = padded 4 y @ ''-'' @ padded 2 m @ ''-'' @ padded 2 d @ ''T''
       @ padded 2 (?s div 3600) @ '':'' @ padded 2 (?s mod 3600 div 60) @ '':'' @ padded 2 (?s mod 60) @ ''Z''"
      unfolding iso8601_from_unix_secs_def Let_def date(1) prod.case padded_int_def by (simp only: of_nat_less_0_iff if_False nat_int)
    have lt: "?s < 24 * 3600" "?s mod 3600 < 60 * 60" "?s mod 60 < 60" by simp_all
    then show "?s div 3600 < 24" "?s mod 3600 div 60 < 60" "?s mod 60 < 60"
      using less_mult_imp_div_less by blast+
    have "?s mod 3600 mod 60 = ?s mod 60" by (rule mod_mod_cancel) simp
    then have "?s = ?s div 3600 * 3600 + (?s mod 3600 div 60 * 60 + ?s mod 60)"
      using div_mult_mod_eq [of ?s 3600] div_mult_mod_eq [of "?s mod 3600" 60] by metis
    then show "secs = day_number y m d * 86400 + ?s div 3600 * 3600 + ?s mod 3600 div 60 * 60 + ?s mod 60"
      unfolding date(3) by (rule sum_parts [OF div_mult_mod_eq [symmetric]])
  qed (fact date)+
qed

lemma iso8601_reads_back:
  assumes "secs < 253402300800"
  shows "digits_are_ascii (iso8601_from_unix_secs secs)" "utc_instant (iso8601_from_unix_secs secs) = Some (int secs)"
    "1970 \<le> decimal_reading (take 4 (iso8601_from_unix_secs secs))"
    "decimal_reading (take 4 (iso8601_from_unix_secs secs)) \<le> 9999"
    "decimal_reading (take 2 (drop 17 (iso8601_from_unix_secs secs))) \<le> 59"
proof -
  from assms obtain y m d hours minutes seconds where s:
    "iso8601_from_unix_secs secs = padded 4 y @ ''-'' @ padded 2 m @ ''-'' @ padded 2 d @ ''T''
       @ padded 2 hours @ '':'' @ padded 2 minutes @ '':'' @ padded 2 seconds @ ''Z''"
    and v: "valid_date y m d" "y \<le> 9999" "hours < 24" "minutes < 60" "seconds < 60"
    and secs: "secs = day_number y m d * 86400 + hours * 3600 + minutes * 60 + seconds"
    by (rule iso8601_fields)
  have "month_length y m \<le> 31" by (simp add: month_length_def)
  then have b: "y < 10 ^ 4" "m < 10 ^ 2" "d < 10 ^ 2" "hours < 10 ^ 2" "minutes < 10 ^ 2" "seconds < 10 ^ 2"
    using v by (simp_all add: valid_date_def)
  note f = padded_facts [OF b(1) zero_less_numeral] padded_facts [OF b(2) zero_less_numeral] padded_facts [OF b(3) zero_less_numeral] padded_facts [OF b(4) zero_less_numeral]
    padded_facts [OF b(5) zero_less_numeral] padded_facts [OF b(6) zero_less_numeral]
  obtain y1 y2 y3 y4 where py: "padded 4 y = [y1, y2, y3, y4]" using f(1) by (auto simp: length_Suc_conv numeral_eq_Suc)
  have two: "\<exists>a b. padded 2 n = [a, b]" if "length (padded 2 n) = 2" for n
    using that by (auto simp: length_Suc_conv numeral_eq_Suc)
  obtain m1 m2 where pm: "padded 2 m = [m1, m2]" using two f(4) by blast
  obtain d1 d2 where pd: "padded 2 d = [d1, d2]" using two f(7) by blast
  obtain h1 h2 where ph: "padded 2 hours = [h1, h2]" using two f(10) by blast
  obtain n1 n2 where pn: "padded 2 minutes = [n1, n2]" using two f(13) by blast
  obtain s1 s2 where ps: "padded 2 seconds = [s1, s2]" using two f(16) by blast
  note p = py pm pd ph pn ps
  have digits: "list_all is_ascii_digit [y1, y2, y3, y4, m1, m2, d1, d2, h1, h2, n1, n2, s1, s2]"
    using f(3,6,9,12,15,18) by (simp add: p)
  have read: "decimal_reading [y1, y2, y3, y4] = y" "decimal_reading [m1, m2] = m" "decimal_reading [d1, d2] = d"
    "decimal_reading [h1, h2] = hours" "decimal_reading [n1, n2] = minutes" "decimal_reading [s1, s2] = seconds"
    using f(2,5,8,11,14,17) by (simp_all add: p)
  show "digits_are_ascii (iso8601_from_unix_secs secs)"
    using digits by (simp add: s p digits_are_ascii_def separators_are_canonical_def)
  show "utc_instant (iso8601_from_unix_secs secs) = Some (int secs)"
    "1970 \<le> decimal_reading (take 4 (iso8601_from_unix_secs secs))"
    "decimal_reading (take 4 (iso8601_from_unix_secs secs)) \<le> 9999"
    "decimal_reading (take 2 (drop 17 (iso8601_from_unix_secs secs))) \<le> 59"
    unfolding s p utc_instant_def using v secs [symmetric] by (simp_all add: read valid_date_def)
qed

lemma iso8601_canonical:
  assumes "calendar_parser E" and "secs < 253402300800"
  shows "parse_canonical_timestamp E (iso8601_from_unix_secs secs) = Inr (int secs)"
proof -
  note r = iso8601_reads_back [OF assms(2)]
  have "chrono_parse E (iso8601_from_unix_secs secs) = Some (int secs)"
    using assms(1) r unfolding calendar_parser_def by metis
  with r show ?thesis by (simp add: parse_canonical_timestamp_def)
qed

text \<open>
  C31: for every day up to the end of the year 9999, \<open>civil_from_days\<close> returns the year, month and
  day that the Gregorian calendar gives it, counting years and months one by one from 1970.
\<close>

theorem civil_from_days_calendar:
  assumes "n < 2932897"
  shows "case civil_from_days (int n) of (y, m, d) \<Rightarrow>
    valid_date (nat y) m d \<and> day_number (nat y) m d = n \<and> y \<le> 9999"
  using assms by (rule civil_from_days_day_number) simp

theorem civil_from_days_calendar_witness:
  "civil_from_days 19675 = (2023, 11, 14) \<and> day_number 2023 11 14 = 19675"
proof -
  have "civil_from_days 19675 = (2023, 11, 14)" by code_simp
  then show ?thesis using civil_from_days_calendar [of 19675] by simp
qed

text \<open>
  C32: a timestamp rendered by \<open>iso8601_from_unix_secs\<close> before the year 10000 is canonical and
  \<open>parse_canonical_timestamp\<close> reads the same second back, when the calendar parser of the
  library reads dates as the calendar does.
\<close>

theorem iso8601_round_trip:
  assumes "calendar_parser E" and "secs < 253402300800"
  shows "parse_canonical_timestamp E (iso8601_from_unix_secs secs) = Inr (int secs)"
  using assms by (rule iso8601_canonical)

theorem iso8601_round_trip_witness:
  "iso8601_from_unix_secs 1700000000 = ''2023-11-14T22:13:20Z''
   \<and> parse_canonical_timestamp (sample_lib_env\<lparr> chrono_parse := utc_instant \<rparr>) ''2023-11-14T22:13:20Z'' = Inr 1700000000"
proof -
  have e: "iso8601_from_unix_secs 1700000000 = ''2023-11-14T22:13:20Z''" by code_simp
  have "calendar_parser (sample_lib_env\<lparr> chrono_parse := utc_instant \<rparr>)" by (simp add: calendar_parser_def)
  from iso8601_round_trip [OF this, of 1700000000] e show ?thesis by simp
qed

end
