(* ===== verification/Chain_Progress.thy ===== *)
theory Chain_Progress
  imports Chain_Invariant Calendar
begin

text \<open>
  When the operating system answers and the signer signs, the writers succeed: what has been
  prepared is stored, journalled and published, and the new head verifies.
\<close>

section \<open>Forward rules of the operations\<close>

lemma op_forward [simp]:
  "op_lift r s = (r, s)" "op_read g s = (g s, s)" "op_update h s = (Inr (), h s)"
  by (simp_all add: op_lift_def op_read_def op_update_def)

lemma op_bind_run:
  "m s = (Inr x, s1) \<Longrightarrow> op_bind m f s = f x s1"
  by (simp add: op_bind_def)

section \<open>The environment in good order\<close>

text \<open>
  No system call fails; the numbers that \<open>unique_id\<close> prints have the widths of their types
  (\<open>u128\<close>, \<open>u32\<close>, \<open>u64\<close>).
\<close>

definition healthy :: "os \<Rightarrow> bool" where
  "healthy os \<longleftrightarrow> (\<forall>site. \<not> os_fault os site) \<and> os_nanos os < 2 ^ 128 \<and> os_process_id os < 2 ^ 32
     \<and> os_sequence os < 2 ^ 64"

text \<open>A signer whose signatures are 64 bytes, survive base64 and verify under its key.\<close>

definition signer_works :: "'z lib_env_scheme \<Rightarrow> signer \<Rightarrow> bool" where
  "signer_works E sg \<longleftrightarrow>
     (\<forall>m. base64_encode E (signer_sign sg m) \<noteq> [] \<and> length (signer_sign sg m) = 64
        \<and> base64_decode E (base64_encode E (signer_sign sg m)) = Some (signer_sign sg m)
        \<and> ed25519_verify E (signer_verifying_key sg) m (signer_sign sg m))"

lemma os_call_healthy [simp]: "healthy os \<Longrightarrow> os_call os site = Inr ()"
  by (simp add: healthy_def os_call_def)

section \<open>The batch\<close>

text \<open>The writes agree with each other and with the store.\<close>

definition consistent :: "cas \<Rightarrow> (string \<times> string) list \<Rightarrow> bool" where
  "consistent cas writes \<longleftrightarrow>
     list_all (\<lambda>(h, b). map_of cas h \<in> {None, Some b} \<and> list_all (\<lambda>(h', b'). h' = h \<longrightarrow> b' = b) writes) writes"

lemma consistentD:
  assumes "consistent cas writes" and "(h, b) \<in> set writes"
  shows "map_of cas h = None \<or> map_of cas h = Some b" and "(h, b') \<in> set writes \<Longrightarrow> b' = b"
  using assms by (auto simp: consistent_def list_all_iff)

lemma batch_prepare_healthy:
  assumes "healthy os" and "\<And>h b. (h, b) \<in> set ws \<Longrightarrow> map_of cas h = None \<or> map_of cas h = Some b"
  shows "\<exists>prepared. batch_prepare os cas i ws = Inr prepared"
  using assms
proof (induction ws arbitrary: i)
  case (Cons x ws)
  obtain h b where x: "x = (h, b)" by fastforce
  obtain p where "batch_prepare os cas (Suc i) ws = Inr p" using Cons.IH [of "Suc i"] Cons.prems by auto
  with Cons.prems(1) Cons.prems(2) [of h b] x show ?case by (auto simp: verify_batch_entry_def)
qed simp

lemma batch_publish_healthy:
  assumes "healthy os" and "\<And>h b. (h, b) \<in> set ws \<Longrightarrow> map_of cas h = None \<or> map_of cas h = Some b"
    and "\<And>h b b'. (h, b) \<in> set ws \<Longrightarrow> (h, b') \<in> set ws \<Longrightarrow> b' = b"
  shows "\<exists>cas'. batch_publish os i ws cas = (Inr (), cas')"
  using assms(2,3)
proof (induction ws arbitrary: i cas)
  case (Cons x ws)
  obtain h b where x: "x = (h, b)" by fastforce
  have "\<exists>cas'. batch_publish os (Suc i) ws (if map_of cas h = None then bt_insert h b cas else cas) = (Inr (), cas')"
  proof (rule Cons.IH)
    fix h' b' assume "(h', b') \<in> set ws"
    then show "map_of (if map_of cas h = None then bt_insert h b cas else cas) h' = None
        \<or> map_of (if map_of cas h = None then bt_insert h b cas else cas) h' = Some b'"
      using Cons.prems(1) [of h' b'] Cons.prems(2) [of h' b' b] x by auto
  next
    show "\<And>h b b'. (h, b) \<in> set ws \<Longrightarrow> (h, b') \<in> set ws \<Longrightarrow> b' = b" using Cons.prems(2) by auto
  qed
  then show ?case using assms(1) Cons.prems(1) [of h b] x by (auto simp: verify_batch_entry_def split: if_splits)
qed simp

lemma write_cas_batch_healthy:
  assumes "healthy os" and "consistent (st_cas s) writes"
  obtains cas where "write_cas_batch os writes s = (Inr (), s\<lparr> st_cas := cas \<rparr>)"
    "map_of (st_cas s) \<subseteq>\<^sub>m map_of cas" "stored_in writes cas"
proof -
  note c = consistentD [OF assms(2)]
  obtain p where p: "batch_prepare os (st_cas s) 0 writes = Inr p"
    using batch_prepare_healthy [OF assms(1), of writes "st_cas s" 0] c(1) by blast
  have sub: "set p \<subseteq> set writes" using batch_prepare_ok [OF p] by blast
  obtain cas where cas: "batch_publish os 0 p (st_cas s) = (Inr (), cas)"
    using batch_publish_healthy [OF assms(1), of p "st_cas s" 0] c sub by (meson subsetD)
  have "\<exists>cas. atomic_write_batch os (st_cas s) writes = (Inr (), cas)"
    using p cas assms(1) by (simp add: atomic_write_batch_def)
  then obtain cas' where "write_cas_batch os writes s = (Inr (), s\<lparr> st_cas := cas' \<rparr>)"
    using assms(1) by (auto simp: write_cas_batch_def op_bind_run)
  with write_cas_batch_effect [OF this] show ?thesis by (auto intro: that)
qed

section \<open>The journal\<close>

lemma hexadecimal_length: "n < 16 ^ w \<Longrightarrow> 0 < w \<Longrightarrow> length (hexadecimal n) \<le> w"
proof (induction n arbitrary: w rule: hexadecimal.induct)
  case (1 n)
  show ?case
  proof (cases "n < 16")
    case True
    then show ?thesis using 1 by (subst hexadecimal.simps) simp
  next
    case False
    then obtain v where w: "w = Suc v" "0 < v" using "1.prems" by (cases w; cases "w - 1") auto
    have "n div 16 < 16 ^ v" using "1.prems"(1) w by (simp add: less_mult_imp_div_less mult.commute)
    then have "length (hexadecimal (n div 16)) \<le> v" using "1.IH" False w(2) by blast
    then show ?thesis using False w by (subst hexadecimal.simps) simp
  qed
qed

lemma unique_id_length:
  assumes "healthy os"
  shows "unique_id os ''transition'' \<noteq> []" "length (unique_id os ''transition'') \<le> 128"
proof -
  have "os_nanos os < 16 ^ 32" "os_process_id os < 16 ^ 8" "os_sequence os < 16 ^ 16" using assms by (simp_all add: healthy_def)
  then have "length (hexadecimal (os_nanos os)) \<le> 32" "length (hexadecimal (os_process_id os)) \<le> 8"
    "length (hexadecimal (os_sequence os)) \<le> 16" by (simp_all add: hexadecimal_length)
  then show "length (unique_id os ''transition'') \<le> 128" by (simp add: unique_id_def)
  show "unique_id os ''transition'' \<noteq> []" by (simp add: unique_id_def)
qed

text \<open>The record that \<open>prepare_set\<close> writes.\<close>

definition set_record :: "os \<Rightarrow> int \<Rightarrow> string \<Rightarrow> string option \<Rightarrow> string \<Rightarrow> pending_transition" where
  "set_record os clock c previous target =
     \<lparr> pend_schema = 1, pend_transition_id = unique_id os ''transition'', pend_chain_root_id = c,
       pend_operation = OpSet, pend_phase = Prepared, pend_expected_previous_hash = previous,
       pend_target_hash = Some target, pend_prepared_at = iso8601_now clock \<rparr>"

lemma validate_journal_hash: "Recovery_Journal.validate_hash l h = Inr () \<longleftrightarrow> canonical_cas_hash h"
  by (auto simp: Recovery_Journal.validate_hash_def canonical_cas_hash_def)

lemma set_record_valid:
  assumes "healthy os" and "validate_chain_root_id c = Inr ()" and "canonical_ts E (iso8601_now clock)"
    and "canonical_cas_hash target" and "\<And>h. previous = Some h \<Longrightarrow> canonical_cas_hash h"
  shows "validate_pending E (set_record os clock c previous target) = Inr ()"
    "validate_pending E ((set_record os clock c previous target)\<lparr> pend_phase := phase \<rparr>) = Inr ()"
  using assms unique_id_length [OF assms(1)]
  by (auto simp: set_record_def validate_pending_def validate_optional_hash_def validate_journal_hash if_some_eq_Inr ebind_eq_Inr
      require_eq_Inr simp del: One_nat_def)

lemma write_pending_healthy:
  assumes "healthy os" and "validate_pending E p = Inr ()"
    and "(map_of (st_pending s) (pend_chain_root_id p) \<noteq> None) = replaces"
  shows "write_pending E os i p replaces s =
    (Inr (), s\<lparr> st_pending := bt_insert (pend_chain_root_id p) (canonical_json E (pending_to_value p)) (st_pending s) \<rparr>)"
  using assms by (simp add: write_pending_def op_bind_run)

lemma prepare_set_healthy:
  assumes os: "healthy os" and root: "validate_chain_root_id c = Inr ()" and clock: "canonical_ts E (iso8601_now clock)"
    and target: "canonical_cas_hash target" and prev: "\<And>h. previous = Some h \<Longrightarrow> canonical_cas_hash h"
    and none: "map_of (st_pending s) c = None"
  shows "prepare_set E os clock c c previous target s = (Inr (set_record os clock c previous target),
    s\<lparr> st_pending := bt_insert c (canonical_json E (pending_to_value (set_record os clock c previous target))) (st_pending s) \<rparr>)"
proof -
  let ?p = "set_record os clock c previous target"
  have c: "pend_chain_root_id ?p = c" by (simp add: set_record_def)
  have v: "validate_pending E ?p = Inr ()" by (rule set_record_valid(1) [OF os root clock target prev])
  note w = write_pending_healthy [OF os v, of s False 0]
  have "validate_optional_hash l previous = Inr ()" for l
    using prev by (auto simp: validate_optional_hash_def if_some_eq_Inr validate_journal_hash)
  then show ?thesis
    using os root target none w
    unfolding prepare_set_def Let_def set_record_def [symmetric]
    by (simp add: op_bind_run ensure_protects_def ensure_lock_protects_def validate_journal_hash read_pending_def c)
qed

lemma advance_phase_healthy:
  assumes "healthy os" and "json_parser E" and "pending_typed p" and "validate_pending E p = Inr ()"
    and "validate_pending E (p\<lparr> pend_phase := new \<rparr>) = Inr ()" and "validate_chain_root_id (pend_chain_root_id p) = Inr ()"
    and "map_of (st_pending s) (pend_chain_root_id p) = Some (canonical_json E (pending_to_value p))"
    and "phase_allowed (pend_phase p) new"
  shows "advance_phase E os (pend_chain_root_id p) (pend_chain_root_id p) (pend_transition_id p) (pend_phase p) new s =
    (Inr (p\<lparr> pend_phase := new \<rparr>), s\<lparr> st_pending :=
       bt_insert (pend_chain_root_id p) (canonical_json E (pending_to_value (p\<lparr> pend_phase := new \<rparr>))) (st_pending s) \<rparr>)"
  using assms decode_pending_encode [OF assms(2,4,3)] write_pending_healthy [OF assms(1,5), of s True 1]
  by (simp add: advance_phase_def Let_def op_bind_run ensure_protects_def ensure_lock_protects_def read_pending_def)

section \<open>Publication\<close>

definition signed_head :: "'z lib_env_scheme \<Rightarrow> authority \<Rightarrow> string \<Rightarrow> string \<Rightarrow> signed_ref" where
  "signed_head E au target ts =
     (head_ref au target ts)\<lparr> ref_signature := base64_encode E (signer_sign (au_signer au)
        (canonical_json E (without_signature (head_ref au target ts)))) \<rparr>"

lemma signed_head_simps [simp]:
  "ref_target_hash (signed_head E au target ts) = target"
  "ref_path (signed_head E au target ts) = head_ref_path (au_chain_root_id au)"
  by (simp_all add: signed_head_def head_ref_def signed_ref_new_def)

lemma without_signature_update [simp]: "without_signature (r\<lparr> ref_signature := x \<rparr>) = without_signature r"
  by (simp add: without_signature_def unsigned_fields_def)

lemma encode_head:
  assumes laws: "laws E" and signer: "signer_works E (au_signer au)"
    and trusted: "ensure_signer_trusted E (au_signer au) (au_trust au) = Inr ()"
    and target: "canonical_cas_hash target" and ts: "canonical_ts E ts" and utf8: "valid_utf8 (au_chain_root_id au)"
  obtains bytes where "encode_signed_ref E (au_signer au) (head_ref au target ts) = Inr bytes"
    "read_verified_ref E (au_trust au) (Some bytes) = Inr (Some (signed_head E au target ts))"
proof -
  let ?r = "signed_head E au target ts"
  have fp: "signer_fingerprint (au_signer au) = sha256_hex E (signer_verifying_key (au_signer au))"
    and key: "map_of (au_trust au) (signer_fingerprint (au_signer au)) = Some (signer_verifying_key (au_signer au))"
    using trusted by (auto simp: ensure_signer_trusted_def result_iff key_fingerprint_def)
  have v: "validate_signed_ref E ?r = Inr ()"
    using laws signer target ts
    by (simp add: validate_signed_ref_eq_Inr signed_head_def head_ref_def signed_ref_new_def head_ref_path_def fp sha256_hex_def
        laws_def env_ok_def signer_works_def)
  have enc: "encode_signed_ref E (au_signer au) (head_ref au target ts) = Inr (canonical_json E (signed_ref_to_value ?r))"
    using v by (simp add: encode_signed_ref_def Let_def signed_head_def)
  have "valid_utf8 (''chains/'' @ au_chain_root_id au @ ''/head'')"
    using utf8 by (intro valid_utf8_append) (simp_all add: valid_utf8_ascii byte_def)
  then have "ref_strings_typed ?r"
    using laws canonical_ts_utf8 [OF ts]
    by (simp add: ref_strings_typed_def signed_head_def head_ref_def signed_ref_new_def head_ref_path_def laws_def)
  then have read: "read_signed_ref E (canonical_json E (signed_ref_to_value ?r)) = Inr ?r"
    using read_signed_ref_encode [OF _ v] laws by (simp add: laws_def env_ok_def)
  have "ref_signer ?r = signer_fingerprint (au_signer au)"
    by (simp add: signed_head_def head_ref_def signed_ref_new_def)
  moreover have "ref_signature ?r = base64_encode E (signer_sign (au_signer au) (canonical_json E (without_signature ?r)))"
    by (simp add: signed_head_def)
  ultimately have "verify_signed_ref E ?r (au_trust au) = Inr ()"
    using v key signer by (simp add: verify_signed_ref_def signer_works_def)
  then have "read_verified_ref E (au_trust au) (Some (canonical_json E (signed_ref_to_value ?r))) = Inr (Some ?r)"
    unfolding read_verified_ref_def option.case read by simp
  with enc show ?thesis by (rule that)
qed

text \<open>What a publication needs besides the objects: the caller's authority in good order.\<close>

definition may_publish :: "'z lib_env_scheme \<Rightarrow> os \<Rightarrow> int \<Rightarrow> authority \<Rightarrow> store \<Rightarrow> bool" where
  "may_publish E os clock au s \<longleftrightarrow>
     healthy os \<and> signer_works E (au_signer au) \<and> ensure_signer_trusted E (au_signer au) (au_trust au) = Inr ()
     \<and> au_lock_chain au = au_chain_root_id au \<and> validate_chain_root_id (au_chain_root_id au) = Inr ()
     \<and> valid_utf8 (au_chain_root_id au) \<and> canonical_ts E (iso8601_now clock)
     \<and> map_of (st_pending s) (au_chain_root_id au) = None"

definition published_at :: "'z lib_env_scheme \<Rightarrow> authority \<Rightarrow> string option \<Rightarrow> string \<Rightarrow> store \<Rightarrow> store \<Rightarrow> bool" where
  "published_at E au expected target s s' \<longleftrightarrow>
     head_target E (au_trust au) (au_chain_root_id au) s' = Some target
     \<and> (\<forall>c. c \<noteq> au_chain_root_id au \<longrightarrow> map_of (st_heads s') c = map_of (st_heads s) c)
     \<and> (\<exists>p. journalled E (au_chain_root_id au) p s' \<and> pend_operation p = OpSet \<and> pend_phase p = HeadPublished
          \<and> pend_expected_previous_hash p = expected \<and> pend_target_hash p = Some target)"

lemma publish_healthy:
  assumes laws: "laws E" and may: "may_publish E os clock au s"
    and current: "verify_expected_current_head E os 1 au expected s = Inr ()"
    and prev: "\<And>h. expected = Some h \<Longrightarrow> canonical_cas_hash h" and ts: "canonical_ts E ts"
    and obj: "get_object E (st_cas s) target = Inr (Some v)"
  obtains s' where "publish_chain_head E os clock au expected target ts s = (Inr (), s')"
    "st_cas s' = st_cas s" "published_at E au expected target s s'"
proof -
  let ?c = "au_chain_root_id au"
  have m: "healthy os" "signer_works E (au_signer au)" "ensure_signer_trusted E (au_signer au) (au_trust au) = Inr ()"
    "au_lock_chain au = ?c" "validate_chain_root_id ?c = Inr ()" "valid_utf8 ?c" "canonical_ts E (iso8601_now clock)"
    "map_of (st_pending s) ?c = None"
    using may by (simp_all add: may_publish_def)
  have target: "canonical_cas_hash target" using obj by (simp add: get_object_iff)
  have parser: "json_parser E" using laws by (simp add: laws_def env_ok_def)
  obtain bytes where enc: "encode_signed_ref E (au_signer au) (head_ref au target ts) = Inr bytes"
      "read_verified_ref E (au_trust au) (Some bytes) = Inr (Some (signed_head E au target ts))"
    by (rule encode_head [OF laws m(2,3) target ts m(6)])
  let ?p = "set_record os clock ?c expected target"
  let ?s1 = "s\<lparr> st_pending := bt_insert ?c (canonical_json E (pending_to_value ?p)) (st_pending s) \<rparr>"
  let ?s2 = "?s1\<lparr> st_heads := bt_insert ?c bytes (st_heads s) \<rparr>"
  let ?q = "?p\<lparr> pend_phase := HeadPublished \<rparr>"
  let ?s3 = "?s2\<lparr> st_pending := bt_insert ?c (canonical_json E (pending_to_value ?q)) (st_pending ?s2) \<rparr>"
  have root: "read_cas_object E os TargetRoot Inr (st_cas s) target = Inr v"
    using m(1) obj by (simp add: read_cas_object_def)
  have prep: "prepare_set E os clock ?c ?c expected target s = (Inr ?p, ?s1)"
    by (rule prepare_set_healthy [OF m(1,5,7) target prev m(8)])
  have head: "write_signed_head E os ?c (head_ref au target ts) (au_signer au) ?s1 = (Inr (), ?s2)"
    using m(1) enc(1) by (simp add: write_signed_head_def op_bind_run)
  have p: "pend_chain_root_id ?p = ?c" "pend_phase ?p = Prepared" by (simp_all add: set_record_def)
  have typed: "pending_typed ?p" "pending_typed ?q"
    using m(6) unique_id_utf8 by (simp_all add: pending_typed_def set_record_def)
  have vp: "validate_pending E ?p = Inr ()" by (rule set_record_valid(1) [OF m(1,5,7) target prev])
  have vq: "validate_pending E ?q = Inr ()" by (rule set_record_valid(2) [OF m(1,5,7) target prev])
  have adv: "advance_phase E os ?c ?c (pend_transition_id ?p) Prepared HeadPublished ?s2 = (Inr ?q, ?s3)"
    using advance_phase_healthy [OF m(1) parser typed(1) vp vq, of ?s2] m(5) p by (simp add: phase_allowed_def)
  have "publish_chain_head E os clock au expected target ts s = (Inr (), ?s3)"
    unfolding publish_chain_head_def head_ref_def [symmetric]
    using m current root prep head p adv
    by (simp add: op_bind_run ensure_protects_def ensure_lock_protects_def)
  moreover have "read_verified_head E (au_trust au) ?c ?s3 = Inr (Some (signed_head E au target ts))"
    using enc(2) by (simp add: read_verified_head_def)
  then have "head_target E (au_trust au) ?c ?s3 = Some target" by (simp add: head_target_def)
  moreover have "journalled E ?c ?q ?s3"
    using decode_pending_encode [OF parser vq typed(2)] p(1) by (simp add: journalled_def)
  then have "published_at E au expected target s ?s3"
    using \<open>head_target E (au_trust au) ?c ?s3 = Some target\<close>
    unfolding published_at_def by (auto intro!: exI [of _ ?q] simp: set_record_def)
  ultimately show ?thesis by (intro that) simp_all
qed

section \<open>Commits\<close>

definition committed_at :: "'z lib_env_scheme \<Rightarrow> authority \<Rightarrow> (string \<times> string) list \<Rightarrow> string option \<Rightarrow> string
    \<Rightarrow> store \<Rightarrow> store \<Rightarrow> bool" where
  "committed_at E au writes expected target s s' \<longleftrightarrow>
     published_at E au expected target s s' \<and> map_of (st_cas s) \<subseteq>\<^sub>m map_of (st_cas s') \<and> stored_in writes (st_cas s')"

lemma current_head_cas:
  "verify_expected_current_head E os i au expected (s\<lparr> st_cas := c \<rparr>) = verify_expected_current_head E os i au expected s"
  "may_publish E os clock au (s\<lparr> st_cas := c \<rparr>) = may_publish E os clock au s"
  "published_at E au expected target (s\<lparr> st_cas := c \<rparr>) s' = published_at E au expected target s s'"
  by (simp_all add: verify_expected_current_head_def read_verified_head_def may_publish_def published_at_def)

lemma published_at_cache: "published_at E au expected target s (s'\<lparr> st_cache := x \<rparr>) = published_at E au expected target s s'"
  by (simp add: published_at_def head_target_def read_verified_head_def journalled_def)

lemma commit_healthy:
  assumes laws: "laws E" and may: "may_publish E os clock au s" and cons: "consistent (st_cas s) writes"
    and current: "verify_expected_current_head E os 1 au expected s = Inr ()"
    and prev: "\<And>h. expected = Some h \<Longrightarrow> canonical_cas_hash h"
    and state: "storable_state E state" "validate_state E state = Inr ()" "state_write E state \<in> set writes"
  obtains s' where "commit_closure E os clock au writes expected state s = (Inr (), s')"
    "committed_at E au writes expected (hash_chain_state E state) s s'"
proof -
  have os: "healthy os" using may by (simp add: may_publish_def)
  obtain cas where batch: "write_cas_batch os writes s = (Inr (), s\<lparr> st_cas := cas \<rparr>)"
      "map_of (st_cas s) \<subseteq>\<^sub>m map_of cas" "stored_in writes cas"
    by (rule write_cas_batch_healthy [OF os cons])
  let ?s1 = "s\<lparr> st_cas := cas \<rparr>"
  have "stored_in [state_write E state] cas" using batch(3) state(3) by (auto simp: stored_in_def)
  then have "map_of cas (hash_chain_state E state) = Some (canonical_json E (state_to_value state))"
    by (simp only: stored_state_write)
  then have load: "load_hashed_chain_state E cas (hash_chain_state E state) = Inr state"
    using load_state_stored [OF _ state(1)] laws by (simp add: laws_def)
  obtain v where v: "get_object E (st_cas ?s1) (hash_chain_state E state) = Inr (Some v)"
    using load unfolding load_hashed_chain_state_def state_codec.load_iff by auto
  obtain s2 where pub: "publish_chain_head E os clock au expected (hash_chain_state E state) (cs_updated_at state) ?s1 = (Inr (), s2)"
      "st_cas s2 = st_cas ?s1" "published_at E au expected (hash_chain_state E state) ?s1 s2"
    by (rule publish_healthy [OF laws _ _ prev validate_state_ts [OF state(2)] v]) (use may current in \<open>simp_all add: current_head_cas\<close>)
  show ?thesis
  proof (rule that)
    show "commit_closure E os clock au writes expected state s = (Inr (), s2\<lparr> st_cache :=
        bt_insert (au_chain_root_id au) \<lparr> cached_hash = hash_chain_state E state, cached_state = state \<rparr> (st_cache s2) \<rparr>)"
      using batch(1) pub(1) by (simp add: commit_closure_def op_bind_run cache_insert_def)
    show "committed_at E au writes expected (hash_chain_state E state) s (s2\<lparr> st_cache :=
        bt_insert (au_chain_root_id au) \<lparr> cached_hash = hash_chain_state E state, cached_state = state \<rparr> (st_cache s2) \<rparr>)"
      using batch(2,3) pub(2,3) by (simp add: committed_at_def current_head_cas published_at_cache)
  qed
qed

section \<open>Creating a chain\<close>

lemma monotonic_loop_total:
  assumes "canonical_ts E r" and "\<forall>f \<in> set floors. canonical_ts E f"
  shows "\<exists>x. monotonic_loop E r t floors = Inr x \<and> canonical_ts E x"
  using assms by (induction floors arbitrary: r t) auto

lemma monotonic_now_total:
  assumes "canonical_ts E (iso8601_now clock)" and "\<forall>f \<in> set floors. canonical_ts E f"
  obtains x where "monotonic_now E clock floors = Inr x" "canonical_ts E x"
  using monotonic_loop_total [OF assms] assms(1) by (auto simp: monotonic_now_def Let_def)

lemma genesis_state_total:
  assumes "\<And>b. canonical_cas_hash (sha256 E b)" and "canonical_ts E (iso8601_now clock)" and "canonical_ts E (snap_updated_at sn)"
    and "au_chain_root_id au \<noteq> []"
  obtains state where "genesis_state E clock au sn = Inr state"
proof -
  obtain x where x: "monotonic_now E clock [snap_updated_at sn] = Inr x" "canonical_ts E x"
    using monotonic_now_total [OF assms(2), of "[snap_updated_at sn]"] assms(3) by auto
  have "canonical_cas_hash (hash_snapshot E sn)" using assms(1) by (simp add: hash_snapshot_def sha256_hex_def)
  then have "validate_canonical_hash l (hash_snapshot E sn) = Inr ()" "hash_snapshot E sn \<noteq> []" for l
    by (auto simp: result_iff, auto simp: canonical_cas_hash_def valid_hash_def)
  then show ?thesis
    using x assms(4)
    by (intro that [of "\<lparr> cs_schema = 1, cs_kind = ''chain_state'', cs_chain_root_id = au_chain_root_id au,
          cs_prev_chain_state_hash = None, cs_last_event_hash = None, cs_last_chain_seq = 0, cs_updated_at = x,
          cs_threads = [(au_chain_root_id au, genesis_entry (hash_snapshot E sn) (snap_status sn))] \<rparr>"])
      (simp add: genesis_state_def prospective_state_def Let_def validate_state_def validate_chain_positions_def
        validate_object_kind_def validate_entry_def genesis_entry_def validate_hash_sequence_pair_def)
qed

lemma create_chain_healthy:
  assumes laws: "laws E" and may: "may_publish E os (os_clock os 1) au s" and clock: "canonical_ts E (iso8601_now (os_clock os 0))"
    and absent: "map_of (st_heads s) (au_chain_root_id au) = None"
    and x: "encodable_snapshot E x" "check_root_identity au x = Inr ()" and sn: "normalize_root_snapshot E au x = Inr sn"
    and cons: "\<And>state. genesis_state E (os_clock os 0) au sn = Inr state \<Longrightarrow>
      consistent (st_cas s) [snapshot_write E sn, state_write E state]"
  obtains r s' where "create_chain E os au x s = (Inr r, s')" "cr_snapshot r = sn"
    "head_target E (au_trust au) (au_chain_root_id au) s' = Some (cr_chain_state_hash r)"
    "validate_authoritative_history E (st_cas s') (au_chain_root_id au) (cr_chain_state_hash r) None = Inr ()"
proof -
  let ?c = "au_chain_root_id au"
  have m: "healthy os" "ensure_signer_trusted E (au_signer au) (au_trust au) = Inr ()" "au_lock_chain au = ?c"
    "validate_chain_root_id ?c = Inr ()"
    using may by (simp_all add: may_publish_def)
  have env: "env_ok E" using laws by (simp add: laws_def)
  have sn0: "normalize_and_validate_new_thread E (stamp_snapshot_position x (genesis_entry [] (snap_status x)) 0) ?c
      (snap_created_at (stamp_snapshot_position x (genesis_entry [] (snap_status x)) 0)) None = Inr sn"
    using sn by (simp add: normalize_root_snapshot_def Let_def)
  have "canonical_ts E (snap_updated_at sn)" using normalize_new_thread_ok(1) [OF sn0] by auto
  moreover have "?c \<noteq> []" using m(4) by (auto simp: validate_chain_root_id_def)
  ultimately obtain state where g: "genesis_state E (os_clock os 0) au sn = Inr state"
    using genesis_state_total [OF _ clock] env unfolding env_ok_def by metis
  let ?ws = "[snapshot_write E sn, state_write E state]"
  have t: "snap_thread_id x = ?c" using x(2) by (simp add: check_root_identity_def require_eq_Inr)
  note n = prospective_state_ok [OF g [unfolded genesis_state_def]]
  have current: "verify_expected_current_head E os i au None s = Inr ()" for i
    using m absent by (simp add: verify_expected_current_head_def ensure_lock_protects_def read_verified_head_def read_verified_ref_def)
  have "valid_utf8 ?c" using may by (simp add: may_publish_def)
  then have wf: "state_wf state" using n(1,4,5) by (simp add: state_wf_def genesis_entry_def bt_sorted_def)
  obtain s' where com: "commit_closure E os (os_clock os 1) au ?ws None state s = (Inr (), s')"
      "committed_at E au ?ws None (hash_chain_state E state) s s'"
    by (rule commit_healthy [OF laws may cons [OF g] current _ state_storable [OF wf n(6)] n(6)]) simp_all
  show ?thesis
  proof (rule that)
    show "create_chain E os au x s = (Inr \<lparr> cr_chain_state_hash = hash_chain_state E state, cr_snapshot_hash = hash_snapshot E sn,
        cr_snapshot = sn, cr_events = [] \<rparr>, s')"
      unfolding create_chain_def using m x sn current g com(1)
      by (simp add: op_bind_run ensure_lock_protects_def ensure_protects_def)
    have "stored_in ?ws (st_cas s')" using com(2) by (simp add: committed_at_def)
    from genesis_accepted(3) [OF env x(1) t sn g this]
    obtain events where "accepted_history E (st_cas s') ?c [(hash_chain_state E state, state)] events" by blast
    then show "validate_authoritative_history E (st_cas s') ?c (cr_chain_state_hash \<lparr> cr_chain_state_hash = hash_chain_state E state,
        cr_snapshot_hash = hash_snapshot E sn, cr_snapshot = sn, cr_events = [] \<rparr>) None = Inr ()"
      unfolding history_iff by (auto simp: last_hash_def intro!: exI [of _ "[(hash_chain_state E state, state)]"])
  qed (use com(2) in \<open>simp_all add: committed_at_def published_at_def\<close>)
qed

section \<open>Extending a chain\<close>

lemma read_head_verified:
  assumes "read_head_state E os i au s = Inr (h, old)" and "healthy os"
  shows "verify_expected_current_head E os j au (Some h) s = Inr ()"
  using assms
  by (auto simp: read_head_state_def verify_expected_current_head_def ebind_eq_Inr require_eq_Inr ok_or_eq_Inr ensure_lock_protects_def)

lemma mutation_healthy:
  assumes laws: "laws E" and may: "may_publish E os clock au s" and head: "read_head_state E os i au s = Inr (h, old)"
    and prep: "prep old (st_cas s) = Inr (writes, new, res)" and cons: "consistent (st_cas s) writes"
    and legal: "\<And>cas. \<lbrakk> cs_chain_root_id old = au_chain_root_id au; state_wf old; map_of (st_cas s) \<subseteq>\<^sub>m map_of cas; stored_in writes cas \<rbrakk>
      \<Longrightarrow> state_wf new \<and> (\<exists>staged. legal_successor E cas (hash_chain_state E old) old new staged)"
    and last: "state_write E new \<in> set writes"
  obtains s' where "op_bind (read_chain_head_for_mutation E os i au) (\<lambda>current.
      op_bind (op_read (\<lambda>s. prep current (st_cas s))) (\<lambda>(writes, state, result).
      op_bind (commit_closure E os clock au writes (cs_prev_chain_state_hash state) state) (\<lambda>_. op_lift (Inr result)))) s = (Inr res, s')"
    "committed_at E au writes (Some h) (hash_chain_state E new) s s'"
proof -
  let ?c = "au_chain_root_id au"
  let ?s1 = "s\<lparr> st_cache := bt_insert ?c \<lparr> cached_hash = h, cached_state = old \<rparr> (st_cache s) \<rparr>"
  have os: "healthy os" using may by (simp add: may_publish_def)
  note hd = read_head_state_ok [OF head]
  have parser: "json_parser E" using laws by (simp add: laws_def env_ok_def)
  have wf: "state_wf old" by (rule loaded_state_wf [OF parser hd(2)])
  obtain cas where cas: "map_of (st_cas s) \<subseteq>\<^sub>m map_of cas" "stored_in writes cas"
    using write_cas_batch_healthy [OF os cons] by blast
  obtain staged where suc: "state_wf new" "legal_successor E cas (hash_chain_state E old) old new staged"
    using legal [OF hd(4) wf cas] by blast
  have v: "validate_state E new = Inr ()" and prev: "cs_prev_chain_state_hash new = Some h"
    using suc(2) hd(3) by (simp_all add: legal_successor_def)
  have h: "canonical_cas_hash h" using laws hd(3) by (auto simp: laws_def env_ok_def hash_chain_state_def sha256_hex_def)
  have s1: "may_publish E os clock au ?s1" "verify_expected_current_head E os 1 au (Some h) ?s1 = Inr ()"
    using may read_head_verified [OF head os, of 1]
    by (simp_all add: may_publish_def verify_expected_current_head_def read_verified_head_def)
  obtain s' where com: "commit_closure E os clock au writes (Some h) new ?s1 = (Inr (), s')"
      "committed_at E au writes (Some h) (hash_chain_state E new) ?s1 s'"
    by (rule commit_healthy [OF laws s1(1) _ s1(2) _ state_storable [OF suc(1) v] v last]) (use cons h in simp_all)
  show ?thesis
  proof (rule that)
    have "op_bind (read_chain_head_for_mutation E os i au) f s = f old ?s1" for f :: "chain_state \<Rightarrow> 'b op"
      using head by (simp add: read_chain_head_for_mutation_def op_bind_def cache_insert_def)
    then show "op_bind (read_chain_head_for_mutation E os i au) (\<lambda>current.
      op_bind (op_read (\<lambda>s. prep current (st_cas s))) (\<lambda>(writes, state, result).
      op_bind (commit_closure E os clock au writes (cs_prev_chain_state_hash state) state) (\<lambda>_. op_lift (Inr result)))) s = (Inr res, s')"
      using prep prev com(1) by (simp add: op_bind_run)
    show "committed_at E au writes (Some h) (hash_chain_state E new) s s'"
      using com(2) by (simp add: committed_at_def published_at_def)
  qed
qed

lemma append_events_healthy:
  assumes laws: "laws E" and may: "may_publish E os (os_clock os 1) au s" and head: "read_head_state E os 0 au s = Inr (h, old)"
    and events: "events \<noteq> []" "\<forall>e \<in> set events. encodable_event E e"
    and us: "\<forall>u \<in> set us. encodable_snapshot E (upd_new_snapshot u)"
    and prep: "prepare_append E os au tid events us old (st_cas s) = Inr (writes, new, res)"
    and cons: "consistent (st_cas s) writes"
  obtains s' where "append_events E os au tid events us s = (Inr res, s')"
    "committed_at E au writes (Some h) (ar_chain_state_hash res) s s'"
proof -
  have legal: "state_wf new \<and> (\<exists>staged. legal_successor E cas (hash_chain_state E old) old new staged)"
    if "cs_chain_root_id old = au_chain_root_id au" "state_wf old" "map_of (st_cas s) \<subseteq>\<^sub>m map_of cas" "stored_in writes cas" for cas
    by (rule prepare_append_legal [OF _ that(2,1) prep events(2,1) us that(4,3)]) (use laws in \<open>simp add: laws_def\<close>)
  have w: "state_write E new \<in> set writes" by (rule prepare_appendD [OF prep]) simp
  have res: "ar_chain_state_hash res = hash_chain_state E new"
    using prep by (auto simp: prepare_append_def ebind_eq_Inr case_prod_unfold)
  obtain s' where s': "op_bind (read_chain_head_for_mutation E os 0 au) (\<lambda>current.
      op_bind (op_read (\<lambda>s. prepare_append E os au tid events us current (st_cas s))) (\<lambda>(writes, state, result).
      op_bind (commit_closure E os (os_clock os 1) au writes (cs_prev_chain_state_hash state) state) (\<lambda>_. op_lift (Inr result)))) s = (Inr res, s')"
      "committed_at E au writes (Some h) (hash_chain_state E new) s s'"
    by (rule mutation_healthy [where prep = "prepare_append E os au tid events us", OF laws may head prep cons legal w])
  have "append_events E os au tid events us s = (Inr res, s')"
    using s'(1) events(1) may
    by (simp add: append_events_def op_bind_run may_publish_def ensure_lock_protects_def)
  with s'(2) res show ?thesis by (intro that) simp_all
qed

end
