(* ===== verification/Sample_Env.thy ===== *)
theory Sample_Env
  imports Json_Codec Calendar
begin

text \<open>
  An environment whose functions run: a reader of JSON text, a reader of timestamps, a checksum
  for the digest and a keyed checksum for the signature. It satisfies the laws that the theorems
  take of the libraries, so these can hold together; the witnesses are stated in it.
\<close>

section \<open>Reading strings\<close>

definition hex_value :: "char \<Rightarrow> nat" where
  "hex_value c = (if is_ascii_digit c then byte c - 48 else byte c - 87)"

fun read_hex4 :: "string \<Rightarrow> (nat \<times> string) option" where
  "read_hex4 (a # b # c # d # r) =
     Some (hex_value a * 4096 + hex_value b * 256 + hex_value c * 16 + hex_value d, r)"
| "read_hex4 _ = None"

definition short_unescape :: "char \<Rightarrow> nat option" where
  "short_unescape c =
     map_of [(quote, 34), (backslash, 92), (CHR ''b'', 8), (CHR ''f'', 12), (CHR ''n'', 10),
             (CHR ''r'', 13), (CHR ''t'', 9)] c"

definition cons_result :: "'a \<Rightarrow> ('a list \<times> string) option \<Rightarrow> ('a list \<times> string) option" where
  "cons_result x res = map_option (\<lambda>(xs, r). (x # xs, r)) res"

fun read_chars :: "nat \<Rightarrow> string \<Rightarrow> (nat list \<times> string) option" where
  "read_chars 0 s = None"
| "read_chars (Suc n) s =
     (case s of
        [] \<Rightarrow> None
      | c # s1 \<Rightarrow>
          if c = quote then Some ([], s1)
          else if c \<noteq> backslash then cons_result (byte c) (read_chars n s1)
          else (case s1 of
              [] \<Rightarrow> None
            | t # s2 \<Rightarrow>
                if t \<noteq> CHR ''u'' then
                  (case short_unescape t of None \<Rightarrow> None | Some x \<Rightarrow> cons_result x (read_chars n s2))
                else (case read_hex4 s2 of
                    None \<Rightarrow> None
                  | Some (u, s3) \<Rightarrow>
                      if u < 55296 \<or> 57344 \<le> u then cons_result u (read_chars n s3)
                      else (case read_hex4 (drop 2 s3) of
                          None \<Rightarrow> None
                        | Some (v, s4) \<Rightarrow>
                            cons_result (65536 + (u - 55296) * 1024 + (v - 56320)) (read_chars n s4)))))"

lemma hex_value_digit: "n < 16 \<Longrightarrow> hex_value (hex_digit n) = n"
  by (simp add: hex_value_def hex_digit_def is_ascii_digit_def)

lemma read_hex4_hex4: "n < 65536 \<Longrightarrow> read_hex4 (hex4 n @ r) = Some (n, r)"
proof -
  assume n: "n < 65536"
  have "n div 16 div 16 = n div 256" "n div 256 div 16 = n div 4096" by (simp_all flip: div_mult2_eq)
  then have "n div 4096 * 16 + n div 256 mod 16 = n div 256" "n div 256 * 16 + n div 16 mod 16 = n div 16"
    "n div 16 * 16 + n mod 16 = n"
    using div_mult_mod_eq [of "n div 16" 16] div_mult_mod_eq [of "n div 256" 16] by simp_all
  then have "n div 4096 * 4096 + n div 256 mod 16 * 256 + n div 16 mod 16 * 16 + n mod 16 = n" by linarith
  moreover have "n div 4096 < 16" using n by (simp add: less_mult_imp_div_less)
  ultimately show ?thesis by (simp add: hex4_def hex_value_digit)
qed

lemma short_unescape_escape: "short_escape c = Some e \<Longrightarrow> short_unescape e = Some c"
  by (auto simp: short_escape_def short_unescape_def quote_def backslash_def split: if_splits)

lemma read_chars_escaped:
  assumes "list_all is_scalar cs" and "length cs < n"
  shows "read_chars n (concat (map escape_char cs) @ quote # r) = Some (cs, r)"
  using assms
proof (induction cs arbitrary: n)
  case Nil
  then show ?case by (cases n) simp_all
next
  case (Cons c cs)
  then obtain m where n: "n = Suc m" "length cs < m" by (cases n) simp_all
  note IH = Cons.IH [OF _ n(2)]
  have c: "is_scalar c" and cs: "list_all is_scalar cs" using Cons.prems by simp_all
  show ?case
  proof (cases c rule: escape_char_cases)
    case (short e)
    then show ?thesis
      using IH [OF cs] n short_escape_not_u [OF short(1)] short_unescape_escape [OF short(1)]
      by (simp add: quote_def backslash_def cons_result_def)
  next
    case literal
    then have "char_of c \<noteq> quote" "char_of c \<noteq> backslash"
      using char_of_not_backslash [of c] by (auto simp: quote_def byte_def dest!: char_of_eqD)
    then show ?thesis using literal IH [OF cs] n by (simp add: cons_result_def)
  next
    case unit1
    then have "c < 55296 \<or> 57344 \<le> c" using c by (auto simp: is_scalar_def)
    then show ?thesis
      using unit1 IH [OF cs] n by (simp add: quote_def backslash_def read_hex4_hex4 cons_result_def)
  next
    case units2
    let ?h = "55296 + (c - 65536) div 1024" and ?l = "56320 + (c - 65536) mod 1024"
    have b: "c < 1114112" using c by (auto simp: is_scalar_def)
    then have "(c - 65536) div 1024 < 1024" by (simp add: less_mult_imp_div_less)
    then have u: "?h < 65536" "?l < 65536" "\<not> (?h < 55296 \<or> 57344 \<le> ?h)"
      by (simp_all add: less_trans [of _ 1024])
    have "65536 + (?h - 55296) * 1024 + (?l - 56320) = c"
      using units2(2) div_mult_mod_eq [of "c - 65536" 1024] by simp
    then show ?thesis
      using units2 u IH [OF cs] n by (simp add: quote_def backslash_def read_hex4_hex4 cons_result_def)
  qed
qed

definition read_string :: "string \<Rightarrow> (string \<times> string) option" where
  "read_string s = map_option (\<lambda>(cs, r). (concat (map utf8_encode cs), r)) (read_chars (Suc (length s)) s)"

lemma escape_char_nonempty: "1 \<le> length (escape_char c)"
  by (cases c rule: escape_char_cases) simp_all

lemma length_escaped: "length cs \<le> length (concat (map escape_char cs))"
  by (induction cs) (use escape_char_nonempty in \<open>auto simp: le_Suc_eq intro: order_trans\<close>)

lemma read_string_written:
  assumes "valid_utf8 s"
  shows "read_string (concat (map escape_char (utf8_chars s)) @ quote # r) = Some (s, r)"
proof -
  let ?t = "concat (map escape_char (utf8_chars s)) @ quote # r"
  have "length (utf8_chars s) < Suc (length ?t)" using length_escaped [of "utf8_chars s"] by simp
  then have "read_chars (Suc (length ?t)) ?t = Some (utf8_chars s, r)"
    using assms by (intro read_chars_escaped) (simp_all add: valid_utf8_def)
  then show ?thesis using assms by (simp add: read_string_def valid_utf8_def)
qed

section \<open>Reading values\<close>

definition read_number :: "string \<Rightarrow> json_number" where
  "read_number w =
     (case w of
        [] \<Rightarrow> PosInt 0
      | c # ds \<Rightarrow>
          if c = CHR ''-'' then NegInt (- int (decimal_reading ds))
          else if CHR ''e'' \<in> set w then Float64 (word_of_nat (decimal_reading (takeWhile is_ascii_digit w)))
          else PosInt (decimal_reading w))"

fun read_value :: "nat \<Rightarrow> string \<Rightarrow> (json \<times> string) option"
  and read_elements :: "nat \<Rightarrow> string \<Rightarrow> (json list \<times> string) option"
  and read_members :: "nat \<Rightarrow> string \<Rightarrow> ((string \<times> json) list \<times> string) option" where
  "read_value 0 s = None"
| "read_value (Suc n) s =
     (case s of
        [] \<Rightarrow> None
      | c # s1 \<Rightarrow>
          if c = CHR ''n'' then map_option (Pair JNull) (strip_prefix ''ull'' s1)
          else if c = CHR ''t'' then map_option (Pair (JBool True)) (strip_prefix ''rue'' s1)
          else if c = CHR ''f'' then map_option (Pair (JBool False)) (strip_prefix ''alse'' s1)
          else if c = quote then map_option (\<lambda>(k, r). (JString k, r)) (read_string s1)
          else if c = CHR ''['' then
            (if take 1 s1 = '']'' then Some (JArray [], tl s1)
             else map_option (\<lambda>(vs, r). (JArray vs, r)) (read_elements n s1))
          else if c = CHR ''{'' then
            (if take 1 s1 = ''}'' then Some (JObject [], tl s1)
             else map_option (\<lambda>(m, r). (JObject m, r)) (read_members n s1))
          else Some (JNumber (read_number (takeWhile number_char s)), dropWhile number_char s))"
| "read_elements 0 s = None"
| "read_elements (Suc n) s =
     (case read_value n s of
        None \<Rightarrow> None
      | Some (v, r) \<Rightarrow>
          if take 1 r = '','' then cons_result v (read_elements n (tl r))
          else if take 1 r = '']'' then Some ([v], tl r) else None)"
| "read_members 0 s = None"
| "read_members (Suc n) s =
     (if take 1 s \<noteq> [quote] then None
      else (case read_string (tl s) of
          None \<Rightarrow> None
        | Some (k, r) \<Rightarrow>
            if take 1 r \<noteq> '':'' then None
            else (case read_value n (tl r) of
                None \<Rightarrow> None
              | Some (v, r1) \<Rightarrow>
                  if take 1 r1 = '','' then cons_result (k, v) (read_members n (tl r1))
                  else if take 1 r1 = ''}'' then Some ([(k, v)], tl r1) else None)))"

text \<open>The text of a value has at least one byte, so its length is fuel enough.\<close>

lemma split_number_delimited:
  assumes "list_all number_char w" and "delimited r"
  shows "takeWhile number_char (w @ r) = w" "dropWhile number_char (w @ r) = r"
proof -
  have "r = [] \<or> \<not> number_char (hd r)"
    using assms(2) by (auto simp: delimited_def number_char_def is_ascii_digit_def byte_def)
  then show "takeWhile number_char (w @ r) = w" "dropWhile number_char (w @ r) = r"
    using assms(1) by (cases r; auto simp: list_all_iff takeWhile_append2 dropWhile_append2)+
qed

lemma takeWhile_decimal: "takeWhile is_ascii_digit (decimal n @ ''e0'') = decimal n"
  using decimal_digits [of n] by (auto simp: list_all_iff takeWhile_append2 is_ascii_digit_def byte_def)

lemma decimal_no_minus: "decimal n = c # cs \<Longrightarrow> c \<noteq> CHR ''-''"
  using decimal_minus [of n "[]"] by auto

lemma decimal_no_e: "CHR ''e'' \<notin> set (decimal n)"
  using decimal_digits [of n] by (auto simp: list_all_iff is_ascii_digit_def byte_def)

lemma read_number_unsigned:
  assumes "hd w \<noteq> CHR ''-''" and "w \<noteq> []"
  shows "read_number w = (if CHR ''e'' \<in> set w
    then Float64 (word_of_nat (decimal_reading (takeWhile is_ascii_digit w))) else PosInt (decimal_reading w))"
  using assms by (cases w) (simp_all add: read_number_def)

lemma read_number_sample:
  assumes "number_wf n"
  shows "read_number (sample_number n) = n"
proof (cases n)
  case (PosInt k)
  have "hd (decimal k) \<noteq> CHR ''-''" using decimal_nonempty [of k] decimal_no_minus [of k] by (cases "decimal k") auto
  then show ?thesis using PosInt decimal_no_e [of k] decimal_nonempty [of k] by (simp add: read_number_unsigned)
next
  case (NegInt i)
  then show ?thesis using assms by (simp add: read_number_def)
next
  case (Float64 x)
  have "hd (decimal (unat x) @ ''e0'') \<noteq> CHR ''-''"
    using decimal_nonempty [of "unat x"] decimal_no_minus [of "unat x"] by (cases "decimal (unat x)") auto
  then show ?thesis using Float64 by (simp add: read_number_unsigned takeWhile_decimal)
qed

lemma read_elements_written:
  assumes "\<And>v n r. v \<in> set vs \<Longrightarrow> length (w v) \<le> n \<Longrightarrow> delimited r \<Longrightarrow> read_value n (w v @ r) = Some (v, r)"
    and "vs \<noteq> []" and "length (comma_separated (map w vs)) < n"
  shows "read_elements n (comma_separated (map w vs) @ '']'' @ r) = Some (vs, r)"
  using assms
proof (induction vs arbitrary: n)
  case (Cons v vs)
  then obtain m where n: "n = Suc m" by (cases n) simp_all
  show ?case
  proof (cases vs)
    case Nil
    then have "read_value m (w v @ '']'' @ r) = Some (v, '']'' @ r)"
      using Cons.prems n by (intro Cons.prems(1)) (simp_all add: delimited_def)
    with Nil n show ?thesis by simp
  next
    case (Cons u us)
    let ?rest = "comma_separated (map w vs) @ '']'' @ r"
    have len: "length (w v) \<le> m" "length (comma_separated (map w vs)) < m"
      using Cons.prems(3) n Cons by simp_all
    have v: "read_value m (w v @ '','' @ ?rest) = Some (v, '','' @ ?rest)"
      using len by (intro Cons.prems(1)) (simp_all add: delimited_def)
    have "read_elements m ?rest = Some (vs, r)"
      by (rule Cons.IH) (use Cons.prems(1) Cons len in auto)
    with v Cons n show ?thesis by (simp add: cons_result_def)
  qed
qed simp

lemma read_members_written:
  assumes "\<And>k v n r. (k, v) \<in> set m \<Longrightarrow> valid_utf8 k
      \<and> (length (w v) \<le> n \<longrightarrow> delimited r \<longrightarrow> read_value n (w v @ r) = Some (v, r))"
    and "m \<noteq> []" and "length (comma_separated (map (\<lambda>(k, v). write_string k @ '':'' @ w v) m)) < n"
  shows "read_members n (comma_separated (map (\<lambda>(k, v). write_string k @ '':'' @ w v) m) @ ''}'' @ r) = Some (m, r)"
  using assms
proof (induction m arbitrary: n)
  case (Cons x m)
  then obtain j where n: "n = Suc j" by (cases n) simp_all
  obtain k v where x: "x = (k, v)" by fastforce
  let ?f = "\<lambda>(k, v). write_string k @ '':'' @ w v"
  have utf8: "valid_utf8 k" and val: "\<And>n r. length (w v) \<le> n \<Longrightarrow> delimited r \<Longrightarrow> read_value n (w v @ r) = Some (v, r)"
    using Cons.prems(1) [of k v] x by auto
  have key: "read_string (concat (map escape_char (utf8_chars k)) @ quote # t) = Some (k, t)" for t
    by (rule read_string_written [OF utf8])
  show ?case
  proof (cases m)
    case Nil
    have "read_value j (w v @ ''}'' @ r) = Some (v, ''}'' @ r)"
      using Cons.prems(3) n x Nil by (intro val) (simp_all add: delimited_def)
    with Nil n x key show ?thesis by (simp add: write_string_def)
  next
    case (Cons y ys)
    let ?rest = "comma_separated (map ?f m) @ ''}'' @ r"
    have len: "length (w v) \<le> j" "length (comma_separated (map ?f m)) < j"
      using Cons.prems(3) n Cons x by (simp_all add: write_string_def)
    have v: "read_value j (w v @ '','' @ ?rest) = Some (v, '','' @ ?rest)"
      using len by (intro val) (simp_all add: delimited_def)
    have "read_members j ?rest = Some (m, r)"
      by (rule Cons.IH) (use Cons.prems(1) Cons len in auto)
    with v Cons n x key show ?thesis by (simp add: write_string_def cons_result_def)
  qed
qed simp

lemma number_head:
  assumes "number_wf n"
  obtains c cs where "sample_number n = c # cs" "c \<notin> set ''ntf[{''" "c \<noteq> quote" "list_all number_char (c # cs)"
proof -
  obtain c cs where c: "sample_number n = c # cs" "is_ascii_digit c \<or> c = CHR ''-''" "list_all number_char (c # cs)"
    using sample_number_chars [OF assms] by blast
  moreover from c(2) have "c \<notin> set ''ntf[{''" "c \<noteq> quote" by (auto simp: is_ascii_digit_def byte_def quote_def)
  ultimately show ?thesis using that by blast
qed

lemma number_rendering_sample: "number_to_string E = sample_number \<Longrightarrow> number_rendering E"
  using sample_number_inj sample_number_chars by (simp add: number_rendering_def)

lemma comma_separated_head: "w \<noteq> [] \<Longrightarrow> take 1 (comma_separated (w # ws) @ t) = take 1 w"
  by (cases ws; cases w) simp_all

lemma read_value_written:
  assumes E: "number_to_string E = sample_number"
  shows "\<lbrakk> json_wf v; length (write_canonical_json E v) \<le> n; delimited r \<rbrakk>
    \<Longrightarrow> read_value n (write_canonical_json E v @ r) = Some (v, r)"
proof (induction v arbitrary: n r)
  case (JNumber x)
  obtain c cs where c: "sample_number x = c # cs" "c \<notin> set ''ntf[{''" "c \<noteq> quote" "list_all number_char (c # cs)"
    using number_head JNumber.prems(1) by auto
  obtain m where n: "n = Suc m" using JNumber.prems(2) E c(1) by (cases n) (auto simp: write_number_def)
  have "takeWhile number_char (c # cs @ r) = c # cs" "dropWhile number_char (c # cs @ r) = r"
    using split_number_delimited [OF c(4) JNumber.prems(3)] by simp_all
  with c n E JNumber.prems(1) read_number_sample [of x] show ?case by (simp add: write_number_def)
next
  case (JString s)
  then obtain m where n: "n = Suc m" by (cases n) (auto simp: write_string_def)
  then show ?case using JString.prems(1) read_string_written [of s r] by (simp add: write_string_def quote_def)
next
  case (JArray vs)
  then obtain m where n: "n = Suc m" by (cases n) auto
  show ?case
  proof (cases "vs = []")
    case False
    have wf: "\<forall>v \<in> set vs. json_wf v" using JArray.prems(1) by (simp add: list_all_iff)
    obtain u us where vs: "vs = u # us" using False by (cases vs) auto
    have "write_canonical_json E u \<noteq> []" "take 1 (write_canonical_json E u) \<noteq> '']''"
      using write_head [OF number_rendering_sample [OF E], of u] wf vs by auto
    then have head: "take 1 (comma_separated (map (write_canonical_json E) vs) @ '']'' @ r) \<noteq> '']''"
      using comma_separated_head [of "write_canonical_json E u" "map (write_canonical_json E) us" "'']'' @ r"] vs by simp
    have "read_elements m (comma_separated (map (write_canonical_json E) vs) @ '']'' @ r) = Some (vs, r)"
      by (rule read_elements_written) (use JArray wf n False in auto)
    with n head show ?thesis by (simp add: quote_def)
  qed (use n in \<open>simp add: quote_def\<close>)
next
  case (JObject m)
  then obtain j where n: "n = Suc j" by (cases n) auto
  have wf: "bt_sorted m" "\<forall>(k, v) \<in> set m. valid_utf8 k \<and> json_wf v" using JObject.prems(1) by (simp_all add: json_wf_JObject)
  let ?f = "\<lambda>(k, v). write_string k @ '':'' @ write_canonical_json E v"
  show ?case
  proof (cases "m = []")
    case False
    obtain x xs where m: "m = x # xs" using False by (cases m) auto
    have f: "take 1 (?f x) = [quote]" "?f x \<noteq> []" by (simp_all add: write_string_def split: prod.split)
    have head: "take 1 (comma_separated (map ?f m) @ ''}'' @ r) = [quote]"
      using comma_separated_head [OF f(2), of "map ?f xs" "''}'' @ r"] f(1) m by simp
    have "read_members j (comma_separated (map ?f m) @ ''}'' @ r) = Some (m, r)"
    proof (rule read_members_written)
      show "valid_utf8 k \<and> (length (write_canonical_json E v) \<le> n \<longrightarrow> delimited r \<longrightarrow>
          read_value n (write_canonical_json E v @ r) = Some (v, r))" if "(k, v) \<in> set m" for k v n r
        using that wf(2) JObject.IH [OF that, of v] by auto
      show "length (comma_separated (map ?f m)) < j" using JObject.prems(2) n unfolding write_JObject [OF wf(1)] by simp
    qed (rule False)
    with n head show ?thesis unfolding write_JObject [OF wf(1)] by (simp add: quote_def)
  qed (use n in \<open>simp add: quote_def\<close>)
next
  case JNull
  then obtain m where "n = Suc m" by (cases n) simp_all
  then show ?case by simp
next
  case (JBool b)
  then obtain m where "n = Suc m" by (cases n; cases b) simp_all
  then show ?case by (cases b) simp_all
qed

section \<open>The environment\<close>

lemma escape_char_ascii: "list_all (\<lambda>c. byte c < 128) (escape_char c)"
proof -
  have h: "byte (hex_digit k) < 128" if "k < 16" for k using that by (simp add: hex_digit_def)
  have "list_all (\<lambda>c. byte c < 128) (hex4 k)" for k by (simp add: hex4_def h)
  then show ?thesis
    by (cases c rule: escape_char_cases)
      (auto simp: byte_def backslash_def quote_def short_escape_def split: if_splits)
qed

lemma write_string_ascii: "list_all (\<lambda>c. byte c < 128) (write_string s)"
  using escape_char_ascii by (auto simp: write_string_def list_all_iff byte_def quote_def)

lemma comma_separated_ascii:
  "\<forall>w \<in> set ws. list_all (\<lambda>c. byte c < 128) w \<Longrightarrow> list_all (\<lambda>c. byte c < 128) (comma_separated ws)"
  by (induction ws rule: comma_separated.induct) (auto simp: byte_def)

lemma canonical_json_ascii:
  assumes "number_to_string E = sample_number"
  shows "json_wf v \<Longrightarrow> list_all (\<lambda>c. byte c < 128) (write_canonical_json E v)"
proof (induction v)
  case (JNumber n)
  have "byte c < 128" if "number_char c" for c using that by (auto simp: number_char_def is_ascii_digit_def byte_def)
  then show ?case using sample_number_chars [of n] JNumber assms by (auto simp: write_number_def list_all_iff)
next
  case (JArray vs)
  then have "list_all (\<lambda>c. byte c < 128) (comma_separated (map (write_canonical_json E) vs))"
    by (intro comma_separated_ascii) (auto simp: list_all_iff)
  then show ?case by (simp add: byte_def)
next
  case (JObject m)
  have wf: "bt_sorted m" "\<forall>(k, v) \<in> set m. json_wf v" using JObject.prems by (auto simp: json_wf_JObject)
  have "list_all (\<lambda>c. byte c < 128) (comma_separated (map (\<lambda>(k, v). write_string k @ '':'' @ write_canonical_json E v) m))"
    using JObject.IH wf(2) write_string_ascii
    by (intro comma_separated_ascii) (fastforce simp: byte_def)
  then show ?case unfolding write_JObject [OF wf(1)] by (simp add: byte_def)
qed (auto simp: write_string_ascii, auto simp: byte_def)

definition sample_from_slice :: "string \<Rightarrow> json option" where
  "sample_from_slice s =
     (case read_value (length s) s of
        Some (v, []) \<Rightarrow> if json_wf v \<and> valid_utf8 s then Some v else None
      | _ \<Rightarrow> None)"

definition sample_entries :: "string \<Rightarrow> (string \<times> json) list option" where
  "sample_entries s = (case sample_from_slice s of Some (JObject m) \<Rightarrow> Some m | _ \<Rightarrow> None)"

text \<open>A digest that is quick to compute: a checksum of the first three bytes and of the length.\<close>

definition sample_digest :: "string \<Rightarrow> string" where
  "sample_digest s = sample_sha256 (take 3 s @ decimal (length s))"

definition sample_env :: lib_env where
  "sample_env = sample_lib_env\<lparr> sha256 := sample_digest, json_from_slice := sample_from_slice, json_entries := sample_entries,
     chrono_parse := utc_instant, base64_encode := (\<lambda>b. map (\<lambda>c. char_of (byte c mod 128)) b),
     base64_decode := Some \<rparr>"

lemma sample_env_number: "number_to_string sample_env = sample_number"
  by (simp add: sample_env_def sample_lib_env_def)

lemma sample_from_slice_canonical:
  assumes "json_wf v"
  shows "sample_from_slice (canonical_json sample_env v) = Some v"
  using read_value_written [OF sample_env_number assms, of _ "[]"] assms
    valid_utf8_ascii [OF canonical_json_ascii [OF sample_env_number assms]]
  by (simp add: sample_from_slice_def canonical_json_def delimited_def)

lemma sample_json_parser: "json_parser sample_env"
proof -
  have p: "json_wf v \<and> valid_utf8 s" if "sample_from_slice s = Some v" for s v
    using that by (auto simp: sample_from_slice_def split: option.splits list.splits if_splits)
  moreover have "json_wf v" if "sample_entries s = Some m" "(k, v) \<in> set m" for s m k v
    using that p [of s "JObject m"] by (auto simp: sample_entries_def json_wf_JObject split: option.splits json.splits)
  moreover have "json_from_slice sample_env = sample_from_slice" "json_entries sample_env = sample_entries"
    by (simp_all add: sample_env_def)
  ultimately show ?thesis
    using sample_from_slice_canonical by (auto simp: json_parser_def json_storable_def sample_entries_def)
qed

lemma sample_env_sha256: "canonical_cas_hash (sha256 sample_env s)"
  using sample_sha256_canonical by (simp add: sample_env_def sample_digest_def)

lemma sample_env_calendar: "calendar_parser sample_env"
  by (simp add: calendar_parser_def sample_env_def)

end
