(* ===== verification/Sample_Chain.thy ===== *)
theory Sample_Chain
  imports Chain_Progress Sample_Env
begin

text \<open>
  A chain to state the witnesses with: an authority whose signer works, an operating system that
  answers, a root snapshot and the store after its chain is created.
\<close>

definition sample_key :: string where
  "sample_key = ''node-key''"

definition sample_signer :: signer where
  "sample_signer =
     \<lparr> signer_sign = (\<lambda>m. sample_sha256 (sample_key @ m)), signer_fingerprint = sample_digest sample_key,
       signer_verifying_key = sample_key \<rparr>"

definition sample_trust :: trust_store where
  "sample_trust = [(sample_digest sample_key, sample_key)]"

definition sample_authority :: authority where
  "sample_authority =
     \<lparr> au_signer = sample_signer, au_trust = sample_trust, au_lock_chain = ''T-1'', au_chain_root_id = ''T-1'' \<rparr>"

definition sample_os :: os where
  "sample_os =
     \<lparr> os_fault = (\<lambda>_. False), os_clock = (\<lambda>i. 1700000000), os_nanos = 7, os_process_id = 1, os_sequence = 0 \<rparr>"

definition sample_policy :: captured_thread_history_policy where
  "sample_policy =
     \<lparr> retention = Durable, canonical_item_ref = ''directive:demo'', item_content_hash = sample_hash,
       item_signer_fingerprint = None, item_trust_class = Unsigned, kind_schema_content_hash = sample_hash,
       resolved_from = NodeDefault MissingConfig \<rparr>"

definition sample_root :: thread_snapshot where
  "sample_root = (built_snapshot 1700000000 ''T-1'' ''T-1'' ''directive'' ''directive:demo'' ''native:rt'')
     \<lparr> snap_captured_history_policy := Some sample_policy \<rparr>"

definition sample_genesis :: chain_state where
  "sample_genesis =
     \<lparr> cs_schema = 1, cs_kind = ''chain_state'', cs_chain_root_id = ''T-1'', cs_prev_chain_state_hash = None,
       cs_last_event_hash = None, cs_last_chain_seq = 0, cs_updated_at = ''2023-11-14T22:13:20Z'',
       cs_threads = [(''T-1'', genesis_entry (hash_snapshot sample_env sample_root) Created)] \<rparr>"

lemma sample_laws: "laws sample_env"
proof -
  have "valid_utf8 (base64_encode sample_env b)" for b
    by (rule valid_utf8_ascii) (simp add: sample_env_def list_all_iff)
  then show ?thesis using sample_json_parser sample_env_sha256 by (simp add: laws_def env_ok_def)
qed

lemma sample_signer_works: "signer_works sample_env sample_signer"
proof -
  have a: "char_of (byte c mod 128) = c" if "c \<in> set (sample_sha256 m)" for c m
  proof -
    have "is_ascii_hexdigit c"
      using that sample_sha256_canonical [of m] by (auto simp: canonical_cas_hash_def valid_hash_def list_all_iff)
    then have "byte c < 128" by (auto simp: is_ascii_hexdigit_def is_ascii_digit_def)
    then show ?thesis by (simp add: byte_def)
  qed
  have "map (\<lambda>c. char_of (byte c mod 128)) (sample_sha256 m) = sample_sha256 m" for m
    using a by (intro map_idI)
  moreover have "length (sample_sha256 m) = 64" for m
    using sample_sha256_canonical [of m] by (simp add: canonical_cas_hash_def valid_hash_def)
  moreover from this have "sample_sha256 m \<noteq> []" for m by (metis list.size(3) zero_neq_numeral)
  ultimately show ?thesis by (simp add: signer_works_def sample_env_def sample_signer_def sample_lib_env_def)
qed

lemma sample_clock: "iso8601_now 1700000000 = ''2023-11-14T22:13:20Z''" "canonical_ts sample_env ''2023-11-14T22:13:20Z''"
proof -
  show e: "iso8601_now 1700000000 = ''2023-11-14T22:13:20Z''" by code_simp
  have "parse_canonical_timestamp sample_env (iso8601_from_unix_secs 1700000000) = Inr 1700000000"
    using iso8601_canonical [OF sample_env_calendar, of 1700000000] by simp
  then show "canonical_ts sample_env ''2023-11-14T22:13:20Z''" using e by (simp add: iso8601_now_def canonical_ts_def)
qed

lemma sample_may_publish: "may_publish sample_env sample_os (os_clock sample_os i) sample_authority empty_store"
proof -
  have "healthy sample_os" by (simp add: healthy_def sample_os_def)
  moreover have "ensure_signer_trusted sample_env sample_signer sample_trust = Inr ()"
    by (simp add: ensure_signer_trusted_def sample_signer_def sample_trust_def key_fingerprint_def sha256_hex_def sample_env_def)
  moreover have "validate_chain_root_id ''T-1'' = Inr ()" by code_simp
  moreover have "valid_utf8 ''T-1''" by code_simp
  ultimately show ?thesis
    using sample_signer_works sample_clock
    by (simp add: may_publish_def sample_authority_def sample_os_def empty_store_def)
qed

lemma sample_encodable: "encodable_snapshot sample_env sample_root"
proof -
  have h: "valid_utf8 sample_hash" by (rule valid_utf8_ascii) (simp add: sample_hash_def byte_def list_all_iff)
  have p: "json_storable sample_env 126 (enc_policy sample_policy)"
    by (simp add: enc_policy_def sample_policy_def storable_object
        storable_JObject bt_sorted_def h valid_utf8_ascii byte_def)
  show ?thesis
    unfolding encodable_snapshot_iff
    by (simp add: snapshot_fields_def sample_root_def built_snapshot_def Let_def sample_clock p enc_status_def
        projectless_authority_def enc_facets_def storable_object storable_JObject storable_JArray valid_utf8_ascii byte_def)
qed

lemma sample_genesis_state: "genesis_state sample_env 1700000000 sample_authority sample_root = Inr sample_genesis"
proof -
  have "snap_updated_at sample_root = ''2023-11-14T22:13:20Z''" "snap_status sample_root = Created"
    using sample_clock by (simp_all add: sample_root_def built_snapshot_def Let_def)
  moreover obtain state where "genesis_state sample_env 1700000000 sample_authority sample_root = Inr state"
    by (rule genesis_state_total [of sample_env 1700000000 sample_root sample_authority])
      (use sample_env_sha256 sample_clock calculation in \<open>simp_all add: sample_authority_def\<close>)
  ultimately show ?thesis using sample_clock
    by (auto simp: genesis_state_def prospective_state_def monotonic_now_def Let_def sample_authority_def sample_genesis_def result_iff)
qed

lemma sample_normalized: "normalize_root_snapshot sample_env sample_authority sample_root = Inr sample_root"
  by code_simp

text \<open>The addresses of the objects, as the sample digest gives them.\<close>

lemma sample_root_hash:
  "hash_snapshot sample_env sample_root = ''00000000000000000000000000000000000000000000000000000000000bb0f2''"
  by code_simp

lemma sample_genesis_hash:
  "hash_chain_state sample_env sample_genesis = ''000000000000000000000000000000000000000000000000000000000008d41a''"
  unfolding sample_genesis_def sample_root_hash by code_simp

lemma written_hash [simp]:
  "fst (snapshot_write E x) = hash_snapshot E x" "fst (state_write E s) = hash_chain_state E s"
  by (simp_all add: snapshot_write_def state_write_def hash_snapshot_def hash_chain_state_def Let_def)

lemma consistent_distinct:
  "distinct (map fst writes) \<Longrightarrow> \<forall>h \<in> fst ` set writes. map_of cas h = None \<Longrightarrow> consistent cas writes"
  by (auto simp: consistent_def list_all_iff dest: eq_key_imp_eq_value)

lemma sample_consistent:
  "consistent [] [snapshot_write sample_env sample_root, state_write sample_env sample_genesis]"
  by (rule consistent_distinct) (simp_all add: sample_root_hash sample_genesis_hash)

lemma sample_root_identity: "check_root_identity sample_authority sample_root = Inr ()"
  by code_simp

definition sample_store :: store where
  "sample_store = snd (create_chain sample_env sample_os sample_authority sample_root empty_store)"

lemma sample_created:
  obtains r where "create_chain sample_env sample_os sample_authority sample_root empty_store = (Inr r, sample_store)"
    "head_target sample_env sample_trust ''T-1'' sample_store = Some (cr_chain_state_hash r)"
    "validate_authoritative_history sample_env (st_cas sample_store) ''T-1'' (cr_chain_state_hash r) None = Inr ()"
proof -
  have au: "au_trust sample_authority = sample_trust" "au_chain_root_id sample_authority = ''T-1''"
    by (simp_all add: sample_authority_def)
  have cons: "consistent (st_cas empty_store) [snapshot_write sample_env sample_root, state_write sample_env state]"
    if "genesis_state sample_env (os_clock sample_os 0) sample_authority sample_root = Inr state" for state
    using that sample_genesis_state sample_consistent by (simp add: sample_os_def empty_store_def)
  have "canonical_ts sample_env (iso8601_now (os_clock sample_os 0))" using sample_clock by (simp add: sample_os_def)
  moreover have "map_of (st_heads empty_store) (au_chain_root_id sample_authority) = None" by (simp add: empty_store_def)
  ultimately obtain r s' where "create_chain sample_env sample_os sample_authority sample_root empty_store = (Inr r, s')"
      "head_target sample_env sample_trust ''T-1'' s' = Some (cr_chain_state_hash r)"
      "validate_authoritative_history sample_env (st_cas s') ''T-1'' (cr_chain_state_hash r) None = Inr ()"
    using create_chain_healthy [OF sample_laws sample_may_publish _ _ sample_encodable sample_root_identity sample_normalized cons]
    unfolding au by metis
  then show ?thesis by (intro that [of r]) (simp_all add: sample_store_def)
qed

lemma sample_reachable: "(authority_step sample_env sample_trust)\<^sup>*\<^sup>* empty_store sample_store"
proof (rule sample_created)
  fix r assume c: "create_chain sample_env sample_os sample_authority sample_root empty_store = (Inr r, sample_store)"
  have "au_trust sample_authority = sample_trust" by (simp add: sample_authority_def)
  from authority_step.create [OF this sample_encodable c] show ?thesis by blast
qed

lemma sample_head:
  obtains r where "read_verified_head sample_env sample_trust ''T-1'' sample_store = Inr (Some r)"
    "validate_authoritative_history sample_env (st_cas sample_store) ''T-1'' (ref_target_hash r) None = Inr ()"
proof (rule sample_created)
  fix cr assume h: "head_target sample_env sample_trust ''T-1'' sample_store = Some (cr_chain_state_hash cr)"
    and v: "validate_authoritative_history sample_env (st_cas sample_store) ''T-1'' (cr_chain_state_hash cr) None = Inr ()"
  from h obtain r where r: "read_verified_head sample_env sample_trust ''T-1'' sample_store = Inr (Some r)"
      "ref_target_hash r = cr_chain_state_hash cr"
    by (auto simp: head_target_def split: sum.splits option.splits)
  from r(1) v [folded r(2)] show thesis by (rule that)
qed

end
