(* ===== verification/Sample_Append.thy ===== *)
theory Sample_Append
  imports Sample_Chain
begin

text \<open>
  The sample chain after one more event: the same authority appends to the chain of
  \<open>Sample_Chain\<close> once the journal entry of its creation is gone.
\<close>

definition sample_event :: thread_event where
  "sample_event = built_event ''2023-11-14T22:13:20Z'' ''T-1'' ''T-1'' ''note''"

definition sample_stored_event :: thread_event where
  "sample_stored_event = sample_event\<lparr> ev_chain_seq := 1, ev_thread_seq := 1 \<rparr>"

definition sample_successor :: chain_state where
  "sample_successor = sample_genesis\<lparr> cs_prev_chain_state_hash := Some (hash_chain_state sample_env sample_genesis),
     cs_last_event_hash := Some (hash_event sample_env sample_stored_event), cs_last_chain_seq := 1,
     cs_threads := [(''T-1'', \<lparr> entry_snapshot_hash = hash_snapshot sample_env sample_root,
       entry_last_event_hash = Some (hash_event sample_env sample_stored_event), entry_last_thread_seq = 1,
       entry_status = Created \<rparr>)] \<rparr>"

definition sample_writes :: "(string \<times> string) list" where
  "sample_writes = [(hash_event sample_env sample_stored_event, canonical_json sample_env (event_to_value sample_stored_event)),
     state_write sample_env sample_successor]"

definition sample_append_result :: append_result where
  "sample_append_result = \<lparr> ar_chain_state_hash = hash_chain_state sample_env sample_successor, ar_first_chain_seq = 1,
     ar_event_count = 1, ar_events = [sample_stored_event], ar_snapshot_updates = [] \<rparr>"

definition sample_idle :: store where
  "sample_idle = sample_store\<lparr> st_pending := [] \<rparr>"

lemma sample_event_hash:
  "hash_event sample_env sample_stored_event = ''000000000000000000000000000000000000000000000000000000000007d41a''"
  by code_simp

lemma sample_successor_hash:
  "hash_chain_state sample_env sample_successor = ''00000000000000000000000000000000000000000000000000000000000ad717''"
  unfolding sample_successor_def sample_genesis_hash sample_event_hash sample_root_hash sample_genesis_def by code_simp

lemma sample_event_short: "length (canonical_json sample_env (event_to_value e)) \<le> 512 * 1024"
  if "e = sample_event \<or> e = sample_stored_event"
proof -
  have "length (canonical_json sample_env (event_to_value sample_event)) \<le> 512 * 1024" by code_simp
  moreover have "length (canonical_json sample_env (event_to_value sample_stored_event)) \<le> 512 * 1024" by code_simp
  ultimately show ?thesis using that by blast
qed

lemma sample_canonical [simp]: "canonical_cas_hash (sha256_hex sample_env b)"
  using sample_env_sha256 by (simp add: sha256_hex_def)

lemma sample_event_valid: "validate_event sample_env e = Inr ()" if "e = sample_event \<or> e = sample_stored_event"
  using sample_event_short [OF that] that sample_clock(2)
  by (auto simp: validate_event_def result_iff sample_event_def sample_stored_event_def built_event_def validate_object_kind_def canonical_ts_def)

lemma sample_staged:
  "stage_events sample_env 1 0 0 None None [sample_event] = Inr ([sample_stored_event],
     [(hash_event sample_env sample_stored_event, canonical_json sample_env (event_to_value sample_stored_event))],
     Some (hash_event sample_env sample_stored_event), Some (hash_event sample_env sample_stored_event))"
proof -
  have "sample_event\<lparr> ev_chain_seq := 1, ev_thread_seq := 1, ev_prev_chain_event_hash := None, ev_prev_thread_event_hash := None \<rparr>
      = sample_stored_event"
    by (simp add: sample_stored_event_def sample_event_def built_event_def)
  then show ?thesis using sample_event_valid
    by (simp add: checked_add_def hash_event_def Let_def)
qed

lemma sample_time: "clamp_timestamp sample_env ''2023-11-14T22:13:20Z'' ''2023-11-14T22:13:20Z'' = Inr ''2023-11-14T22:13:20Z''"
  "monotonic_now sample_env 1700000000 [''2023-11-14T22:13:20Z'', ''2023-11-14T22:13:20Z''] = Inr ''2023-11-14T22:13:20Z''"
  "is_ok (parse_canonical_timestamp sample_env ''2023-11-14T22:13:20Z'')"
  using sample_clock by (auto simp: clamp_timestamp_def monotonic_now_def Let_def canonical_ts_def)

lemma sample_normalized_event:
  "normalize_event_timestamps sample_env [sample_event] ''2023-11-14T22:13:20Z'' = Inr (''2023-11-14T22:13:20Z'', [sample_event])"
  using sample_clock(2) sample_time(1)
  by (auto simp: normalize_event_timestamps_def canonical_ts_def sample_event_def built_event_def)

lemma sample_hashes_canonical:
  "validate_canonical_hash l (hash_event sample_env e) = Inr ()" "validate_canonical_hash l (hash_chain_state sample_env s) = Inr ()"
  "validate_canonical_hash l (hash_snapshot sample_env x) = Inr ()"
  by (simp_all add: hash_event_def hash_chain_state_def hash_snapshot_def validate_canonical_hash_eq_Inr)

lemma sample_successor_state:
  "prospective_state sample_env 1700000000 [''2023-11-14T22:13:20Z'', ''2023-11-14T22:13:20Z''] ''T-1''
     (Some (hash_chain_state sample_env sample_genesis)) (Some (hash_event sample_env sample_stored_event)) 1
     (cs_threads sample_successor) = Inr sample_successor"
proof -
  have "hash_snapshot sample_env sample_root \<noteq> []" by (simp add: sample_root_hash)
  then have "validate_state sample_env sample_successor = Inr ()"
    using sample_clock(2) sample_hashes_canonical
    by (simp add: validate_state_def sample_successor_def sample_genesis_def validate_object_kind_def validate_entry_def canonical_ts_def)
  moreover have "validate_chain_positions sample_env sample_successor = Inr ()"
    using sample_clock(2)
    by (simp add: validate_chain_positions_def sample_successor_def sample_genesis_def validate_hash_sequence_pair_def canonical_ts_def)
  ultimately show ?thesis
    unfolding prospective_state_def sample_time(2)
    by (simp add: Let_def sample_successor_def sample_genesis_def)
qed

lemma sample_prepared:
  "prepare_append sample_env sample_os sample_authority ''T-1'' [sample_event] [] sample_genesis cas
     = Inr (sample_writes, sample_successor, sample_append_result)"
proof -
  have g: "cs_threads sample_genesis = [(''T-1'', genesis_entry (hash_snapshot sample_env sample_root) Created)]"
    "cs_updated_at sample_genesis = ''2023-11-14T22:13:20Z''" "cs_last_chain_seq sample_genesis = 0"
    "cs_last_event_hash sample_genesis = None"
    by (simp_all add: sample_genesis_def)
  have au: "au_chain_root_id sample_authority = ''T-1''" by (simp add: sample_authority_def)
  have ids: "validate_event_identities sample_env ''T-1'' ''T-1'' [sample_event] = Inr ()"
    using sample_event_valid by (simp add: validate_event_identities_def) (simp add: sample_event_def built_event_def)
  have s: "prospective_state sample_env 1700000000 [''2023-11-14T22:13:20Z'', ''2023-11-14T22:13:20Z''] ''T-1''
      (Some (hash_chain_state sample_env sample_genesis)) (Some (hash_event sample_env sample_stored_event)) 1
      [(''T-1'', \<lparr> entry_snapshot_hash = hash_snapshot sample_env sample_root,
        entry_last_event_hash = Some (hash_event sample_env sample_stored_event), entry_last_thread_seq = 1,
        entry_status = Created \<rparr>)] = Inr sample_successor"
    using sample_successor_state by (simp add: sample_successor_def)
  show ?thesis
    unfolding prepare_append_def g au
    by (simp add: ids sample_normalized_event sample_staged s [unfolded One_nat_def] u64_try_from_def checked_add_def
      genesis_entry_def expect_def bt_modify_def bt_remove_def validate_untouched_entries_def sample_os_def
      sample_writes_def sample_append_result_def
      del: stage_events.simps One_nat_def)
qed

text \<open>The objects of the store after the creation.\<close>

lemma sample_batch:
  "fst w \<noteq> fst w' \<Longrightarrow> snd (atomic_write_batch sample_os [] [w, w']) = bt_insert (fst w') (snd w') [w]"
  by (cases w; cases w') (simp add: atomic_write_batch_def os_call_def sample_os_def)

lemma sample_store_cas:
  "map_of (st_cas sample_store) = [hash_snapshot sample_env sample_root \<mapsto> snd (snapshot_write sample_env sample_root),
     hash_chain_state sample_env sample_genesis \<mapsto> snd (state_write sample_env sample_genesis)]"
proof (rule sample_created)
  fix r assume c: "create_chain sample_env sample_os sample_authority sample_root empty_store = (Inr r, sample_store)"
  let ?ws = "[snapshot_write sample_env sample_root, state_write sample_env sample_genesis]"
  have utf8: "valid_utf8 (au_chain_root_id sample_authority)" using sample_may_publish by (simp add: may_publish_def)
  have j: "json_parser sample_env" by (rule sample_json_parser)
  have g: "genesis_state sample_env (os_clock sample_os 0) sample_authority sample_root = Inr sample_genesis"
    using sample_genesis_state by (simp add: sample_os_def)
  have b: "snd (atomic_write_batch sample_os [] ?ws) = bt_insert (fst (?ws ! 1)) (snd (?ws ! 1)) [?ws ! 0]"
    using sample_batch [of "?ws ! 0" "?ws ! 1"] by (simp add: sample_root_hash sample_genesis_hash)
  from c obtain s1 s2 u where w: "write_cas_batch sample_os ?ws empty_store = (Inr (), s1)"
      and p: "publish_chain_head sample_env sample_os (os_clock sample_os 1) sample_authority None
        (hash_chain_state sample_env sample_genesis) (cs_updated_at sample_genesis) s1 = (Inr u, s2)"
      and k: "cache_insert (au_chain_root_id sample_authority) (hash_chain_state sample_env sample_genesis) sample_genesis s2 = (Inr (), sample_store)"
    unfolding create_chain_def commit_closure_def sample_normalized by (auto simp: op_iff g)
  have "st_cas (snd (Inr () :: unit result, sample_store)) = st_cas s2" unfolding k [symmetric] by (simp add: cache_insert_def op_update_def)
  then have "st_cas sample_store = st_cas s1" using publish_effect [OF p j utf8] by simp
  moreover have "st_cas s1 = snd (atomic_write_batch sample_os [] ?ws)"
    using w by (auto simp: write_cas_batch_def op_iff case_prod_unfold Let_def empty_store_def)
  ultimately have "map_of (st_cas sample_store) = [fst (?ws ! 0) \<mapsto> snd (?ws ! 0), fst (?ws ! 1) \<mapsto> snd (?ws ! 1)]"
    unfolding b by (cases "?ws ! 0") (auto simp del: written_hash)
  then show ?thesis by simp
qed

lemma sample_head_target: "head_target sample_env sample_trust ''T-1'' sample_store = Some (hash_chain_state sample_env sample_genesis)"
proof (rule sample_created)
  fix r assume c: "create_chain sample_env sample_os sample_authority sample_root empty_store = (Inr r, sample_store)"
    and h: "head_target sample_env sample_trust ''T-1'' sample_store = Some (cr_chain_state_hash r)"
  have g: "genesis_state sample_env (os_clock sample_os 0) sample_authority sample_root = Inr sample_genesis"
    using sample_genesis_state by (simp add: sample_os_def)
  have "cr_chain_state_hash r = hash_chain_state sample_env sample_genesis"
    using c unfolding create_chain_def sample_normalized by (auto simp: op_iff g)
  with h show ?thesis by simp
qed

lemma sample_genesis_loads:
  "load_hashed_chain_state sample_env (st_cas sample_store) (hash_chain_state sample_env sample_genesis) = Inr sample_genesis"
proof -
  have env: "env_ok sample_env" using sample_laws by (simp add: laws_def)
  have "state_wf sample_genesis" by (simp add: state_wf_def sample_genesis_def genesis_entry_def bt_sorted_def valid_utf8_ascii byte_def)
  then have st: "storable_state sample_env sample_genesis"
    using prospective_state_ok(6) [OF sample_genesis_state [unfolded genesis_state_def]] by (rule state_storable)
  show ?thesis
    by (rule load_state_stored [OF env st]) (simp add: sample_store_cas state_write_def Let_def)
qed

lemma sample_successor_loads:
  assumes "stored_in sample_writes cas"
  shows "load_hashed_chain_state sample_env cas (hash_chain_state sample_env sample_successor) = Inr sample_successor"
proof -
  have env: "env_ok sample_env" using sample_laws by (simp add: laws_def)
  have "state_wf sample_successor"
    by (simp add: state_wf_def sample_successor_def sample_genesis_def bt_sorted_def valid_utf8_ascii byte_def)
  then have st: "storable_state sample_env sample_successor"
    using prospective_state_ok(6) [OF sample_successor_state] by (rule state_storable)
  show ?thesis
    by (rule load_state_stored [OF env st]) (use assms in \<open>simp add: sample_writes_def state_write_def Let_def hash_chain_state_def\<close>)
qed

lemma sample_head_state:
  "read_head_state sample_env sample_os i sample_authority sample_idle = Inr (hash_chain_state sample_env sample_genesis, sample_genesis)"
proof -
  note g = prospective_state_ok(6,7) [OF sample_genesis_state [unfolded genesis_state_def]]
  from sample_genesis_loads obtain v where "get_object sample_env (st_cas sample_store) (hash_chain_state sample_env sample_genesis) = Inr (Some v)"
      "state_decode v = Inr sample_genesis"
    by (auto simp: load_hashed_chain_state_def load_hashed_def result_iff split: if_splits)
  moreover have "os_call sample_os site = Inr ()" for site by (simp add: os_call_def sample_os_def)
  moreover obtain r where "read_verified_head sample_env sample_trust ''T-1'' sample_idle = Inr (Some r)"
      "ref_target_hash r = hash_chain_state sample_env sample_genesis"
    using sample_head_target
    by (auto simp: head_target_def sample_idle_def read_verified_head_def split: sum.splits option.splits)
  ultimately show ?thesis using g
    by (simp add: read_head_state_def read_cas_object_def ensure_lock_protects_def sample_authority_def sample_idle_def)
      (simp add: sample_genesis_def)
qed

lemma sample_appendable:
  "may_publish sample_env sample_os (os_clock sample_os i) sample_authority sample_idle"
  "consistent (st_cas sample_idle) sample_writes" "encodable_event sample_env sample_event"
proof -
  show "may_publish sample_env sample_os (os_clock sample_os i) sample_authority sample_idle"
    using sample_may_publish by (simp add: may_publish_def sample_idle_def empty_store_def)
  show "consistent (st_cas sample_idle) sample_writes"
    by (rule consistent_distinct) (simp_all add: sample_writes_def sample_idle_def sample_store_cas sample_root_hash sample_genesis_hash
      sample_event_hash sample_successor_hash)
  show "encodable_event sample_env sample_event"
    unfolding encodable_event_iff
    by (simp add: event_fields_def sample_event_def built_event_def storable_object storable_JObject bt_sorted_def
        valid_utf8_ascii byte_def)
qed

lemma sample_appended:
  obtains s where "append_events sample_env sample_os sample_authority ''T-1'' [sample_event] [] sample_idle = (Inr sample_append_result, s)"
    "committed_at sample_env sample_authority sample_writes (Some (hash_chain_state sample_env sample_genesis))
       (hash_chain_state sample_env sample_successor) sample_idle s"
  by (rule append_events_healthy [OF sample_laws sample_appendable(1) sample_head_state _ _ _ sample_prepared sample_appendable(2)])
    (use sample_appendable(3) in \<open>simp_all add: sample_append_result_def\<close>)

lemma sample_advanced:
  obtains cas where "validate_authoritative_history sample_env cas ''T-1'' (hash_chain_state sample_env sample_successor)
      (Some (hash_chain_state sample_env sample_genesis)) = Inr ()"
    "load_hashed_chain_state sample_env cas (hash_chain_state sample_env sample_genesis) = Inr sample_genesis"
    "load_hashed_chain_state sample_env cas (hash_chain_state sample_env sample_successor) = Inr sample_successor"
proof -
  obtain s where a: "append_events sample_env sample_os sample_authority ''T-1'' [sample_event] [] sample_idle = (Inr sample_append_result, s)"
      and c: "committed_at sample_env sample_authority sample_writes (Some (hash_chain_state sample_env sample_genesis))
       (hash_chain_state sample_env sample_successor) sample_idle s"
    by (rule sample_appended)
  have au: "au_trust sample_authority = sample_trust" "au_chain_root_id sample_authority = ''T-1''"
    by (simp_all add: sample_authority_def)
  have idle: "read_verified_head sample_env sample_trust d sample_idle = read_verified_head sample_env sample_trust d sample_store" for d
    by (simp add: read_verified_head_def sample_idle_def)
  have "heads_valid sample_env sample_trust sample_store" by (rule reachable_valid [OF sample_laws sample_reachable])
  then have "heads_valid sample_env (au_trust sample_authority) sample_idle"
    unfolding au heads_valid_def good_head_def idle by (simp add: sample_idle_def)
  from append_events_extends [OF sample_laws this _ _ a] sample_appendable(3)
  have e: "extends sample_env sample_trust ''T-1'' sample_idle s" by (simp add: au)
  have old: "head_target sample_env sample_trust ''T-1'' sample_idle = Some (hash_chain_state sample_env sample_genesis)"
    using sample_head_target by (simp add: head_target_def idle)
  obtain r where r: "read_verified_head sample_env sample_trust ''T-1'' s = Inr (Some r)"
      "ref_target_hash r = hash_chain_state sample_env sample_successor"
    using c by (auto simp: committed_at_def published_at_def au head_target_def split: sum.splits option.splits)
  have "hash_chain_state sample_env sample_successor \<noteq> hash_chain_state sample_env sample_genesis"
    by (simp add: sample_successor_hash sample_genesis_hash)
  then have "head_target sample_env sample_trust ''T-1'' s \<noteq> head_target sample_env sample_trust ''T-1'' sample_idle"
    using c old by (simp add: committed_at_def published_at_def au)
  then have "map_of (st_heads s) ''T-1'' \<noteq> map_of (st_heads sample_idle) ''T-1''"
    by (metis head_target_def read_verified_head_cong)
  then have p: "publishes sample_env sample_trust ''T-1'' sample_idle s" using e by (simp add: extends_def)
  then have v: "validate_authoritative_history sample_env (st_cas s) ''T-1'' (hash_chain_state sample_env sample_successor)
      (Some (hash_chain_state sample_env sample_genesis)) = Inr ()"
    using r old unfolding publishes_def by metis
  show thesis
  proof (rule that [OF v])
    have "map_of (st_cas sample_store) \<subseteq>\<^sub>m map_of (st_cas s)" using e by (simp add: extends_def sample_idle_def)
    from load_hashed_mono(3) [OF this, THEN result_leD] sample_genesis_loads
    show "load_hashed_chain_state sample_env (st_cas s) (hash_chain_state sample_env sample_genesis) = Inr sample_genesis" by blast
    show "load_hashed_chain_state sample_env (st_cas s) (hash_chain_state sample_env sample_successor) = Inr sample_successor"
      by (rule sample_successor_loads) (use c in \<open>simp add: committed_at_def\<close>)
  qed
qed

section \<open>A journal record\<close>

definition sample_record :: pending_transition where
  "sample_record = set_record sample_os 1700000000 ''T-1'' None (hash_chain_state sample_env sample_genesis)"

definition sample_recorded :: store where
  "sample_recorded = empty_store\<lparr> st_pending := [(''T-1'', canonical_json sample_env (pending_to_value sample_record))] \<rparr>"

lemma sample_record_simps [simp]: "pend_chain_root_id sample_record = ''T-1''" "pend_operation sample_record = OpSet"
  "pend_phase sample_record = Prepared" "pend_target_hash sample_record = Some (hash_chain_state sample_env sample_genesis)"
  by (simp_all add: sample_record_def set_record_def)

lemma sample_record_ok: "healthy sample_os" "validate_chain_root_id ''T-1'' = Inr ()" "pending_typed sample_record"
  "validate_pending sample_env sample_record = Inr ()" "validate_pending sample_env (sample_record\<lparr> pend_phase := p \<rparr>) = Inr ()"
proof -
  have m: "healthy sample_os" "validate_chain_root_id ''T-1'' = Inr ()" "valid_utf8 ''T-1''"
    using sample_may_publish by (simp_all add: may_publish_def sample_authority_def)
  have h: "canonical_cas_hash (hash_chain_state sample_env sample_genesis)" by (simp add: hash_chain_state_def)
  have t: "canonical_ts sample_env (iso8601_now 1700000000)" using sample_clock by simp
  show "healthy sample_os" "validate_chain_root_id ''T-1'' = Inr ()" by (fact m)+
  show "validate_pending sample_env sample_record = Inr ()" "validate_pending sample_env (sample_record\<lparr> pend_phase := p \<rparr>) = Inr ()"
    unfolding sample_record_def using set_record_valid [OF m(1,2) t h] by blast+
  show "pending_typed sample_record"
    using m(3) unique_id_utf8 by (simp add: pending_typed_def sample_record_def set_record_def)
qed

lemma sample_recorded_write: "write_pending sample_env sample_os i sample_record False empty_store = (Inr (), sample_recorded)"
  using write_pending_healthy [OF sample_record_ok(1,4), of empty_store False i]
  by (simp add: sample_recorded_def empty_store_def)

lemma sample_journalled: "journalled sample_env ''T-1'' sample_record sample_recorded"
  using decode_pending_encode [OF sample_json_parser sample_record_ok(4,3)] by (simp add: journalled_def sample_recorded_def)

lemma sample_storable: "storable_event sample_env sample_stored_event" "storable_snapshot sample_env sample_root"
  "storable_state sample_env sample_genesis"
proof -
  have e: "encodable_event sample_env sample_stored_event"
    unfolding encodable_event_iff
    by (simp add: event_fields_def sample_stored_event_def sample_event_def built_event_def storable_object storable_JObject
        bt_sorted_def valid_utf8_ascii byte_def)
  show "storable_event sample_env sample_stored_event" by (rule encodable_event_storable [OF e sample_event_valid]) simp
  have "validate_snapshot sample_env sample_root = Inr ()"
    by (rule normalize_new_thread_ok(2) [OF sample_normalized [unfolded normalize_root_snapshot_def Let_def]])
  then show "storable_snapshot sample_env sample_root" by (rule encodable_snapshot_storable [OF sample_encodable])
  have "state_wf sample_genesis" by (simp add: state_wf_def sample_genesis_def genesis_entry_def bt_sorted_def valid_utf8_ascii byte_def)
  then show "storable_state sample_env sample_genesis"
    using prospective_state_ok(6) [OF sample_genesis_state [unfolded genesis_state_def]] by (rule state_storable)
qed

end
