(* ===== verification/Append_Laws.thy ===== *)
theory Append_Laws
  imports Chain_Progress
begin

text \<open>
  What the writers return and refuse: the positions of the events they append, the requests they
  reject without touching the store, the times they assign.
\<close>

section \<open>Positions\<close>

lemma stage_events_positions:
  assumes "stage_events E first base offset lc lt events = Inr (stored, writes, lc', lt')"
  shows "map ev_chain_seq stored = [first + offset ..< first + offset + length events]
    \<and> map ev_thread_seq stored = [Suc (base + offset) ..< Suc (base + offset) + length events]"
  using assms
proof (induction events arbitrary: offset lc lt stored writes lc' lt')
  case (Cons event events)
  let ?e = "linked_event (first + offset) (Suc (base + offset)) lc lt event"
  obtain st ws l1 l2 where st: "stage_events E first base (Suc offset) (Some (hash_event E ?e)) (Some (hash_event E ?e)) events
      = Inr (st, ws, l1, l2)" "stored = ?e # st"
    by (rule stage_events_ConsD [OF Cons.prems refl]) blast
  from Cons.IH [OF st(1)] st(2) show ?case by (simp add: linked_event_def upt_conv_Cons del: upt_Suc)
qed simp

lemma append_eventsD:
  assumes "append_events E os au tid events us s = (Inr res, s')"
  obtains h old entry where "read_head_state E os 0 au s = Inr (h, old)" "map_of (cs_threads old) tid = Some entry"
    "ar_first_chain_seq res = cs_last_chain_seq old + 1" "length (ar_events res) = length events"
    "cs_last_chain_seq old + length events < u64_bound" "entry_last_thread_seq entry + length events < u64_bound"
    "map ev_chain_seq (ar_events res) = [cs_last_chain_seq old + 1 ..< cs_last_chain_seq old + 1 + length events]"
    "map ev_thread_seq (ar_events res) = [entry_last_thread_seq entry + 1 ..< entry_last_thread_seq entry + 1 + length events]"
proof -
  from assms obtain h old and s1 :: store and writes new where r: "read_head_state E os 0 au s = Inr (h, old)"
      and p: "prepare_append E os au tid events us old (st_cas s1) = Inr (writes, new, res)"
    unfolding append_events_def read_chain_head_for_mutation_def by (auto simp: op_iff case_prod_unfold)
  from p obtain entry0 ts evs stored ews lc lt where d: "map_of (cs_threads old) tid = Some entry0"
      "normalize_event_timestamps E events (cs_updated_at old) = Inr (ts, evs)"
      "cs_last_chain_seq old + length evs < u64_bound" "entry_last_thread_seq entry0 + length evs < u64_bound"
      "stage_events E (Suc (cs_last_chain_seq old)) (entry_last_thread_seq entry0) 0 (cs_last_event_hash old)
         (entry_last_event_hash entry0) evs = Inr (stored, ews, lc, lt)"
    by (rule prepare_appendD) blast
  have res: "ar_events res = stored" "ar_first_chain_seq res = Suc (cs_last_chain_seq old)"
    using p d by (auto simp: prepare_append_def result_iff)
  have l: "length evs = length events" by (rule normalized_events(1) [OF d(2)])
  show thesis
    using stage_events_positions [OF d(5)] stage_events_shape [OF d(5)] d(3,4) res l
    by (intro that [OF r d(1)]) (simp_all del: upt_Suc)
qed

section \<open>Rejections\<close>

lemma guard_stops: "x = Inl e \<Longrightarrow> op_bind (op_lift x) f s = (Inl e, s)"
  by (simp add: op_bind_def op_lift_def)

text \<open>A request whose preparation fails changes at most the head cache.\<close>

lemma append_unprepared:
  assumes "read_head_state E os 0 au s = Inr (h, old)"
    and "\<And>r. prepare_append E os au tid events us old (st_cas s) \<noteq> Inr r"
  shows "\<exists>e s'. append_events E os au tid events us s = (Inl e, s') \<and> st_cas s' = st_cas s
    \<and> st_heads s' = st_heads s \<and> st_pending s' = st_pending s"
proof -
  obtain e where e: "prepare_append E os au tid events us old (st_cas s) = Inl e"
    using assms(2) by (cases "prepare_append E os au tid events us old (st_cas s)") auto
  obtain r s' where run: "append_events E os au tid events us s = (r, s')" by fastforce
  have "(\<exists>e. r = Inl e) \<and> (s' = s \<or> (\<exists>c. s' = s\<lparr> st_cache := c \<rparr>))"
    using run unfolding append_events_def read_chain_head_for_mutation_def cache_insert_def
    by (auto simp: op_iff assms(1) e)
  with run show ?thesis by auto
qed

lemma append_exhausted:
  assumes "read_head_state E os 0 au s = Inr (h, old)" and "u64_bound \<le> cs_last_chain_seq old + length events"
  shows "prepare_append E os au tid events us old cas \<noteq> Inr r"
proof
  assume "prepare_append E os au tid events us old cas = Inr r"
  then obtain writes new res where "prepare_append E os au tid events us old cas = Inr (writes, new, res)" by (cases r) auto
  then obtain ts evs where "normalize_event_timestamps E events (cs_updated_at old) = Inr (ts, evs)"
      "cs_last_chain_seq old + length evs < u64_bound"
    by (rule prepare_appendD) blast
  then show False using normalized_events(1) assms(2) by fastforce
qed

text \<open>A lock of another chain or an untrusted signer stops every writer before it reads or writes.\<close>

definition authorized :: "'z lib_env_scheme \<Rightarrow> authority \<Rightarrow> bool" where
  "authorized E au \<longleftrightarrow> au_lock_chain au = au_chain_root_id au
     \<and> ensure_signer_trusted E (au_signer au) (au_trust au) = Inr ()"

definition refused :: "'a op \<Rightarrow> store \<Rightarrow> bool" where
  "refused m s \<longleftrightarrow> (\<exists>e. m s = (Inl e, s))"

lemma unauthorized_refused:
  assumes "\<not> authorized E au"
  shows "refused (op_bind (op_lift (ensure_lock_protects (au_lock_chain au) (au_chain_root_id au))) (\<lambda>_.
    op_bind (op_lift (ensure_signer_trusted E (au_signer au) (au_trust au))) f)) s"
  using assms
  by (cases "ensure_signer_trusted E (au_signer au) (au_trust au)")
    (auto simp: authorized_def refused_def op_bind_def op_lift_def ensure_lock_protects_def require_def)

lemma guard_refused: "refused m s \<Longrightarrow> refused (op_bind (op_lift (x :: unit result)) (\<lambda>_. m)) s"
  by (cases x) (auto simp: refused_def op_bind_def op_lift_def)

lemmas writer_defs = create_chain_def create_chain_with_events_def append_events_def add_thread_to_chain_def
  add_thread_to_chain_with_events_def add_thread_with_events_and_append_def

section \<open>Times\<close>

lemma clamp_events_fixed:
  assumes "clamp_events E floor events = Inr (final, clamped)" and "sorted (map (instant E) (floor # map ev_ts events))"
  shows "clamped = events"
  using assms
proof (induction events arbitrary: floor final clamped)
  case (Cons e events)
  from Cons.prems(1) obtain ts rest where ts: "clamp_timestamp E (ev_ts e) floor = Inr ts"
      "clamp_events E ts events = Inr (final, rest)" "clamped = e\<lparr> ev_ts := ts \<rparr> # rest"
    by (auto simp: ebind_eq_Inr)
  have "ts = ev_ts e" using ts(1) Cons.prems(2) by (auto simp: result_iff split: if_splits)
  with Cons.IH [of ts final rest] ts Cons.prems(2) show ?case by simp
qed simp

section \<open>The journal\<close>

lemma map_result_mem: "map_result f xs = Inr ys \<Longrightarrow> x \<in> set xs \<Longrightarrow> \<exists>y \<in> set ys. f x = Inr y"
  by (induction xs arbitrary: ys) (auto simp: result_iff)

lemma listed_pending:
  assumes "list_pending E s = Inr records" and "journalled E c p s"
  shows "p \<in> set records"
proof -
  obtain bytes where b: "(c, bytes) \<in> set (st_pending s)" "decode_pending_bytes E bytes c = Inr p"
    using assms(2) by (auto simp: journalled_def dest: map_of_SomeD)
  obtain rs where rs: "map_result (\<lambda>(c, bytes). ebind (validate_chain_root_id c) (\<lambda>_. decode_pending_bytes E bytes c)) (st_pending s) = Inr rs"
      "set records = set rs"
    using assms(1) by (auto simp: list_pending_def ebind_eq_Inr)
  from map_result_mem [OF rs(1) b(1)] b(2) rs(2) show ?thesis by (auto simp: result_iff)
qed

end
