(* ===== verification/History_Laws.thy ===== *)
theory History_Laws
  imports Chain_Invariant
begin

text \<open>
  Consequences of an accepted history: what a later state keeps of an earlier one, that the
  threads share out the chain's events, and that the hash of the last state fixes all of it up
  to a collision of the digest.
\<close>

section \<open>What a later state keeps\<close>

definition entry_kept :: "chain_thread_entry \<Rightarrow> chain_thread_entry \<Rightarrow> bool" where
  "entry_kept e e' \<longleftrightarrow>
     entry_last_thread_seq e \<le> entry_last_thread_seq e'
     \<and> (is_terminal (entry_status e) \<longrightarrow>
          entry_status e' = entry_status e \<and> entry_snapshot_hash e' = entry_snapshot_hash e)"

definition state_kept :: "'z lib_env_scheme \<Rightarrow> chain_state \<Rightarrow> chain_state \<Rightarrow> bool" where
  "state_kept E s s' \<longleftrightarrow>
     cs_chain_root_id s' = cs_chain_root_id s \<and> cs_last_chain_seq s \<le> cs_last_chain_seq s'
     \<and> instant E (cs_updated_at s) \<le> instant E (cs_updated_at s')
     \<and> (\<forall>t e. map_of (cs_threads s) t = Some e \<longrightarrow> (\<exists>e'. map_of (cs_threads s') t = Some e' \<and> entry_kept e e'))"

lemma entry_kept_trans: "entry_kept a b \<Longrightarrow> entry_kept b c \<Longrightarrow> entry_kept a c"
  by (auto simp: entry_kept_def)

lemma state_kept_refl: "state_kept E s s"
  by (auto simp: state_kept_def entry_kept_def)

lemma state_kept_trans:
  assumes "state_kept E a b" and "state_kept E b c"
  shows "state_kept E a c"
proof -
  have "\<exists>e'. map_of (cs_threads c) t = Some e' \<and> entry_kept e e'" if "map_of (cs_threads a) t = Some e" for t e
    using assms that entry_kept_trans unfolding state_kept_def by metis
  then show ?thesis using assms by (auto simp: state_kept_def)
qed

text \<open>The status in an entry is that of the snapshot it names.\<close>

definition statuses_agree :: "'z lib_env_scheme \<Rightarrow> cas \<Rightarrow> chain_state \<Rightarrow> bool" where
  "statuses_agree E cas s \<longleftrightarrow>
     (\<forall>t e snapshot. map_of (cs_threads s) t = Some e \<longrightarrow>
        load_hashed_snapshot E cas (entry_snapshot_hash e) = Inr snapshot \<longrightarrow> snap_status snapshot = entry_status e)"

lemma published_status:
  "validate_published_snapshot E s t e snapshot events = Inr () \<Longrightarrow> snap_status snapshot = entry_status e"
  by (auto simp: validate_published_snapshot_def validate_stored_snapshot_def ebind_eq_Inr require_eq_Inr)

lemma terminal_no_transition: "validate_status_transition a b = Inr () \<Longrightarrow> \<not> is_terminal a"
  by (auto simp: validate_status_transition_def require_eq_Inr is_terminal_def split: thread_status.splits)

lemma event_advance_forward: "validate_event_advance events history ph ps nh ns = Inr x \<Longrightarrow> ps \<le> ns"
  by (auto simp: validate_event_advance_def split: if_splits)

lemma entry_transition_kept:
  assumes "validate_entry_transition E cas old new events tms t e' = Inr ()" and "map_of (cs_threads old) t = Some e"
    and "statuses_agree E cas old"
  shows "entry_kept e e'"
proof -
  from assms(1,2) have seq: "entry_last_thread_seq e \<le> entry_last_thread_seq e'"
    by (auto simp: validate_entry_transition_def ebind_eq_Inr dest: event_advance_forward)
  from assms(1,2) consider "entry_snapshot_hash e = entry_snapshot_hash e'" "entry_status e = entry_status e'"
    | before after where "load_hashed_snapshot E cas (entry_snapshot_hash e) = Inr before"
        "validate_historical_snapshot_transition E before after (map_option snd tms) = Inr ()"
    by (auto simp: validate_entry_transition_def ebind_eq_Inr require_eq_Inr split: if_splits)
  then show ?thesis
  proof cases
    case (2 before after)
    then have "\<not> is_terminal (snap_status before)"
      using terminal_no_transition
      by (auto simp: validate_historical_snapshot_transition_def validate_snapshot_transition_identity_def ebind_eq_Inr)
    moreover have "snap_status before = entry_status e"
      using assms(2,3) 2(1) by (auto simp: statuses_agree_def)
    ultimately show ?thesis using seq by (simp add: entry_kept_def)
  qed (use seq in \<open>simp add: entry_kept_def\<close>)
qed

lemma entry_transition_status:
  assumes "validate_entry_transition E cas old new events tms t e' = Inr ()" and "statuses_agree E cas old"
    and "load_hashed_snapshot E cas (entry_snapshot_hash e') = Inr snapshot"
  shows "snap_status snapshot = entry_status e'"
proof (cases "map_of (cs_threads old) t")
  case None
  with assms(1,3) show ?thesis
    by (auto simp: validate_entry_transition_def ebind_eq_Inr dest: published_status)
next
  case (Some e)
  show ?thesis
  proof (cases "entry_snapshot_hash e = entry_snapshot_hash e'")
    case True
    with assms(1) Some have "entry_status e = entry_status e'"
      by (auto simp: validate_entry_transition_def ebind_eq_Inr require_eq_Inr)
    with True Some assms(2,3) show ?thesis by (auto simp: statuses_agree_def)
  next
    case False
    with assms(1,3) Some show ?thesis
      by (auto simp: validate_entry_transition_def ebind_eq_Inr dest: published_status)
  qed
qed

lemma transition_kept:
  assumes "validate_chain_state_transition E cas h old new events = Inr ()" and "statuses_agree E cas old"
  shows "state_kept E old new" and "statuses_agree E cas new"
proof -
  from assms(1) obtain tms where t: "cs_chain_root_id new = cs_chain_root_id old"
      "instant E (cs_updated_at old) \<le> instant E (cs_updated_at new)"
      "validate_event_advance events ChainHistory (cs_last_event_hash old) (cs_last_chain_seq old)
        (cs_last_event_hash new) (cs_last_chain_seq new) = Inr tms"
      "\<forall>(t, e) \<in> set (cs_threads old). map_of (cs_threads new) t \<noteq> None"
      "\<forall>(t, e) \<in> set (cs_threads new). validate_entry_transition E cas old new events tms t e = Inr ()"
    by (auto simp: validate_chain_state_transition_def result_iff case_prod_unfold)
  have step: "validate_entry_transition E cas old new events tms t e' = Inr ()"
    if "map_of (cs_threads new) t = Some e'" for t e'
    using t(5) map_of_SomeD [OF that] by auto
  have "\<exists>e'. map_of (cs_threads new) t = Some e' \<and> entry_kept e e'" if e: "map_of (cs_threads old) t = Some e" for t e
  proof -
    obtain e' where e': "map_of (cs_threads new) t = Some e'" using t(4) map_of_SomeD [OF e] by auto
    then show ?thesis using entry_transition_kept [OF step [OF e'] e assms(2)] by blast
  qed
  then show "state_kept E old new" using t(1,2) event_advance_forward [OF t(3)] by (auto simp: state_kept_def)
  show "statuses_agree E cas new"
    unfolding statuses_agree_def using entry_transition_status [OF step assms(2)] by blast
qed

lemma genesis_statuses:
  assumes "validate_genesis_state E cas s events = Inr ()"
  shows "statuses_agree E cas s"
proof -
  from assms obtain entry snapshot where g: "length (cs_threads s) = 1" "map_of (cs_threads s) (cs_chain_root_id s) = Some entry"
      "load_hashed_snapshot E cas (entry_snapshot_hash entry) = Inr snapshot"
      "validate_published_snapshot E s (cs_chain_root_id s) entry snapshot events = Inr ()"
    by (auto simp: validate_genesis_state_def ebind_eq_Inr require_eq_Inr expect_def ok_or_eq_Inr)
  then have "cs_threads s = [(cs_chain_root_id s, entry)]"
    by (cases "cs_threads s") (auto split: if_splits)
  then show ?thesis using g(3) published_status [OF g(4)] by (auto simp: statuses_agree_def)
qed

lemma accepted_statuses:
  assumes "accepted_history E cas root states events" and "i < length states"
  shows "statuses_agree E cas (snd (states ! i))"
  using assms(2)
proof (induction i)
  case 0
  then have "states ! 0 = hd states" by (simp add: hd_conv_nth)
  then show ?case using genesis_statuses assms(1) by (auto simp: accepted_history_def)
next
  case (Suc i)
  have "validate_chain_state_transition E cas (fst (states ! i)) (snd (states ! i)) (snd (states ! Suc i)) events = Inr ()"
    using assms(1) Suc.prems unfolding accepted_history_def legal_steps_def successively_conv_nth
    by (auto simp: case_prod_unfold)
  then show ?case using transition_kept(2) Suc by auto
qed

lemma accepted_kept:
  assumes "accepted_history E cas root states events" and "i \<le> j" and "j < length states"
  shows "state_kept E (snd (states ! i)) (snd (states ! j))"
  using assms(2,3)
proof (induction j)
  case (Suc j)
  show ?case
  proof (cases "i = Suc j")
    case False
    then have "state_kept E (snd (states ! i)) (snd (states ! j))" using Suc by simp
    moreover have "validate_chain_state_transition E cas (fst (states ! j)) (snd (states ! j)) (snd (states ! Suc j)) events = Inr ()"
      using assms(1) Suc.prems unfolding accepted_history_def legal_steps_def successively_conv_nth
      by (auto simp: case_prod_unfold)
    ultimately show ?thesis
      using transition_kept(1) accepted_statuses [OF assms(1), of j] Suc.prems(2) state_kept_trans by (metis Suc_lessD)
  qed (simp add: state_kept_refl)
qed (simp add: state_kept_refl)

lemma history_keeps:
  assumes "validate_authoritative_history E cas root target (Some ancestor) = Inr ()"
    and "load_hashed_chain_state E cas ancestor = Inr old" and "load_hashed_chain_state E cas target = Inr new"
  shows "state_kept E old new"
proof -
  obtain states events where a: "accepted_history E cas root states events" "last_hash states = Some target"
      "ancestor \<in> fst ` set states"
    using assms(1) unfolding history_iff by blast
  then have sc: "state_chain E cas root states" by (simp add: accepted_history_def)
  obtain i where i: "i < length states" "fst (states ! i) = ancestor" using a(3) by (auto simp: in_set_conv_nth)
  have "(ancestor, snd (states ! i)) \<in> set states" using i by (metis nth_mem prod.collapse)
  then have old: "snd (states ! i) = old" using state_chain_loaded [OF sc] assms(2) by auto
  have "fst (last states) = target" "states \<noteq> []" using a(2) by (auto simp: last_hash_def split: if_splits)
  then have "(target, snd (last states)) \<in> set states" by (metis last_in_set prod.collapse)
  then have new: "snd (last states) = new" using state_chain_loaded [OF sc] assms(3) by auto
  have "last states = states ! (length states - 1)" using \<open>states \<noteq> []\<close> by (rule last_conv_nth)
  moreover have "state_kept E (snd (states ! i)) (snd (states ! (length states - 1)))"
    by (rule accepted_kept [OF a(1)]) (use i in auto)
  ultimately show ?thesis using old new by simp
qed

section \<open>The threads share out the events of the chain\<close>

lemma of_thread_partition:
  assumes "distinct ts" and "\<forall>(h, e) \<in> set log. ev_thread_id e \<in> set ts"
  shows "sum_list (map (\<lambda>t. length (of_thread t log)) ts) = length log"
  using assms(2)
proof (induction log)
  case Nil
  show ?case by (induction ts) simp_all
next
  case (Cons x log)
  obtain h e where x: "x = (h, e)" by fastforce
  have "sum_list (map (\<lambda>t. length (of_thread t (x # log))) ts)
      = sum_list (map (\<lambda>t. if t = ev_thread_id e then 1 else 0) ts) + sum_list (map (\<lambda>t. length (of_thread t log)) ts)"
    by (simp add: x flip: sum_list_addf) (intro arg_cong [where f = sum_list] map_cong; simp)
  moreover have "sum_list (map (\<lambda>t. if t = ev_thread_id e then 1 else 0 :: nat) ts) = 1"
    using assms(1) Cons.prems x by (simp add: sum_list_distinct_conv_sum_set)
  ultimately show ?case using Cons by simp
qed

lemma closed_log_shares:
  assumes "closed_log E cas s log" and "distinct (map fst (cs_threads s))"
  shows "sum_list (map (entry_last_thread_seq \<circ> snd) (cs_threads s)) = cs_last_chain_seq s"
proof -
  have c: "\<forall>(t, e) \<in> set (cs_threads s). entry_last_thread_seq e = length (of_thread t log)"
    "\<forall>(h, e) \<in> set log. map_of (cs_threads s) (ev_thread_id e) \<noteq> None" "cs_last_chain_seq s = length log"
    using assms(1) by (auto simp: closed_log_def)
  have "map (entry_last_thread_seq \<circ> snd) (cs_threads s) = map (\<lambda>t. length (of_thread t log)) (map fst (cs_threads s))"
    using c(1) by auto
  moreover have "\<forall>(h, e) \<in> set log. ev_thread_id e \<in> set (map fst (cs_threads s))"
    using c(2) by (auto simp: map_of_eq_None_iff)
  ultimately show ?thesis using of_thread_partition [OF assms(2), of log] c(3) by (metis (no_types, lifting))
qed

section \<open>The head commits to the history\<close>

text \<open>Two stores hold different bytes with the same digest under one address.\<close>

definition stores_collide :: "'z lib_env_scheme \<Rightarrow> cas \<Rightarrow> cas \<Rightarrow> bool" where
  "stores_collide E cas cas' \<longleftrightarrow>
     (\<exists>h b b'. b \<noteq> b' \<and> sha256_hex E b = h \<and> sha256_hex E b' = h \<and> map_of cas h = Some b \<and> map_of cas' h = Some b')"

lemma loads_agree:
  "\<not> stores_collide E cas cas' \<Longrightarrow> load_hashed_chain_state E cas h = Inr s \<Longrightarrow> load_hashed_chain_state E cas' h = Inr s' \<Longrightarrow> s' = s"
  "\<not> stores_collide E cas cas' \<Longrightarrow> load_hashed_event E cas h = Inr e \<Longrightarrow> load_hashed_event E cas' h = Inr e' \<Longrightarrow> e' = e"
  unfolding load_hashed_chain_state_def load_hashed_event_def stores_collide_def
  by (metis state_codec.load_collision, metis event_codec.load_collision)

lemma state_chain_commits:
  assumes "\<not> stores_collide E cas cas'" and "state_chain E cas root c" and "state_chain E cas' root d" and "last_hash c = last_hash d"
  shows "c = d"
  using assms(2-4)
proof (induction c arbitrary: d rule: rev_induct)
  case (snoc x c)
  obtain h s where x: "x = (h, s)" by fastforce
  obtain d' y where d: "d = d' @ [y]" using state_chain_nonempty [OF snoc.prems(2)] by (cases d rule: rev_cases) auto
  obtain h' s' where y: "y = (h', s')" by fastforce
  have h: "h' = h" using snoc.prems(3) by (simp add: x d y)
  note c = snoc.prems(1) [unfolded x state_chain_snoc] and d' = snoc.prems(2) [unfolded d y state_chain_snoc]
  have s: "s' = s" using loads_agree(1) [OF assms(1)] c d' h by blast
  then have l: "last_hash c = last_hash d'" using c d' by metis
  show ?case
  proof (cases "c = []")
    case True
    with l have "last_hash d' = None" by simp
    with True show ?thesis by (simp add: d x y h s)
  next
    case False
    then have "last_hash d' \<noteq> None" using l by (metis last_hash_simps(3))
    then have "d' \<noteq> []" by auto
    with False snoc.IH [of d'] c d' l show ?thesis by (simp add: d x y h s)
  qed
qed (use state_chain_nonempty in blast)

lemma linked_log_commits:
  assumes "\<not> stores_collide E cas cas'" and "linked_log E cas root l" and "linked_log E cas' root m" and "last_hash l = last_hash m"
  shows "l = m"
  using assms(2-4)
proof (induction l arbitrary: m rule: rev_induct)
  case Nil
  then show ?case by (metis last_hash_simps(1,3))
next
  case (snoc x l)
  obtain h e where x: "x = (h, e)" by fastforce
  have "m \<noteq> []" using snoc.prems(3) x by auto
  then obtain m' h' e' where m: "m = m' @ [(h', e')]" by (cases m rule: rev_cases) auto
  have h: "h' = h" using snoc.prems(3) by (simp add: x m)
  note l = snoc.prems(1) [unfolded x linked_log_snoc] and m' = snoc.prems(2) [unfolded m linked_log_snoc]
  have e: "e' = e" using loads_agree(2) [OF assms(1)] l m' h by auto
  have "linked_log E cas root l" "linked_log E cas' root m'" "last_hash l = last_hash m'" using l m' e by auto
  from snoc.IH [OF this] show ?case by (simp add: x m h e)
qed

lemma history_commits:
  assumes "\<not> stores_collide E cas cas'" and "json_parser E"
    and "validate_authoritative_history E cas root target None = Inr ()"
    and "validate_authoritative_history E cas' root target None = Inr ()"
  shows "\<exists>states events. last_hash states = Some target
    \<and> accepted_history E cas root states events \<and> accepted_history E cas' root states events"
proof -
  obtain states events where a: "accepted_history E cas root states events" "last_hash states = Some target"
    using assms(3) unfolding history_iff by blast
  obtain states' events' where b: "accepted_history E cas' root states' events'" "last_hash states' = Some target"
    using assms(4) unfolding history_iff by blast
  have sc: "state_chain E cas root states" "state_chain E cas' root states'" using a b by (simp_all add: accepted_history_def)
  have same: "states' = states" using state_chain_commits [OF assms(1) sc] a(2) b(2) by simp
  let ?s = "snd (last states)"
  obtain h where "last states = (h, ?s)" "load_hashed_chain_state E cas h = Inr ?s" using state_chain_last [OF sc(1)] by auto
  then have sorted: "bt_sorted (cs_threads ?s)" using loaded_state_wf [OF assms(2)] by (auto simp: state_wf_def)
  obtain log where l: "closed_log E cas ?s log" "events = log_positions log []"
    using a(1) closure_iff [OF sorted, of E cas events] by (auto simp: accepted_history_def)
  obtain log' where l': "closed_log E cas' ?s log'" "events' = log_positions log' []"
    using b(1) closure_iff [OF sorted, of E cas' events'] by (auto simp: accepted_history_def same)
  have "log = log'"
    by (rule linked_log_commits [OF assms(1)]) (use l(1) l'(1) in \<open>auto simp: closed_log_def\<close>)
  then have "events' = events" using l(2) l'(2) by simp
  with a b same show ?thesis by blast
qed

section \<open>The walk over the predecessors\<close>

lemma collect_history_bounded:
  assumes "collect_history E cas root [] (Some h) [] = Inr hashes"
  shows "distinct hashes \<and> set hashes \<subseteq> fst ` set cas \<and> length hashes \<le> length cas"
proof -
  obtain states where s: "state_chain E cas root states" "hashes = rev (map fst states)"
    using collect_history_sound [OF assms] by auto
  have d: "distinct hashes" using state_chain_distinct [OF s(1)] s(2) by simp
  have sub: "set hashes \<subseteq> fst ` set cas"
    using state_chain_loaded [OF s(1)] load_hashed_chain_state_present s(2) by fastforce
  have "length hashes = card (set hashes)" using distinct_card [OF d] by simp
  also have "\<dots> \<le> card (fst ` set cas)" using sub by (simp add: card_mono)
  also have "\<dots> \<le> length cas" by (metis card_length length_map list.set_map)
  finally show ?thesis using d sub by blast
qed

end
