(* ===== verification/Panic_Freedom.thy ===== *)
theory Panic_Freedom
  imports Chain_Writers
begin

text \<open>
  The \<open>expect\<close> calls and the index of the chain code never fire: the checks before them imply
  that the value is there. A result that is not a panic is \<open>calm\<close>.
\<close>

section \<open>Results that are not panics\<close>

definition calm :: "'a result \<Rightarrow> bool" where
  "calm r \<longleftrightarrow> (\<forall>m. r \<noteq> Inl (Panic m))"

named_theorems calm_intro \<open>computations that do not panic\<close>

lemma calm_Inr [simp, calm_intro]: "calm (Inr x)"
  by (simp add: calm_def)

lemma calm_Inl [simp, calm_intro]: "calm (Inl (Bail m))" "calm (Inl (Io m))" "calm (Inl (Decode m))"
  by (simp_all add: calm_def)

lemma calm_ebind [calm_intro]: "calm r \<Longrightarrow> (\<And>x. r = Inr x \<Longrightarrow> calm (f x)) \<Longrightarrow> calm (ebind r f)"
  by (cases r) (auto simp: calm_def)

lemma calm_require [calm_intro]: "calm (Inl e :: unit result) \<Longrightarrow> calm (require b e)"
  by (simp add: require_def)

lemma calm_ok_or [calm_intro]: "calm (Inl e :: 'a result) \<Longrightarrow> calm (ok_or (x :: 'a option) e)"
  by (cases x) simp_all

lemma calm_expect: "x \<noteq> None \<Longrightarrow> calm (expect x m)"
  by (auto simp: expect_def)

lemma calm_if_some [calm_intro]: "(\<And>y. x = Some y \<Longrightarrow> calm (f y)) \<Longrightarrow> calm (if_some f x)"
  by (cases x) simp_all

lemma calm_map_transpose [calm_intro]: "(\<And>y. x = Some y \<Longrightarrow> calm (f y)) \<Longrightarrow> calm (map_transpose f x)"
  by (cases x) (auto simp: calm_def split: sum.splits)

lemma calm_for_each [calm_intro]: "(\<And>y. y \<in> set xs \<Longrightarrow> calm (f y)) \<Longrightarrow> calm (for_each f xs)"
  by (induction xs) (auto intro: calm_ebind)

lemma calm_map_result [calm_intro]: "(\<And>y. y \<in> set xs \<Longrightarrow> calm (f y)) \<Longrightarrow> calm (map_result f xs)"
  by (induction xs) (auto intro!: calm_ebind)

lemma calm_if [calm_intro]: "(c \<Longrightarrow> calm a) \<Longrightarrow> (\<not> c \<Longrightarrow> calm b) \<Longrightarrow> calm (if c then a else b)"
  by simp

lemma calm_option [calm_intro]: "(x = None \<Longrightarrow> calm a) \<Longrightarrow> (\<And>y. x = Some y \<Longrightarrow> calm (f y)) \<Longrightarrow> calm (case x of None \<Rightarrow> a | Some y \<Rightarrow> f y)"
  by (cases x) simp_all

lemma calm_prod [calm_intro]: "(\<And>x y. p = (x, y) \<Longrightarrow> calm (f x y)) \<Longrightarrow> calm (case p of (x, y) \<Rightarrow> f x y)"
  by (cases p) simp

lemma calm_Let [calm_intro]: "calm (f x) \<Longrightarrow> calm (Let x f)"
  by (simp add: Let_def)

section \<open>The objects\<close>

lemma calm_timestamps [calm_intro]: "calm (parse_canonical_timestamp E s)" "calm (validate_canonical_hash l h)"
  "calm (clamp_timestamp E v f)"
  by (auto simp: parse_canonical_timestamp_def validate_canonical_hash_def clamp_timestamp_def Let_def
      intro!: calm_intro)

lemma calm_monotonic [calm_intro]: "calm (monotonic_loop E r t floors)" "calm (monotonic_now E clock floors)"
proof -
  show loop: "calm (monotonic_loop E r t floors)" for r t
    by (induction floors arbitrary: r t) (auto intro!: calm_intro)
  show "calm (monotonic_now E clock floors)"
    unfolding monotonic_now_def by (intro calm_intro loop)
qed

lemma calm_sorted_loop [calm_intro]:
  "(\<And>x. calm (f x)) \<Longrightarrow> calm (Inl e :: unit result) \<Longrightarrow> calm (strictly_sorted_loop f e previous xs)"
  by (induction xs arbitrary: previous) (auto intro!: calm_intro)

lemma calm_strings [calm_intro]: "calm (validate_object_kind k e)" "calm (validate_trimmed_control_free l v b)"
  "calm (Project_Authority.validate_hash l h)" "calm (Recovery_Journal.validate_hash l h)" "calm (validate_absolute_normal_path l p)"
  "calm (validate_sorted_relative_paths l ps)" "calm (validate_allowed_names ns)" "calm (validate_capability_ceiling cs)"
  unfolding validate_object_kind_def validate_trimmed_control_free_def Project_Authority.validate_hash_def
    Recovery_Journal.validate_hash_def validate_absolute_normal_path_def validate_sorted_relative_paths_def
    validate_allowed_names_def validate_capability_ceiling_def
  by (intro calm_intro)+

lemma calm_authority [calm_intro]: "calm (validate_name_authority n)" "calm (validate_environment e b)" "calm (validate_live_access l)"
  "calm (validate_authority E a)"
proof -
  show n: "calm (validate_name_authority n)" for n by (cases n) (auto intro!: calm_intro)
  show e: "calm (validate_environment e b)" for e b by (cases e) (auto intro!: calm_intro n)
  show l: "calm (validate_live_access l)" for l
    unfolding validate_live_access_def
    by (intro calm_intro)
      (auto intro!: calm_intro split: live_filesystem_confinement.split live_symlink_policy.split live_project_access.split)
  show "calm (validate_authority E a)"
    by (cases a)
      (auto intro!: calm_intro n e l split: environment_authority.split pinned_project_realization.split pinned_terminal_publication.split)
qed

lemma calm_policy [calm_intro]: "calm (validate_canonical_item_ref E r)" "calm (validate_policy E p)" "calm (validate_usage E u)"
proof -
  show r: "calm (validate_canonical_item_ref E r)" for r
    unfolding validate_canonical_item_ref_def by (auto intro!: calm_intro split: prod.split)
  have n: "calm (validate_node_policy x)" for x by (cases x) (auto intro!: calm_intro)
  have t: "calm (validate_retention x)" for x by (cases x) (auto intro!: calm_intro)
  have v: "calm (validate_provenance x y z)" for x y z
    by (cases x) (auto intro!: calm_intro n split: thread_history_retention.split)
  show "calm (validate_policy E p)"
    unfolding validate_policy_def
    by (intro calm_intro r t v) (auto intro!: calm_intro split: prod.split captured_item_trust_class.split option.split)
  show "calm (validate_usage E u)" unfolding validate_usage_def by (intro calm_intro)
qed

lemma calm_snapshot [calm_intro]: "calm (validate_snapshot E s)" "calm (snapshot_from_current_value E v)"
proof -
  have h: "calm (validate_snapshot_history E s)" for s unfolding validate_snapshot_history_def by (intro calm_intro)
  have t: "calm (validate_snapshot_times E s)" for s
    unfolding validate_snapshot_times_def by (intro calm_intro) (auto intro!: calm_intro split: thread_status.split)
  show s: "calm (validate_snapshot E s)" for s unfolding validate_snapshot_def by (intro calm_intro h t)
  show "calm (snapshot_from_current_value E v)"
    unfolding snapshot_from_current_value_def by (cases v) (auto intro!: calm_intro s)
qed

lemma calm_objects [calm_intro]: "calm (validate_event E e)" "calm (validate_entry x)" "calm (validate_state E s)"
proof -
  show "calm (validate_event E e)" unfolding validate_event_def by (intro calm_intro)
  show x: "calm (validate_entry x)" for x unfolding validate_entry_def by (intro calm_intro)
  show "calm (validate_state E s)" unfolding validate_state_def by (intro calm_intro x)
qed

lemma calm_loads [calm_intro]: "calm (os_call os site)" "calm (get_object E cas h)" "calm (load_hashed_chain_state E cas h)"
  "calm (load_hashed_snapshot E cas h)" "calm (load_hashed_event E cas h)"
proof -
  show "calm (os_call os site)" unfolding os_call_def by (intro calm_intro)
  show g: "calm (get_object E cas h)" for cas h
    unfolding get_object_def read_verified_entry_def by (intro calm_intro)
  have l: "calm (load_hashed E dec enc cas h)" if "\<And>v. calm (dec v)" for dec enc
    unfolding load_hashed_def by (intro calm_intro g that)
  show "calm (load_hashed_chain_state E cas h)" "calm (load_hashed_snapshot E cas h)" "calm (load_hashed_event E cas h)"
    unfolding load_hashed_chain_state_def load_hashed_snapshot_def load_hashed_event_def state_decode_def event_decode_def
    by (intro l calm_intro)+
qed

section \<open>The validator\<close>

lemma calm_positions [calm_intro]: "calm (validate_predecessor_link n p)" "calm (validate_hash_sequence_pair n k)"
  "calm (validate_chain_positions E s)" "calm (validate_stored_snapshot E s t e snapshot)"
  "calm (validate_snapshot_last_event E snapshot h event)" "calm (validate_snapshot_event_position snapshot events)"
  "calm (validate_entry_event_position s t e events)" "calm (validate_published_snapshot E s t e snapshot events)"
proof -
  show "calm (validate_predecessor_link n p)" unfolding validate_predecessor_link_def by (intro calm_intro)
  show p: "calm (validate_hash_sequence_pair n k)" for n k unfolding validate_hash_sequence_pair_def by (intro calm_intro)
  show "calm (validate_chain_positions E s)" unfolding validate_chain_positions_def by (intro calm_intro p)
  show s: "calm (validate_stored_snapshot E s t e snapshot)" unfolding validate_stored_snapshot_def by (intro calm_intro p)
  show "calm (validate_snapshot_last_event E snapshot h event)" unfolding validate_snapshot_last_event_def by (intro calm_intro)
  show v: "calm (validate_snapshot_event_position snapshot events)" unfolding validate_snapshot_event_position_def by (intro calm_intro)
  show "calm (validate_entry_event_position s t e events)" unfolding validate_entry_event_position_def by (intro calm_intro)
  show "calm (validate_published_snapshot E s t e snapshot events)"
    unfolding validate_published_snapshot_def by (intro calm_intro s v)
qed

lemma calm_closure [calm_intro]: "calm (validate_authoritative_closure E cas s)"
proof -
  have t: "calm (closure_threads E cas s n entries cursors positions)" for n entries cursors positions
    by (induction E cas s n entries cursors positions rule: closure_threads.induct) (auto intro!: calm_intro)
  have w: "calm (walk_events E cas root n current newer visited cursors events)" for root n current newer visited cursors events
    by (induction n arbitrary: current newer visited cursors events) (auto intro!: calm_intro)
  show ?thesis unfolding validate_authoritative_closure_def by (intro calm_intro t w)
qed

lemma calm_transitions [calm_intro]: "calm (validate_status_transition p n)" "calm (validate_snapshot_transition_identity x y)"
  "calm (validate_new_thread_snapshot y source)" "calm (validate_historical_snapshot_transition E x y through)"
proof -
  show st: "calm (validate_status_transition p n)" for p n unfolding validate_status_transition_def by (intro calm_intro)
  show i: "calm (validate_snapshot_transition_identity x y)"
    unfolding validate_snapshot_transition_identity_def by (intro calm_intro st)
  show "calm (validate_new_thread_snapshot y source)"
    unfolding validate_new_thread_snapshot_def validate_new_thread_project_snapshots_def
    by (intro calm_intro)
  show "calm (validate_historical_snapshot_transition E x y through)"
    unfolding validate_historical_snapshot_transition_def
    by (intro calm_intro i calm_expect) (simp_all add: result_iff)
qed

text \<open>An advance of at least one event has an oldest and a newest event.\<close>

lemma event_advance_loop_dates:
  "event_advance_loop events history base n hash oldest newest = Inr (h, old', new') \<Longrightarrow>
    0 < n \<or> oldest \<noteq> None \<and> newest \<noteq> None \<Longrightarrow> old' \<noteq> None \<and> new' \<noteq> None"
proof (induction n arbitrary: hash oldest newest)
  case (Suc n)
  from Suc.prems(1) obtain e :: event_position and y where "event_advance_loop events history base n y (Some (pos_timestamp e))
      (if newest = None then Some (pos_timestamp e) else newest) = Inr (h, old', new')"
    by (simp add: result_iff case_prod_unfold) blast
  from Suc.IH [OF this] show ?case by (cases newest) simp_all
qed simp

lemma calm_event_advance [calm_intro]: "calm (validate_event_advance events history h n h' n')"
proof -
  have l: "calm (event_advance_loop events history base k hash oldest newest)" for base k hash oldest newest
    by (induction k arbitrary: hash oldest newest) (auto intro!: calm_intro split: event_history.split)
  show ?thesis
    unfolding validate_event_advance_def
    by (intro calm_intro l calm_expect) (auto dest!: event_advance_loop_dates)
qed

lemma calm_state_transition [calm_intro]: "calm (validate_chain_state_transition E cas h old new events)"
proof -
  have e: "calm (validate_entry_transition E cas old new events times t entry)" for times t entry
    unfolding validate_entry_transition_def by (intro calm_intro)
  show ?thesis unfolding validate_chain_state_transition_def by (intro calm_intro e)
qed

lemma calm_genesis:
  assumes v: "validate_state E s = Inr ()" and p: "validate_chain_positions E s = Inr ()"
  shows "calm (validate_genesis_state E cas s events)"
proof -
  have root: "map_of (cs_threads s) (cs_chain_root_id s) \<noteq> None"
    using v by (auto simp: validate_state_def ebind_eq_Inr require_eq_Inr)
  have seq: "cs_last_event_hash s \<noteq> None" if "cs_last_chain_seq s \<noteq> 0"
    using p that by (auto simp: validate_chain_positions_def validate_hash_sequence_pair_def ebind_eq_Inr split: option.splits)
  have found: "map_of events h \<noteq> None"
    if "validate_published_snapshot E s t entry snapshot events = Inr ()"
      and "entry_last_event_hash entry = cs_last_event_hash s" and "cs_last_event_hash s = Some h" for t entry snapshot h
    using that by (auto simp: validate_published_snapshot_def validate_snapshot_event_position_def ebind_eq_Inr
      require_eq_Inr ok_or_eq_Inr)
  show ?thesis
    unfolding validate_genesis_state_def
    by (intro calm_intro calm_expect root seq) (auto dest: found simp: require_eq_Inr expect_def ok_or_eq_Inr)
qed

lemma state_chain_valid:
  "state_chain E cas root states \<Longrightarrow> (h, s) \<in> set states \<Longrightarrow>
    validate_state E s = Inr () \<and> validate_chain_positions E s = Inr ()"
  by (induction rule: state_chain.induct) auto

lemma calm_history [calm_intro]: "calm (validate_authoritative_history E cas root target ancestor)"
proof -
  have c: "calm (collect_history E cas root visited current acc)" for visited current acc
    by (induction E cas root visited current acc rule: collect_history.induct)
      (auto intro!: calm_intro simp: collect_history.simps)
  have t: "calm (check_transitions E cas events h s hs)" for events h s hs
    by (induction hs arbitrary: h s) (auto intro!: calm_intro)
  have g: "calm (validate_genesis_state E cas s events)"
    if ch: "collect_history E cas root [] (Some target) [] = Inr hashes" and hs: "rev hashes = h # later"
      and ld: "load_hashed_chain_state E cas h = Inr s" for hashes h later s events
  proof -
    obtain states where st: "state_chain E cas root states" "hashes = rev (map fst states)"
      using collect_history_sound [OF ch] by (simp only: option.case append_Nil) blast
    then have "h = fst (hd states)" "states \<noteq> []" using hs by (cases states; simp)+
    then have "(h, snd (hd states)) \<in> set states" by (cases states) simp_all
    with state_chain_valid [OF st(1) this] state_chain_loaded [OF st(1) this] ld
    show ?thesis by (intro calm_genesis) simp_all
  qed
  show ?thesis
    unfolding validate_authoritative_history_def
    by (intro calm_intro c) (auto intro!: calm_intro c t g split: list.split)
qed

section \<open>The journal and the signed heads\<close>

definition calm_op :: "'a op \<Rightarrow> bool" where
  "calm_op m \<longleftrightarrow> (\<forall>s. calm (fst (m s)))"

lemma calm_opD: "calm_op m \<Longrightarrow> fst (m s) \<noteq> Inl (Panic e)"
  by (simp add: calm_op_def calm_def)

lemma calm_op_bind [calm_intro]:
  "calm_op m \<Longrightarrow> (\<And>x s s'. m s = (Inr x, s') \<Longrightarrow> calm_op (f x)) \<Longrightarrow> calm_op (op_bind m f)"
proof -
  assume m: "calm_op m" and f: "\<And>x s s'. m s = (Inr x, s') \<Longrightarrow> calm_op (f x)"
  have "calm (fst (op_bind m f s))" for s
  proof (cases "m s")
    case (Pair r s')
    have "calm r" using m Pair by (metis calm_op_def fst_conv)
    then show ?thesis using Pair f [of s _ s'] by (cases r) (auto simp: op_bind_def calm_def calm_op_def)
  qed
  then show ?thesis by (simp add: calm_op_def)
qed

lemma calm_op_lift [calm_intro]: "calm r \<Longrightarrow> calm_op (op_lift r)"
  by (simp add: calm_op_def op_lift_def)

lemma calm_op_read [calm_intro]: "(\<And>s. calm (f s)) \<Longrightarrow> calm_op (op_read f)"
  by (simp add: calm_op_def op_read_def)

lemma calm_op_update [calm_intro]: "calm_op (op_update f)"
  by (simp add: calm_op_def op_update_def)

lemma calm_op_option [calm_intro]:
  "(x = None \<Longrightarrow> calm_op a) \<Longrightarrow> (\<And>y. x = Some y \<Longrightarrow> calm_op (f y)) \<Longrightarrow> calm_op (case x of None \<Rightarrow> a | Some y \<Rightarrow> f y)"
  by (cases x) simp_all

lemma calm_op_if [calm_intro]: "(c \<Longrightarrow> calm_op a) \<Longrightarrow> (\<not> c \<Longrightarrow> calm_op b) \<Longrightarrow> calm_op (if c then a else b)"
  by simp

lemma calm_op_prod [calm_intro]: "(\<And>x y. p = (x, y) \<Longrightarrow> calm_op (f x y)) \<Longrightarrow> calm_op (case p of (x, y) \<Rightarrow> f x y)"
  by (cases p) simp

lemma calm_op_Let [calm_intro]: "calm_op (f x) \<Longrightarrow> calm_op (Let x f)"
  by (simp add: Let_def)

lemma calm_refs [calm_intro]: "calm (ensure_lock_protects l c)" "calm (ensure_protects os i l c)"
  "calm (ensure_signer_trusted E sg trust)" "calm (validate_signed_ref E r)" "calm (read_verified_head E trust c s)"
  "calm (encode_signed_ref E sg r)"
proof -
  show l: "calm (ensure_lock_protects l c)" unfolding ensure_lock_protects_def by (intro calm_intro)
  show "calm (ensure_protects os i l c)" unfolding ensure_protects_def by (intro calm_intro l)
  show "calm (ensure_signer_trusted E sg trust)" unfolding ensure_signer_trusted_def by (intro calm_intro)
  show v: "calm (validate_signed_ref E r)" for r unfolding validate_signed_ref_def by (intro calm_intro)
  show "calm (read_verified_head E trust c s)"
    unfolding read_verified_head_def read_verified_ref_def read_signed_ref_def verify_signed_ref_def by (intro calm_intro v)
  show "calm (encode_signed_ref E sg r)" unfolding encode_signed_ref_def by (intro calm_intro v)
qed

lemma calm_journal [calm_intro]: "calm (validate_chain_root_id c)" "calm (validate_pending E p)" "calm (read_pending E os i c s)"
  "calm_op (write_pending E os i p b)" "calm_op (prepare_set E os clock l c expected target)"
  "calm_op (advance_phase E os l c t expected_phase new_phase)"
proof -
  show c: "calm (validate_chain_root_id c)" for c unfolding validate_chain_root_id_def by (intro calm_intro)
  have h: "calm (Recovery_Journal.validate_hash n x)" for n x unfolding Recovery_Journal.validate_hash_def by (intro calm_intro)
  have o: "calm (validate_optional_hash n x)" for n x unfolding validate_optional_hash_def by (intro calm_intro h)
  show v: "calm (validate_pending E p)" for p
    unfolding validate_pending_def by (intro calm_intro c) (auto intro!: calm_intro h o split: head_operation.split)
  show r: "calm (read_pending E os i c s)" for i c s
    unfolding read_pending_def decode_pending_bytes_def by (intro calm_intro c v)
  show w: "calm_op (write_pending E os i p b)" for i p b
    unfolding write_pending_def by (intro calm_intro v)
  show "calm_op (prepare_set E os clock l c expected target)"
    unfolding prepare_set_def by (intro calm_intro c h o r w) (auto intro!: calm_intro w split: head_operation.split)
  show "calm_op (advance_phase E os l c t expected_phase new_phase)"
    unfolding advance_phase_def by (intro calm_intro r w)
qed

section \<open>The writers\<close>

lemma calm_batch: "calm_op (write_cas_batch os writes)"
proof -
  have v: "calm (verify_batch_entry cas h d)" for cas h d unfolding verify_batch_entry_def by (intro calm_intro)
  have p: "calm (batch_prepare os cas i ws)" for cas i ws
    by (induction os cas i ws rule: batch_prepare.induct) (auto intro!: calm_intro v)
  have b: "calm (fst (batch_publish os i ws cas))" for i ws cas
    by (induction os i ws cas rule: batch_publish.induct)
      (use v calm_loads(1) in \<open>auto simp: calm_def split: sum.splits\<close>)
  have "calm (fst (atomic_write_batch os cas writes))" for cas
    using p [of cas 0 writes] calm_loads(1) [of os BatchFlush]
    unfolding atomic_write_batch_def
    by (auto simp: calm_def [of "Inl _"] case_prod_unfold Let_def split: sum.split intro!: calm_ebind b calm_loads)
  then show ?thesis unfolding write_cas_batch_def
    by (intro calm_intro) (simp add: calm_op_def case_prod_unfold Let_def)
qed

lemma calm_heads [calm_intro]: "calm (verify_expected_current_head E os i au expected s)"
  "(\<And>v. calm (dec v)) \<Longrightarrow> calm (read_cas_object E os site dec cas h)"
  "calm_op (publish_chain_head E os clock au expected target ts)" "calm_op (read_chain_head_for_mutation E os i au)"
proof -
  show v: "calm (verify_expected_current_head E os i au expected s)" for i s
    unfolding verify_expected_current_head_def by (intro calm_intro)
  show o: "calm (read_cas_object E os site dec cas h)" if "\<And>v. calm (dec v)" for site dec cas h
    unfolding read_cas_object_def by (intro calm_intro that)
  show "calm_op (publish_chain_head E os clock au expected target ts)"
    unfolding publish_chain_head_def write_signed_head_def by (intro calm_intro v o)
  show "calm_op (read_chain_head_for_mutation E os i au)"
    unfolding read_chain_head_for_mutation_def read_head_state_def cache_insert_def state_decode_def
    by (intro calm_intro o)
qed

lemma calm_commit [calm_intro]: "calm_op (commit_closure E os clock au writes expected state)"
  unfolding commit_closure_def cache_insert_def by (intro calm_intro calm_batch)

lemma calm_normalize [calm_intro]: "calm (normalize_event_timestamps E events floor)"
  "calm (normalize_and_validate_snapshot_transition E old new ts)" "calm (normalize_and_validate_new_thread E new root ts source)"
  "calm (validate_untouched_entries threads threads' touched)" "calm (prospective_state E clock floors root prev h n threads)"
proof -
  have c: "calm (clamp_timestamp E t floor)" for t floor unfolding clamp_timestamp_def by (intro calm_intro)
  have e: "calm (clamp_events E t events)" for t events
    by (induction events arbitrary: t) (auto intro!: calm_intro c)
  show "calm (normalize_event_timestamps E events floor)" unfolding normalize_event_timestamps_def by (intro calm_intro e)
  show "calm (normalize_and_validate_snapshot_transition E old new ts)"
    unfolding normalize_and_validate_snapshot_transition_def normalize_started_def normalize_finished_def by (intro calm_intro c)
  show "calm (normalize_and_validate_new_thread E new root ts source)"
    unfolding normalize_and_validate_new_thread_def validate_new_thread_project_snapshots_def by (intro calm_intro c)
  show "calm (validate_untouched_entries threads threads' touched)" unfolding validate_untouched_entries_def by (intro calm_intro)
  show "calm (prospective_state E clock floors root prev h n threads)" unfolding prospective_state_def by (intro calm_intro)
qed

lemma calm_stage [calm_intro]: "calm (stage_events E first base i lc lt events)" "calm (validate_event_identities E root t events)"
  "calm (u64_try_from n)"
proof -
  show "calm (stage_events E first base i lc lt events)"
    by (induction events arbitrary: i lc lt) (auto intro!: calm_intro simp: Let_def)
  show "calm (validate_event_identities E root t events)" unfolding validate_event_identities_def by (intro calm_intro)
  show "calm (u64_try_from n)" unfolding u64_try_from_def by (intro calm_intro)
qed

lemma calm_current_snapshot [calm_intro]: "calm (read_current_snapshot_for_mutation E os i cas state t)"
  "calm (validate_snapshot_last_event_object E os i cas snapshot)"
proof -
  show o: "calm (validate_snapshot_last_event_object E os i cas snapshot)" for i snapshot
    unfolding validate_snapshot_last_event_object_def event_decode_def by (intro calm_intro)
  show "calm (read_current_snapshot_for_mutation E os i cas state t)"
    unfolding read_current_snapshot_for_mutation_def by (intro calm_intro o)
qed

lemma calm_previous [calm_intro]: "calm (load_previous_snapshots E os cas state root added i prev updates)"
  unfolding validate_update_identity_def
  by (induction updates arbitrary: i prev) (auto intro!: calm_intro simp: validate_update_identity_def)

text \<open>The first pass over the updates establishes what the second one expects.\<close>

lemma previous_loaded:
  assumes "load_previous_snapshots E os cas state root added i prev updates = Inr prev'"
  shows "distinct (map upd_thread_id updates)" and "map_of prev \<subseteq>\<^sub>m map_of prev'"
    and "u \<in> set updates \<Longrightarrow> map_of prev' (upd_thread_id u) \<noteq> None"
    and "u \<in> set updates \<Longrightarrow> map_of (cs_threads state) (upd_thread_id u) \<noteq> None"
    and "u \<in> set updates \<Longrightarrow> map_of prev (upd_thread_id u) = None"
proof -
  have "distinct (map upd_thread_id updates) \<and> map_of prev \<subseteq>\<^sub>m map_of prev'
    \<and> (\<forall>u \<in> set updates. map_of prev' (upd_thread_id u) \<noteq> None
        \<and> map_of (cs_threads state) (upd_thread_id u) \<noteq> None \<and> map_of prev (upd_thread_id u) = None)"
    using assms
  proof (induction updates arbitrary: i prev)
    case (Cons u updates)
    from Cons.prems obtain x where x: "map_of prev (upd_thread_id u) = None"
        "read_current_snapshot_for_mutation E os (3 * i + 1) cas state (upd_thread_id u) = Inr x"
        "load_previous_snapshots E os cas state root added (Suc i) (bt_insert (upd_thread_id u) x prev) updates = Inr prev'"
      by (auto simp: result_iff)
    have t: "map_of (cs_threads state) (upd_thread_id u) \<noteq> None"
      using x(2) by (auto simp: read_current_snapshot_for_mutation_def result_iff)
    note IH = Cons.IH [OF x(3)]
    have other: "upd_thread_id v \<noteq> upd_thread_id u \<and> map_of prev (upd_thread_id v) = None" if "v \<in> set updates" for v
      using IH that by (auto split: if_splits)
    have le: "map_of prev \<subseteq>\<^sub>m map_of (bt_insert (upd_thread_id u) x prev)" using x(1) by (auto simp: map_le_def)
    have "map_of prev' (upd_thread_id u) = Some x"
      using IH by (auto simp: map_le_def dom_def dest!: bspec)
    moreover have "map_of prev \<subseteq>\<^sub>m map_of prev'" using map_le_trans [OF le] IH by blast
    moreover have "distinct (map upd_thread_id (u # updates))"
      using IH other by (simp add: image_iff) metis
    ultimately show ?case using IH other t x(1) by simp
  qed simp
  then show "distinct (map upd_thread_id updates)" "map_of prev \<subseteq>\<^sub>m map_of prev'"
    "u \<in> set updates \<Longrightarrow> map_of prev' (upd_thread_id u) \<noteq> None"
    "u \<in> set updates \<Longrightarrow> map_of (cs_threads state) (upd_thread_id u) \<noteq> None"
    "u \<in> set updates \<Longrightarrow> map_of prev (upd_thread_id u) = None"
    by blast+
qed

lemma calm_updates:
  assumes "distinct (map upd_thread_id updates)" and "last_event \<noteq> None"
    and "\<And>u. u \<in> set updates \<Longrightarrow> map_of threads (upd_thread_id u) \<noteq> None \<and> map_of prev (upd_thread_id u) \<noteq> None"
  shows "calm (apply_updates E os cas n ts t last_event i prev threads updates)"
  using assms
proof (induction updates arbitrary: i prev threads)
  case (Cons u updates)
  have "upd_thread_id v \<noteq> upd_thread_id u" if "v \<in> set updates" for v
    using Cons.prems(1) that by (metis distinct.simps(2) image_eqI list.simps(9) set_map)
  with Cons.prems show ?case unfolding apply_updates.simps
    by (intro calm_intro calm_expect Cons.IH) simp_all
qed simp

lemma staged_nonempty:
  assumes "events \<noteq> []" and "normalize_event_timestamps E events floor = Inr (ts, evs)"
    and "stage_events E first base 0 lc lt evs = Inr (stored, writes, lc', lt')"
  shows "stored \<noteq> []"
  using assms(1) normalized_events(1) [OF assms(2)] stage_events_shape [OF assms(3)] by auto

lemma calm_append: "events \<noteq> [] \<Longrightarrow> calm (prepare_append E os au t events updates state cas)"
proof -
  assume ne: "events \<noteq> []"
  have updates: "calm (apply_updates E os cas n ts t (if stored = [] then None else Some (last stored)) 0 prev
      (bt_modify t f (cs_threads state)) updates)"
    if "load_previous_snapshots E os cas state root added 0 [] updates = Inr prev"
      and "normalize_event_timestamps E events floor = Inr (ts', evs)"
      and "stage_events E first base 0 lc lt evs = Inr (stored, writes, lc', lt')"
    for root added prev floor ts' evs first base lc lt stored writes lc' lt' n ts f
  proof -
    note l = previous_loaded [OF that(1)]
    have "stored \<noteq> []" by (rule staged_nonempty [OF ne that(2,3)])
    with l show ?thesis by (intro calm_updates) auto
  qed
  show ?thesis
    unfolding prepare_append_def by (intro calm_intro calm_expect updates; (assumption | simp add: result_iff))
qed

lemma calm_append_events: "calm_op (append_events E os au t events updates)"
  unfolding append_events_def by (intro calm_intro calm_append) (simp add: op_iff result_iff)

lemma calm_create_chain: "calm_op (create_chain E os au x)"
  unfolding create_chain_def check_root_identity_def normalize_root_snapshot_def genesis_state_def by (intro calm_intro)

lemma calm_add_thread: "calm_op (add_thread_to_chain E os au x)"
  unfolding add_thread_to_chain_def check_new_thread_def prepare_add_thread_def by (intro calm_intro)

lemma calm_create_with_events: "calm_op (create_chain_with_events E os au x events)"
  unfolding create_chain_with_events_def check_root_identity_def normalize_root_snapshot_def genesis_state_def
    root_events_state_def cache_insert_def
  by (intro calm_intro calm_batch)

lemma calm_add_with_events: "calm_op (add_thread_to_chain_with_events E os au x events)"
proof -
  have "calm (prepare_add_thread_with_events E os au x events state)" if "events \<noteq> []" for state
    unfolding prepare_add_thread_with_events_def
    by (intro calm_intro calm_expect) (auto dest: staged_nonempty [OF that])
  then show ?thesis
    unfolding add_thread_to_chain_with_events_def check_new_thread_def by (intro calm_intro) (simp add: op_iff result_iff)
qed

lemma calm_add_and_append: "calm_op (add_thread_with_events_and_append E os au x events t events' updates)"
proof -
  have updates: "calm (apply_updates E os cas n ts t (if stored @ stored' = [] then None else Some (last (stored @ stored'))) 0 prev
      (bt_modify t f (bt_insert t' entry (cs_threads state))) updates)"
    if "load_previous_snapshots E os cas state root added 0 [] updates = Inr prev" and "events \<noteq> []"
      and "normalize_event_timestamps E events floor = Inr (ts', evs)"
      and "stage_events E first base 0 lc lt evs = Inr (stored, writes, lc', lt')"
    for cas state root added prev floor ts' evs first base lc lt stored stored' writes lc' lt' n ts f t' entry
    using previous_loaded [OF that(1)] staged_nonempty [OF that(2-4)] by (intro calm_updates) auto
  have "calm (prepare_add_and_append E os au x events t events' updates state cas)" if ne: "events \<noteq> []" for state cas
  proof -
    have index: "(if n - 1 < length (stored @ stored') then Some ((stored @ stored') ! (n - 1)) else None) \<noteq> None"
      if "normalize_event_timestamps E events floor = Inr (ts, evs)" and "u64_try_from (length evs) = Inr n"
        and "stage_events E first base 0 lc lt evs = Inr (stored, writes, lc', lt')"
      for floor ts evs n first base lc lt stored stored' writes lc' lt'
    proof -
      have "n = length stored" using that(2) stage_events_shape [OF that(3)] by (simp add: result_iff)
      with staged_nonempty [OF ne that(1,3)] show ?thesis by (cases stored) auto
    qed
    show ?thesis
      unfolding prepare_add_and_append_def Let_def
      by (intro calm_intro calm_expect index updates ne; (assumption | simp add: result_iff))
  qed
  then show ?thesis
    unfolding add_thread_with_events_and_append_def check_new_thread_def by (intro calm_intro) (simp add: op_iff result_iff)
qed

lemma calm_read_snapshot: "calm_op (read_thread_snapshot E os au t)"
  unfolding read_thread_snapshot_def cache_invalidate_def cached_head_state_def by (intro calm_intro)

section \<open>The properties\<close>

text \<open>
  C14: the validator of history never panics, whatever bytes the store holds: each of its
  \<open>expect\<close> calls is preceded by a check that makes the value present.
\<close>

theorem validator_never_panics:
  "validate_authoritative_history E cas root target ancestor \<noteq> Inl (Panic m)"
  using calm_history [of E cas root target ancestor] by (simp add: calm_def)


end
