(* ===== verification/Abstract_Log.thy ===== *)
theory Abstract_Log
  imports Chain_Invariant
begin

text \<open>
  The abstract specification of the authority: for every chain an append-only log. A step
  leaves the logs alone, starts one, appends to one or drops one. The concrete store implements it:
  the log of a chain is the sequence of states that its verified head names.
\<close>

section \<open>The specification\<close>

type_synonym logs = "string \<Rightarrow> string list option"

inductive log_step :: "logs \<Rightarrow> logs \<Rightarrow> bool" where
  keep: "log_step logs logs"
| start: "\<lbrakk> logs c = None; log \<noteq> [] \<rbrakk> \<Longrightarrow> log_step logs (logs(c \<mapsto> log))"
| append: "\<lbrakk> logs c = Some log; ext \<noteq> [] \<rbrakk> \<Longrightarrow> log_step logs (logs(c \<mapsto> log @ ext))"
| drop: "log_step logs (logs(c := None))"

inductive_cases log_stepE: "log_step logs logs'"

text \<open>A system whose steps are log steps, seen through a view of its state.\<close>

locale log_refinement =
  fixes step :: "'s \<Rightarrow> 's \<Rightarrow> bool" and inv :: "'s \<Rightarrow> bool" and view :: "'s \<Rightarrow> logs"
  assumes keeps_inv: "step s t \<Longrightarrow> inv s \<Longrightarrow> inv t"
    and refines: "step s t \<Longrightarrow> inv s \<Longrightarrow> log_step (view s) (view t)"
begin

lemma run_refines: "step\<^sup>*\<^sup>* s t \<Longrightarrow> inv s \<Longrightarrow> log_step\<^sup>*\<^sup>* (view s) (view t) \<and> inv t"
proof (induction rule: rtranclp_induct)
  case (step t u)
  then show ?case using keeps_inv refines by (meson rtranclp.rtrancl_into_rtrancl)
qed simp

lemma step_grows:
  assumes "step s t" and "inv s" and "view s c = Some log" and "view t c = Some log'"
  shows "\<exists>ext. log' = log @ ext"
proof -
  have "log_step (view s) (view t)" by (rule refines [OF assms(1,2)])
  then show ?thesis by cases (use assms(3,4) in \<open>auto split: if_splits\<close>)
qed

end

section \<open>The view of the store\<close>

definition chain_log :: "'z lib_env_scheme \<Rightarrow> trust_store \<Rightarrow> store \<Rightarrow> logs" where
  "chain_log E trust s c =
     (case head_target E trust c s of
        None \<Rightarrow> None
      | Some h \<Rightarrow>
          (case collect_history E (st_cas s) c [] (Some h) [] of
             Inl e \<Rightarrow> None
           | Inr newest_to_oldest \<Rightarrow> Some (rev newest_to_oldest)))"

lemma collected:
  assumes "validate_authoritative_history E cas c h a = Inr ()"
  obtains states where "collect_history E cas c [] (Some h) [] = Inr (rev (map fst states))"
    "state_chain E cas c states" "last_hash states = Some h" "\<And>x. a = Some x \<Longrightarrow> x \<in> fst ` set states"
proof -
  obtain states events where a: "accepted_history E cas c states events" "last_hash states = Some h"
      "\<forall>x. a = Some x \<longrightarrow> x \<in> fst ` set states"
    using assms unfolding history_iff by blast
  then have sc: "state_chain E cas c states" by (simp add: accepted_history_def)
  have "collect_history E cas c [] (Some h) [] = Inr (rev (map fst states))"
    using collect_history_complete [OF sc, of "[]" "[]"] a(2) by simp
  then show thesis using sc a(2,3) by (intro that) auto
qed

lemma chain_log_valid:
  assumes "heads_valid E trust s" and "head_target E trust c s = Some h"
  obtains states where "chain_log E trust s c = Some (map fst states)" "state_chain E (st_cas s) c states" "last_hash states = Some h"
proof -
  have "validate_authoritative_history E (st_cas s) c h None = Inr ()"
    using assms by (auto simp: heads_valid_def good_head_def head_target_def split: sum.splits option.splits)
  then show thesis
    by (rule collected) (use assms(2) in \<open>auto intro!: that simp: chain_log_def rev_map\<close>)
qed

lemma chain_log_none: "head_target E trust c s = None \<Longrightarrow> chain_log E trust s c = None"
  by (simp add: chain_log_def)

lemma chain_log_same_head:
  assumes "heads_valid E trust s" and "map_of (st_cas s) \<subseteq>\<^sub>m map_of (st_cas s')"
    and "map_of (st_heads s') c = map_of (st_heads s) c"
  shows "chain_log E trust s' c = chain_log E trust s c"
proof -
  have t: "head_target E trust c s' = head_target E trust c s"
    using read_verified_head_cong [OF assms(3), of E trust] by (simp add: head_target_def)
  show ?thesis
  proof (cases "head_target E trust c s")
    case (Some h)
    from chain_log_valid [OF assms(1) Some] obtain states where st: "chain_log E trust s c = Some (map fst states)"
        "state_chain E (st_cas s) c states" "last_hash states = Some h" by blast
    have "collect_history E (st_cas s') c [] (last_hash states) [] = Inr ([] @ rev (map fst states))"
      by (rule collect_history_complete [OF state_chain_mono [OF st(2) assms(2)]]) simp
    then have "chain_log E trust s' c = Some (map fst states)"
      using st(3) t Some by (simp add: chain_log_def rev_map)
    with st(1) show ?thesis by simp
  qed (use t in \<open>simp add: chain_log_none\<close>)
qed

section \<open>Every step is a log step\<close>

lemma published_log:
  assumes valid: "heads_valid E trust s" and sub: "map_of (st_cas s) \<subseteq>\<^sub>m map_of (st_cas s')"
    and new: "head_target E trust c s' = Some h'" and old: "head_target E trust c s = Some h"
    and hist: "validate_authoritative_history E (st_cas s') c h' (Some h) = Inr ()"
  obtains log ext where "chain_log E trust s c = Some log" "chain_log E trust s' c = Some (log @ ext)"
proof -
  obtain states where st: "collect_history E (st_cas s') c [] (Some h') [] = Inr (rev (map fst states))"
      "state_chain E (st_cas s') c states" "h \<in> fst ` set states"
    by (rule collected [OF hist]) blast
  from chain_log_valid [OF valid old] obtain before where b: "chain_log E trust s c = Some (map fst before)"
      "state_chain E (st_cas s) c before" "last_hash before = Some h" by blast
  obtain i where i: "i < length states" "fst (states ! i) = h" using st(3) by (auto simp: in_set_conv_nth)
  have "take (Suc i) states = before"
    by (rule state_chain_unique [OF state_chain_take [OF st(2)] state_chain_mono [OF b(2) sub]])
      (use i b(3) in \<open>simp_all add: last_hash_take_Suc\<close>)
  then have "states = before @ drop (Suc i) states" by (metis append_take_drop_id)
  then have "map fst states = map fst before @ map fst (drop (Suc i) states)" by (metis map_append)
  moreover have "chain_log E trust s' c = Some (map fst states)" using new st(1) by (simp add: chain_log_def rev_map)
  ultimately show thesis using b(1) by (intro that) simp_all
qed

lemma authority_log_step:
  assumes laws: "laws E" and valid: "heads_valid E trust s" and step: "authority_step E trust s s'"
  shows "log_step (chain_log E trust s) (chain_log E trust s')"
  using laws valid step
proof (rule authority_step_cases)
  fix c assume e: "extends E trust c s s'"
  then have sub: "map_of (st_cas s) \<subseteq>\<^sub>m map_of (st_cas s')" by (simp add: extends_def)
  have others: "chain_log E trust s' d = chain_log E trust s d" if "d \<noteq> c" for d
    by (rule chain_log_same_head [OF valid sub]) (use e that in \<open>simp add: extends_def\<close>)
  have upd: "chain_log E trust s' = (chain_log E trust s)(c := chain_log E trust s' c)" using others by auto
  show ?thesis
  proof (cases "map_of (st_heads s') c = map_of (st_heads s) c")
    case True
    then have "chain_log E trust s' = chain_log E trust s" using upd chain_log_same_head [OF valid sub True] by simp
    then show ?thesis by (simp add: log_step.keep)
  next
    case moved: False
    then have p: "publishes E trust c s s'" using e by (simp add: extends_def)
    show ?thesis
    proof (cases "head_target E trust c s'")
      case None
      then show ?thesis using upd log_step.drop [of _ c] by (metis chain_log_none)
    next
      case (Some h')
      then have hist: "validate_authoritative_history E (st_cas s') c h' (head_target E trust c s) = Inr ()"
        using p by (auto simp: publishes_def head_target_def split: sum.splits option.splits)
      have "heads_valid E trust s'" by (rule step_keeps_heads_valid [OF laws valid step])
      then obtain states :: state_log where log': "chain_log E trust s' c = Some (map fst states)" "states \<noteq> []"
        by (rule chain_log_valid [OF _ Some]) (use state_chain_nonempty in blast)
      show ?thesis
      proof (cases "head_target E trust c s")
        case None
        then show ?thesis using log' log_step.start [of "chain_log E trust s" c "map fst states"] upd by (simp add: chain_log_none)
      next
        case (Some h)
        obtain log ext where l: "chain_log E trust s c = Some log" "chain_log E trust s' c = Some (log @ ext)"
          by (rule published_log [OF valid sub \<open>head_target E trust c s' = Some h'\<close> Some]) (use hist Some in auto)
        then show ?thesis
          using upd log_step.append [of "chain_log E trust s" c log ext] log_step.keep [of "chain_log E trust s"]
          by (cases "ext = []") (auto simp: fun_upd_idem)
      qed
    qed
  qed
next
  fix c assume s': "s' = s\<lparr> st_heads := bt_remove c (st_heads s) \<rparr>"
  have "chain_log E trust s' c = None"
    by (simp add: chain_log_def head_target_def read_verified_head_def read_verified_ref_def s')
  moreover have "chain_log E trust s' d = chain_log E trust s d" if "d \<noteq> c" for d
    using that by (intro chain_log_same_head [OF valid]) (simp_all add: s')
  ultimately have "chain_log E trust s' = (chain_log E trust s)(c := None)" by auto
  then show ?thesis by (simp add: log_step.drop)
qed

interpretation authority_log: log_refinement "authority_step E trust" "\<lambda>s. laws E \<and> heads_valid E trust s" "chain_log E trust"
proof
  show "laws E \<and> heads_valid E trust t" if "authority_step E trust s t" "laws E \<and> heads_valid E trust s" for s t
    using that step_keeps_heads_valid by blast
  show "log_step (chain_log E trust s) (chain_log E trust t)" if "authority_step E trust s t" "laws E \<and> heads_valid E trust s" for s t
    using that authority_log_step by blast
qed

end
