(* ===== verification/Cache_Coherence.thy ===== *)
theory Cache_Coherence
  imports Chain_Progress
begin

text \<open>
  The head cache is transparent: every entry is a state that loads from the objects under the
  hash it is cached with, and a reader that finds one returns what it would have read without.
\<close>

section \<open>Coherence\<close>

definition coherent :: "'z lib_env_scheme \<Rightarrow> store \<Rightarrow> bool" where
  "coherent E s \<longleftrightarrow>
     (\<forall>c k. cache_get c s = Some k \<longrightarrow> load_hashed_chain_state E (st_cas s) (cached_hash k) = Inr (cached_state k))"

definition keeps_coherent :: "'z lib_env_scheme \<Rightarrow> store \<Rightarrow> store \<Rightarrow> bool" where
  "keeps_coherent E s s' \<longleftrightarrow> (coherent E s \<longrightarrow> coherent E s')"

lemma keeps_coherent_simps [simp]: "keeps_coherent E s s" "keeps_coherent E a b \<Longrightarrow> keeps_coherent E b c \<Longrightarrow> keeps_coherent E a c"
  by (auto simp: keeps_coherent_def)

lemma keeps_coherent_bind [intro]:
  "op_keeps (keeps_coherent E) m \<Longrightarrow> (\<And>x. op_keeps (keeps_coherent E) (f x)) \<Longrightarrow> op_keeps (keeps_coherent E) (op_bind m f)"
  by (rule op_keeps_bind) (auto intro: keeps_coherent_simps)

lemma same_cache_coherent:
  "st_cache s' = st_cache s \<Longrightarrow> map_of (st_cas s) \<subseteq>\<^sub>m map_of (st_cas s') \<Longrightarrow> keeps_coherent E s s'"
  using load_hashed_mono(3) [THEN result_leD] unfolding keeps_coherent_def coherent_def cache_get_def by metis

lemma coherent_update [simp]:
  "op_keeps (keeps_coherent E) (op_update (\<lambda>s. s\<lparr> st_pending := f s \<rparr>))"
  "op_keeps (keeps_coherent E) (op_update (\<lambda>s. s\<lparr> st_heads := f s \<rparr>))"
  "op_keeps (keeps_coherent E) (cache_invalidate c)" "op_keeps (keeps_coherent E) cache_clear"
  by (auto simp: op_keeps_def op_update_def same_cache_coherent cache_invalidate_def cache_clear_def)
    (auto simp: keeps_coherent_def coherent_def cache_get_def)

lemma coherent_insert:
  assumes "coherent E s" and "load_hashed_chain_state E (st_cas s) h = Inr state"
  shows "coherent E (snd (cache_insert c h state s))"
  using assms by (auto simp: coherent_def cache_get_def cache_insert_def op_update_def)

lemma coherent_option [intro]:
  "op_keeps (keeps_coherent E) m \<Longrightarrow> (\<And>x. op_keeps (keeps_coherent E) (f x)) \<Longrightarrow>
    op_keeps (keeps_coherent E) (case o' of None \<Rightarrow> m | Some x \<Rightarrow> f x)"
  by (simp split: option.split)

lemma journal_coherent [simp]:
  "op_keeps (keeps_coherent E) (write_pending E os i p b)" "op_keeps (keeps_coherent E) (prepare_set E os clock l c e t)"
  "op_keeps (keeps_coherent E) (advance_phase E os l c x p1 p2)" "op_keeps (keeps_coherent E) (prepare_remove E os clock l c e')"
  "op_keeps (keeps_coherent E) (replace_remove_with_published_set E os clock l c x t)" "op_keeps (keeps_coherent E) (acknowledge E os l c x)"
proof -
  show w: "op_keeps (keeps_coherent E) (write_pending E os i p b)" for i p b
    unfolding write_pending_def by (intro keeps_coherent_bind) simp_all
  show "op_keeps (keeps_coherent E) (prepare_set E os clock l c e t)" "op_keeps (keeps_coherent E) (prepare_remove E os clock l c e')"
    "op_keeps (keeps_coherent E) (replace_remove_with_published_set E os clock l c x t)" "op_keeps (keeps_coherent E) (acknowledge E os l c x)"
    unfolding prepare_set_def prepare_remove_def replace_remove_with_published_set_def acknowledge_def Let_def
    by (auto intro!: keeps_coherent_bind w split: option.split head_operation.split)
  show "op_keeps (keeps_coherent E) (advance_phase E os l c x p1 p2)"
    unfolding advance_phase_def Let_def by (intro keeps_coherent_bind) (simp_all add: w)
qed

lemma publish_coherent [simp]: "op_keeps (keeps_coherent E) (publish_chain_head E os clock au expected target ts)"
  unfolding publish_chain_head_def write_signed_head_def by (auto intro!: keeps_coherent_bind)

lemma remove_coherent [simp]: "op_keeps (keeps_coherent E) (remove_head os c)"
proof -
  have "keeps_coherent E s (snd (remove_head os c s))" for s
    using remove_head_effect [OF prod.collapse [symmetric], of os c s] by (auto intro!: same_cache_coherent)
  then show ?thesis by (simp add: op_keeps_def)
qed

lemma batch_coherent [simp]: "op_keeps (keeps_coherent E) (write_cas_batch os writes)"
proof -
  have "keeps_coherent E s (snd (write_cas_batch os writes s))" for s
    using write_cas_batch_effect [OF prod.collapse [symmetric], of os writes s] by (auto intro!: same_cache_coherent)
  then show ?thesis by (simp add: op_keeps_def)
qed

lemma read_head_coherent [simp]: "op_keeps (keeps_coherent E) (read_chain_head_for_mutation E os i au)"
proof -
  have "coherent E s'" if "coherent E s" "read_chain_head_for_mutation E os i au s = (r, s')" for s r s'
    using that read_head_state_ok(2) coherent_insert [OF that(1)]
    unfolding read_chain_head_for_mutation_def by (fastforce simp: op_iff cache_insert_def op_update_def)
  then show ?thesis by (metis keeps_coherent_def op_keeps_def prod.collapse)
qed

lemma read_snapshot_coherent [simp]: "op_keeps (keeps_coherent E) (read_thread_snapshot E os au t)"
  unfolding read_thread_snapshot_def by (auto intro!: keeps_coherent_bind split: option.split)

lemma publish_same_objects:
  assumes "publish_chain_head E os clock au expected target ts s = (r, s')"
  shows "st_cas s' = st_cas s"
proof -
  let ?same = "\<lambda>s s'. st_cas s' = st_cas s"
  have p: "op_keeps ?same (prepare_set E os clock l c e t)" for l c e t
    using prepare_set_authority [of E os clock l c e t] by (simp add: op_keeps_def same_authority_def)
  have a: "op_keeps ?same (advance_phase E os l c x p1 p2)" for l c x p1 p2
    using advance_phase_authority [of E os l c x p1 p2] by (simp add: op_keeps_def same_authority_def)
  have w: "op_keeps ?same (write_signed_head E os c ref sg)" for c ref sg
  proof -
    have "st_cas (snd (write_signed_head E os c ref sg s)) = st_cas s" for s
      using write_signed_head_effect [OF prod.collapse [symmetric], of E os c ref sg s] by auto
    then show ?thesis by (simp add: op_keeps_def)
  qed
  have "op_keeps ?same (publish_chain_head E os clock au expected target ts)"
    unfolding publish_chain_head_def by (intro op_keeps_bind p w) (auto intro!: op_keeps_bind a)
  from op_keepsD [OF this assms] show ?thesis .
qed

section \<open>The writers\<close>

lemma commit_coherent:
  assumes env: "env_ok E" and c: "coherent E s" and run: "commit_closure E os clock au writes expected state s = (r, s')"
    and st: "\<And>cas. map_of (st_cas s) \<subseteq>\<^sub>m map_of cas \<Longrightarrow> stored_in writes cas \<Longrightarrow>
      storable_state E state \<and> state_write E state \<in> set writes"
  shows "coherent E s'"
proof -
  obtain r1 s1 where batch: "write_cas_batch os writes s = (r1, s1)" by fastforce
  note s1 = op_keepsD [OF batch_coherent [of E] batch]
  obtain cas where cas: "s1 = s\<lparr> st_cas := cas \<rparr>" "map_of (st_cas s) \<subseteq>\<^sub>m map_of cas" "r1 = Inr () \<longrightarrow> stored_in writes cas"
    using write_cas_batch_effect [OF batch] by blast
  obtain r2 s2 where pub: "publish_chain_head E os clock au expected (hash_chain_state E state) (cs_updated_at state) s1 = (r2, s2)"
    by fastforce
  note s2 = op_keepsD [OF publish_coherent pub]
  have coh: "coherent E s1" "coherent E s2" using c s1 s2 by (auto simp: keeps_coherent_def)
  have "coherent E (snd (cache_insert (au_chain_root_id au) (hash_chain_state E state) state s2))" if "r1 = Inr ()"
  proof (rule coherent_insert [OF coh(2)])
    have stored: "stored_in writes cas" using cas(3) that by simp
    note w = st [OF cas(2) stored]
    have "st_cas s2 = st_cas s1" by (rule publish_same_objects [OF pub])
    then have "map_of (st_cas s2) (hash_chain_state E state) = Some (canonical_json E (state_to_value state))"
      using stored w cas(1) by (force simp: stored_in_def state_write_def Let_def hash_chain_state_def)
    then show "load_hashed_chain_state E (st_cas s2) (hash_chain_state E state) = Inr state"
      by (rule load_state_stored [OF env conjunct1 [OF w]])
  qed
  then show ?thesis using run batch pub coh
    by (cases r1) (auto simp: commit_closure_def op_bind_eq cache_insert_def op_update_def)
qed

lemma mutation_coherent:
  assumes laws: "laws E" and c: "coherent E s"
    and run: "op_bind (read_chain_head_for_mutation E os i au) (\<lambda>current.
      op_bind (op_read (\<lambda>s. prep current (st_cas s))) (\<lambda>(writes, state, result).
      op_bind (commit_closure E os clock au writes (cs_prev_chain_state_hash state) state) (\<lambda>_. op_lift (Inr result)))) s = (r, s')"
    and legal: "prepares_successor E au s prep"
  shows "coherent E s'"
proof -
  have env: "env_ok E" using laws by (simp add: laws_def)
  obtain r1 s1 where h: "read_chain_head_for_mutation E os i au s = (r1, s1)" by fastforce
  have c1: "coherent E s1" using op_keepsD [OF read_head_coherent h] c by (simp add: keeps_coherent_def)
  have cas: "st_cas s1 = st_cas s" using op_keepsD [OF read_chain_head_authority h] by (simp add: same_authority_def)
  from run consider "s' = s1"
    | old writes new res r2 where "r1 = Inr old" "prep old (st_cas s) = Inr (writes, new, res)"
        "commit_closure E os clock au writes (cs_prev_chain_state_hash new) new s1 = (r2, s')"
    unfolding op_bind_eq [of "read_chain_head_for_mutation _ _ _ _"] h by (auto simp: op_iff cas)
  then show ?thesis
  proof cases
    case (2 old writes new res r2)
    obtain hash where hd: "read_head_state E os i au s = Inr (hash, old)"
      using h 2(1) unfolding read_chain_head_for_mutation_def by (auto simp: op_iff)
    note ok = read_head_state_ok [OF hd]
    have wf: "state_wf old" using loaded_state_wf [OF _ ok(2)] env by (simp add: env_ok_def)
    have "storable_state E new \<and> state_write E new \<in> set writes"
      if "map_of (st_cas s) \<subseteq>\<^sub>m map_of cas" "stored_in writes cas" for cas
      using legal ok(4) wf 2(2) that state_storable [of new E] unfolding prepares_successor_def legal_successor_def by blast
    then show ?thesis by (intro commit_coherent [OF env c1 2(3)]) (use cas in auto)
  qed (use c1 in simp)
qed

lemma guard_coherent:
  assumes "op_bind (op_lift x) f s = (r, s')" and "coherent E s" and "\<And>u. x = Inr u \<Longrightarrow> f u s = (r, s') \<Longrightarrow> coherent E s'"
  shows "coherent E s'"
  using assms by (auto simp: op_bind_eq op_lift_eq)

lemma guard_unit_coherent:
  assumes "op_bind (op_lift x) f s = (r, s')" and "coherent E s" and "x = Inr () \<Longrightarrow> f () s = (r, s') \<Longrightarrow> coherent E s'"
  shows "coherent E s'"
  using assms by (auto simp: op_bind_eq op_lift_eq)

lemma read_guard_coherent:
  assumes "op_bind (op_read g) f s = (r, s')" and "coherent E s" and "\<And>u. g s = Inr u \<Longrightarrow> f u s = (r, s') \<Longrightarrow> coherent E s'"
  shows "coherent E s'"
  using assms by (auto simp: op_bind_eq op_read_eq)

lemma add_thread_to_chain_coherent:
  assumes "laws E" and "coherent E s" and "encodable_snapshot E x" and "add_thread_to_chain E os au x s = (r, s')"
  shows "coherent E s'"
  using assms(4) unfolding add_thread_to_chain_def op_lift_read [of "prepare_add_thread _ _ _ _ _"]
  by (elim guard_unit_coherent [OF _ assms(2)]) (erule mutation_coherent [OF assms(1,2) _ add_thread_prepares [OF assms(1,3)]])

lemma append_events_coherent:
  assumes "laws E" and "coherent E s" and "\<forall>e \<in> set events. encodable_event E e"
    and "\<forall>u \<in> set us. encodable_snapshot E (upd_new_snapshot u)" and "append_events E os au tid events us s = (r, s')"
  shows "coherent E s'"
  using assms(5) unfolding append_events_def
  by (elim guard_unit_coherent [OF _ assms(2)])
    (erule mutation_coherent [OF assms(1,2) _ append_prepares [OF assms(1) _ assms(3,4)]], simp add: require_eq_Inr)

lemma add_thread_to_chain_with_events_coherent:
  assumes "laws E" and "coherent E s" and "encodable_snapshot E x" and "\<forall>e \<in> set events. encodable_event E e"
    and "add_thread_to_chain_with_events E os au x events s = (r, s')"
  shows "coherent E s'"
  using assms(5) unfolding add_thread_to_chain_with_events_def op_lift_read [of "prepare_add_thread_with_events _ _ _ _ _ _"]
  by (elim guard_unit_coherent [OF _ assms(2)])
    (erule mutation_coherent [OF assms(1,2) _ add_with_events_prepares [OF assms(1,3) _ assms(4)]], simp_all add: require_eq_Inr)

lemma add_thread_with_events_and_append_coherent:
  assumes "laws E" and "coherent E s" and "encodable_snapshot E x"
    and "\<forall>e \<in> set nevs. encodable_event E e" and "\<forall>e \<in> set xevs. encodable_event E e"
    and "\<forall>u \<in> set us. encodable_snapshot E (upd_new_snapshot u)"
    and "add_thread_with_events_and_append E os au x nevs xt xevs us s = (r, s')"
  shows "coherent E s'"
  using assms(7) unfolding add_thread_with_events_and_append_def
  by (elim guard_unit_coherent [OF _ assms(2)])
    (erule mutation_coherent [OF assms(1,2) _ add_and_append_prepares [OF assms(1,3) _ _ assms(4,5) _ _ assms(6)]],
      simp_all add: require_eq_Inr)

lemma create_chain_coherent:
  assumes laws: "laws E" and c: "coherent E s" and x: "encodable_snapshot E x" and "create_chain E os au x s = (r, s')"
  shows "coherent E s'"
  using assms(4) unfolding create_chain_def
proof (elim guard_unit_coherent [OF _ c] guard_coherent [OF _ c] read_guard_coherent [OF _ c])
  fix sn state
  assume run: "op_bind (commit_closure E os (os_clock os 1) au [snapshot_write E sn, state_write E state] None state)
      (\<lambda>_. op_lift (Inr \<lparr> cr_chain_state_hash = hash_chain_state E state, cr_snapshot_hash = hash_snapshot E sn,
        cr_snapshot = sn, cr_events = [] \<rparr>)) s = (r, s')"
    and id: "check_root_identity au x = Inr ()" and g: "genesis_state E (os_clock os 0) au sn = Inr state"
  have utf8: "valid_utf8 (au_chain_root_id au)"
    using encodable_snapshot_thread_id [OF x] id by (simp add: check_root_identity_def require_eq_Inr)
  note n = prospective_state_ok [OF g [unfolded genesis_state_def]]
  have "state_wf state" using n(1,4,5) utf8 by (simp add: state_wf_def genesis_entry_def bt_sorted_def)
  then have st: "storable_state E state" using n(6) by (rule state_storable)
  from run obtain r1 where com: "commit_closure E os (os_clock os 1) au [snapshot_write E sn, state_write E state] None state s = (r1, s')"
    by (auto simp: op_bind_eq op_lift_eq)
  show ?thesis by (rule commit_coherent [OF _ c com]) (use laws st in \<open>simp_all add: laws_def\<close>)
qed

lemma root_events_storable:
  assumes "encodable_snapshot E x" and "check_root_identity au x = Inr ()"
    and "root_events_state E clock au sn genesis events = Inr (stored, writes, state)"
  shows "storable_state E state"
proof -
  have utf8: "valid_utf8 (au_chain_root_id au)"
    using encodable_snapshot_thread_id [OF assms(1)] assms(2) by (simp add: check_root_identity_def require_eq_Inr)
  obtain ts and evs :: "thread_event list" and lh where n: "length evs < u64_bound"
      "prospective_state E clock [ts, cs_updated_at genesis] (au_chain_root_id au) (Some (hash_chain_state E genesis)) lh (length evs)
        [(au_chain_root_id au, \<lparr> entry_snapshot_hash = hash_snapshot E sn, entry_last_event_hash = lh,
           entry_last_thread_seq = length evs, entry_status = snap_status sn \<rparr>)] = Inr state"
    using assms(3) by (auto simp: root_events_state_def result_iff Let_def)
  note p = prospective_state_ok [OF n(2)]
  have "state_wf state" using p(1,4,5) utf8 n(1) by (simp add: state_wf_def bt_sorted_def)
  then show ?thesis using p(6) by (rule state_storable)
qed

lemma create_chain_with_events_coherent:
  assumes laws: "laws E" and c: "coherent E s" and x: "encodable_snapshot E x"
    and "create_chain_with_events E os au x events s = (r, s')"
  shows "coherent E s'"
  using assms(4) unfolding create_chain_with_events_def
proof (elim guard_unit_coherent [OF _ c] guard_coherent [OF _ c] read_guard_coherent [OF _ c])
  let ?c = "au_chain_root_id au"
  fix sn genesis and p :: "thread_event list \<times> (string \<times> string) list \<times> chain_state"
  assume id: "check_root_identity au x = Inr ()" and g: "root_events_state E (os_clock os 1) au sn genesis events = Inr p"
    and run: "(case p of (stored, writes, state) \<Rightarrow>
      op_bind (write_cas_batch os ([snapshot_write E sn, state_write E genesis] @ writes @ [state_write E state])) (\<lambda>_.
      op_bind (op_lift (os_call os HistoryRoot)) (\<lambda>_.
      op_bind (op_read (\<lambda>s. validate_authoritative_history E (st_cas s) ?c (hash_chain_state E state)
        (Some (hash_chain_state E genesis)))) (\<lambda>_.
      op_bind (publish_chain_head E os (os_clock os 2) au None (hash_chain_state E state) (cs_updated_at state)) (\<lambda>_.
      op_bind (cache_insert ?c (hash_chain_state E state) state) (\<lambda>_.
      op_lift (Inr \<lparr> at_chain_state_hash = hash_chain_state E state, at_snapshot_hash = hash_snapshot E sn,
        at_snapshot = sn, at_first_chain_seq = 1, at_event_count = length stored, at_events = stored,
        at_snapshot_updates = [] \<rparr>)))))) ) s = (r, s')"
  obtain stored writes state where p: "p = (stored, writes, state)" by (cases p)
  let ?ws = "[snapshot_write E sn, state_write E genesis] @ writes @ [state_write E state]"
  have st: "storable_state E state" by (rule root_events_storable [OF x id g [unfolded p]])
  obtain r1 s1 where batch: "write_cas_batch os ?ws s = (r1, s1)" by fastforce
  obtain cas where cas: "s1 = s\<lparr> st_cas := cas \<rparr>" "r1 = Inr () \<longrightarrow> stored_in ?ws cas"
    using write_cas_batch_effect [OF batch] by blast
  obtain r2 s2 where pub: "publish_chain_head E os (os_clock os 2) au None (hash_chain_state E state) (cs_updated_at state) s1 = (r2, s2)"
    by fastforce
  have coh: "coherent E s1" "coherent E s2"
    using c op_keepsD [OF batch_coherent [of E] batch] op_keepsD [OF publish_coherent pub] by (auto simp: keeps_coherent_def)
  have "coherent E (snd (cache_insert ?c (hash_chain_state E state) state s2))" if "r1 = Inr ()"
  proof (rule coherent_insert [OF coh(2)])
    have "map_of (st_cas s2) (hash_chain_state E state) = Some (canonical_json E (state_to_value state))"
      using cas that publish_same_objects [OF pub] by (simp add: state_write_def Let_def hash_chain_state_def)
    with st laws show "load_hashed_chain_state E (st_cas s2) (hash_chain_state E state) = Inr state"
      by (intro load_state_stored) (simp_all add: laws_def)
  qed
  then show ?thesis using coh pub
    run [unfolded p prod.case op_bind_eq [of "write_cas_batch _ _"] batch]
    by (auto simp: op_bind_eq op_lift_eq op_read_eq cache_insert_def op_update_def)
qed

section \<open>Runs\<close>

lemma step_coherent:
  assumes "laws E" and "coherent E s" and "authority_step E trust s s'"
  shows "coherent E s'"
  using assms(3)
proof cases
  case (create au x os r)
  then show ?thesis using create_chain_coherent [OF assms(1,2)] by blast
next
  case (create_events au x os events r)
  then show ?thesis using create_chain_with_events_coherent [OF assms(1,2)] by blast
next
  case (append au events us os tid r)
  then show ?thesis using append_events_coherent [OF assms(1,2)] by blast
next
  case (add au x os r)
  then show ?thesis using add_thread_to_chain_coherent [OF assms(1,2)] by blast
next
  case (add_events au x events os r)
  then show ?thesis using add_thread_to_chain_with_events_coherent [OF assms(1,2)] by blast
next
  case (add_append au x nevs xevs us os xt r)
  then show ?thesis using add_thread_with_events_and_append_coherent [OF assms(1,2)] by blast
qed (use assms(2) read_snapshot_coherent journal_coherent remove_coherent batch_coherent coherent_update(4)
    in \<open>metis keeps_coherent_def op_keepsD\<close>)+

interpretation cached: invariant_system "authority_step E trust" "\<lambda>s. laws E \<and> heads_valid E trust s \<and> coherent E s" cas_grows
proof
  show "laws E \<and> heads_valid E trust t \<and> coherent E t"
    if "authority_step E trust s t" "laws E \<and> heads_valid E trust s \<and> coherent E s" for s t
    using that step_keeps_heads_valid step_coherent by blast
  show "cas_grows s t" if "authority_step E trust s t" "laws E \<and> heads_valid E trust s \<and> coherent E s" for s t
    using that step_cas_grows by blast
  show "cas_grows s u" if "cas_grows s t" "cas_grows t u" for s t u
    using that by (auto simp: cas_grows_def intro: map_le_trans)
qed (simp add: cas_grows_def)

section \<open>Reading through the cache\<close>

text \<open>The reader as a function of what it sees: the head, the cache entry and the objects.\<close>

definition head_state_of :: "'z lib_env_scheme \<Rightarrow> os \<Rightarrow> authority \<Rightarrow> signed_ref \<Rightarrow> store \<Rightarrow> chain_state result" where
  "head_state_of E os au r s =
     (case cache_get (au_chain_root_id au) s of
        Some k \<Rightarrow> if cached_hash k = ref_target_hash r then cached_head_state E au (ref_target_hash r) (cached_state k)
          else ebind (read_head_state E os 1 au s) (\<lambda>(h, state). Inr state)
      | None \<Rightarrow> ebind (read_head_state E os 1 au s) (\<lambda>(h, state). Inr state))"

lemma ebind_assoc: "ebind (ebind r f) g = ebind r (\<lambda>x. ebind (f x) g)"
  by (cases r) simp_all

lemma fst_bind:
  "fst (op_bind (op_lift x) f s) = ebind x (\<lambda>y. fst (f y s))" "fst (op_bind (op_read g) f s) = ebind (g s) (\<lambda>y. fst (f y s))"
  by (cases x; simp add: op_bind_def op_lift_def) (cases "g s"; simp add: op_bind_def op_read_def)

lemma fst_bind_head:
  assumes "\<And>state c. fst (f state (s\<lparr> st_cache := c \<rparr>)) = fst (f state s)"
  shows "fst (op_bind (read_chain_head_for_mutation E os i au) f s) =
    ebind (read_head_state E os i au s) (\<lambda>(h, state). fst (f state s))"
  using assms
  by (cases "read_head_state E os i au s")
    (auto simp: read_chain_head_for_mutation_def cache_insert_def op_bind_def op_read_def op_update_def op_lift_def)

lemma fst_read_snapshot:
  "fst (read_thread_snapshot E os au t s) =
     ebind (validate_chain_root_id (au_chain_root_id au)) (\<lambda>_.
     ebind (ensure_protects os 0 (au_lock_chain au) (au_chain_root_id au)) (\<lambda>_.
     ebind (os_call os (HeadRead 0)) (\<lambda>_.
     ebind (read_verified_head E (au_trust au) (au_lock_chain au) s) (\<lambda>head.
     case head of None \<Rightarrow> Inr None
     | Some r \<Rightarrow> ebind (head_state_of E os au r s) (\<lambda>state.
         if map_of (cs_threads state) t = None then Inr None
         else ebind (read_current_snapshot_for_mutation E os 1 (st_cas s) state t) (\<lambda>snapshot. Inr (Some snapshot)))))))"
proof -
  have inval: "fst (op_bind (cache_invalidate c) (\<lambda>_. op_lift (Inr None)) s) = Inr None" for c
    by (simp add: cache_invalidate_def op_bind_def op_update_def op_lift_def)
  have tail: "fst ((if map_of (cs_threads state) t = None then op_lift (Inr None)
         else op_read (\<lambda>s. ebind (read_current_snapshot_for_mutation E os 1 (st_cas s) state t) (\<lambda>snapshot. Inr (Some snapshot)))) s1)
      = (if map_of (cs_threads state) t = None then Inr None
         else ebind (read_current_snapshot_for_mutation E os 1 (st_cas s1) state t) (\<lambda>snapshot. Inr (Some snapshot)))" for state s1
    by (simp add: op_lift_def op_read_def)
  show ?thesis
    unfolding read_thread_snapshot_def fst_bind head_state_of_def
    by (rule ebind_cong [OF refl])+
      (auto simp: fst_bind inval tail fst_bind_head ebind_assoc case_prod_unfold split: option.split intro!: ebind_cong)
qed

lemma head_state_cached:
  assumes valid: "heads_valid E (au_trust au) s" and coh: "coherent E s" and os: "healthy os"
    and lock: "au_lock_chain au = au_chain_root_id au"
    and r: "read_verified_head E (au_trust au) (au_chain_root_id au) s = Inr (Some r)"
  shows "head_state_of E os au r s = ebind (read_head_state E os 1 au s) (\<lambda>(h, state). Inr state)"
proof (cases "cache_get (au_chain_root_id au) s")
  case (Some k)
  show ?thesis
  proof (cases "cached_hash k = ref_target_hash r")
    case True
    have load: "load_hashed_chain_state E (st_cas s) (ref_target_hash r) = Inr (cached_state k)"
      using coh Some True by (metis coherent_def)
    then obtain v where v: "get_object E (st_cas s) (ref_target_hash r) = Inr (Some v)" "state_decode v = Inr (cached_state k)"
        "hash_chain_state E (cached_state k) = ref_target_hash r"
      by (auto simp: load_hashed_chain_state_def load_hashed_def result_iff hash_chain_state_def split: if_splits)
    have "validate_authoritative_history E (st_cas s) (au_chain_root_id au) (ref_target_hash r) None = Inr ()"
      using valid r by (simp add: heads_valid_def good_head_def)
    then have st: "cs_chain_root_id (cached_state k) = au_chain_root_id au" "validate_state E (cached_state k) = Inr ()"
        "validate_chain_positions E (cached_state k) = Inr ()"
      using load by (auto simp: validate_authoritative_history_def validate_authoritative_closure_def result_iff)
    have "read_head_state E os 1 au s = Inr (ref_target_hash r, cached_state k)"
      using os lock r v st by (simp add: read_head_state_def read_cas_object_def ensure_lock_protects_def)
    then show ?thesis using Some True st v(3) by (simp add: head_state_of_def cached_head_state_def)
  qed (simp add: head_state_of_def Some)
qed (simp add: head_state_of_def)

lemma cached_read_agrees:
  assumes "heads_valid E (au_trust au) s" and "coherent E s" and "healthy os"
  shows "fst (read_thread_snapshot E os au t s) = fst (read_thread_snapshot E os au t (s\<lparr> st_cache := [] \<rparr>))"
proof (cases "au_lock_chain au = au_chain_root_id au")
  case True
  have "head_state_of E os au r (s\<lparr> st_cache := [] \<rparr>) = head_state_of E os au r s"
    if "read_verified_head E (au_trust au) (au_chain_root_id au) s = Inr (Some r)" for r
    unfolding head_state_cached [OF assms True that]
    by (simp add: head_state_of_def cache_get_def read_head_state_def read_verified_head_def)
  moreover have "read_verified_head E (au_trust au) c (s\<lparr> st_cache := [] \<rparr>) = read_verified_head E (au_trust au) c s" for c
    by (simp add: read_verified_head_def)
  ultimately show ?thesis unfolding fst_read_snapshot by (auto intro!: ebind_cong split: option.split simp: True)
next
  case False
  then show ?thesis unfolding fst_read_snapshot by (simp add: ensure_protects_def ensure_lock_protects_def)
qed

lemma reachable_coherent:
  assumes "laws E" and "(authority_step E trust)\<^sup>*\<^sup>* empty_store s"
  shows "heads_valid E trust s \<and> coherent E s"
proof -
  have "coherent E empty_store" by (simp add: coherent_def cache_get_def empty_store_def)
  then show ?thesis using cached.run_keeps [OF assms(2)] assms(1) empty_store_valid by blast
qed

end
