(* ===== verification/Spec2Isabelle.thy ===== *)
theory Spec2Isabelle
  imports Sample_Append Append_Laws History_Laws Panic_Freedom Abstract_Log Cache_Coherence
begin

text \<open>
  \<^bold>\<open>The authoritative state of RyeOS.\<close>

  RyeOS keeps the history of every execution as a chain of signed, content-addressed objects. This
  development models the code that owns that history (the crate \<open>ryeos-state\<close> and the part of
  \<open>lillux\<close> below it) and proves what makes it correct.

  \<^bold>\<open>Parts and how they interact.\<close> Thread events, thread snapshots and chain states are JSON values;
  their canonical encoding is what is hashed and stored (\<open>lillux/src/cas.rs\<close>). A chain state names its
  predecessor, its last event and one entry per thread. The head of a chain is a signed reference to a
  chain state (\<open>refs.rs\<close>). Writers (\<open>chain.rs\<close>) prepare new objects, store them in one batch, record the
  intended head in a journal (\<open>recovery.rs\<close>), write the head and advance the journal. A validator
  (\<open>chain/validation.rs\<close>) re-checks a whole history from a head; readers go through a cache of
  head states (\<open>head_cache.rs\<close>).

  \<^bold>\<open>Theories.\<close>
  \<^item> \<open>Rust_Prelude\<close>: results with bail, I/O, decode and panic errors, checked \<open>u64\<close> addition, bytes, UTF-8, the
    record \<open>lib_env\<close> of what third-party libraries compute; \<open>Ordered_Map\<close>: a map interface as a locale and
    sorted association lists (\<open>BTreeMap\<close>) as its instance.
  \<^item> \<open>Canonical_Json\<close> (\<open>lillux/src/cas.rs\<close>): the canonical encoder and content addresses. \<open>Json_Codec\<close>: what serde does
    with struct fields. \<open>Timestamps\<close>, \<open>Calendar\<close> (\<open>lillux/src/time.rs\<close>, \<open>thread_snapshot.rs\<close>): rendering and
    parsing of times against a calendar that counts years and months one by one.
  \<^item> \<open>Project_Authority\<close> (\<open>objects/execution_project_authority.rs\<close>), \<open>Thread_Snapshot\<close>, \<open>Snapshot_Codec\<close>
    (\<open>objects/thread_snapshot.rs\<close>), \<open>Chain_Objects\<close> (\<open>objects/thread_event.rs\<close>, \<open>objects/chain_state.rs\<close>): the records,
    their wire forms and their validation.
  \<^item> \<open>Cas_Store\<close> (\<open>lillux/src/cas.rs\<close>): objects as a map from addresses to bytes, verified reads, batch
    writes; codecs that read back what they stored, as a locale with one instance per object type.
  \<^item> \<open>Chain_Validation\<close> (\<open>chain/validation.rs\<close>): closure of one state, the walk over predecessors, transitions,
    normalization of prospective objects. \<open>Event_Log\<close>, \<open>State_History\<close>: the declarative
    definitions the validator decides.
  \<^item> \<open>Signed_Refs\<close> (\<open>refs.rs\<close>, \<open>signer.rs\<close>, \<open>head_cache.rs\<close>), \<open>Recovery_Journal\<close> (\<open>recovery.rs\<close>), \<open>Chain_Ops\<close> (\<open>chain.rs\<close>):
    operations on the store, in the order the code has them.
  \<^item> \<open>Chain_Writers\<close>: what each writer prepares is a legal successor. \<open>Chain_Invariant\<close>: every step
    of the authority, failing or not, keeps all heads valid. \<open>Chain_Progress\<close>: with a working environment
    the writers succeed. \<open>Append_Laws\<close>, \<open>History_Laws\<close>, \<open>Panic_Freedom\<close>, \<open>Cache_Coherence\<close>: positions
    and rejections, monotonicity and commitment, absence of panics, transparency of the cache.
    \<open>Abstract_Log\<close>: the specification as append-only logs and the refinement.
  \<^item> \<open>Sample_Env\<close>, \<open>Sample_Chain\<close>, \<open>Sample_Append\<close>: an executable environment (a JSON reader, a digest, a
    signature scheme, a calendar) and a chain created and extended in it, on which the witnesses rest.

  \<^bold>\<open>State.\<close> The record \<open>store\<close> holds the objects, the head files, the journal files and the head cache.
  An operation is a function from a store to a result and a store, so that an error still shows what
  was written before it. Every call to the operating system asks the record \<open>os\<close> whether it fails; the
  theorems quantify over it, which covers a crash after any write.

  \<^bold>\<open>What is assumed.\<close> Code outside the repository is a parameter: SHA-256, base64, Ed25519, the number
  printer, \<open>serde_json\<close> and \<open>chrono\<close> are fields of \<open>lib_env\<close>. \<open>json_parser\<close> says that the reader returns what the
  canonical writer wrote and well-formed values only; \<open>env_ok\<close> that digests are 64 lower-case hexadecimal
  characters; \<open>laws\<close> adds that base64 text is UTF-8; \<open>calendar_parser\<close> that dates are read by the calendar;
  \<open>signer_works\<close> that signatures verify. Nothing assumes that SHA-256 is injective: the batch write
  verifies what it finds, and where two stores are compared a collision is exhibited
  (\<open>stores_collide\<close>). Callers hand over values that the codec reads back (\<open>encodable_event\<close>,
  \<open>encodable_snapshot\<close>); the first finding of the manifest shows why this is a condition.

  \<^bold>\<open>Bounds and termination.\<close> Sequence numbers are natural numbers with the 64-bit check of the code at every
  addition. The walk over events is bounded by the chain position, the walk over states by the
  number of stored objects, since it refuses a visited hash; both are total functions without fuel.

  \<^bold>\<open>Not modelled.\<close> File-system details below one call (directory descriptors, rename, fsync), process
  locks beyond the check of the protected chain, SQLite projections and their rebuild, garbage
  collection, synchronization, the engine, daemon, runtimes and clients. They are I/O, concurrency or
  other programs; the manifest lists them.
\<close>

section \<open>The store\<close>



text \<open>
  C2: history is append-only: when a step leaves a chain with a verified head before and after,
  the history of the new head is accepted and contains the state the old head named.
\<close>

theorem heads_move_forward:
  assumes "laws E" and "(authority_step E trust)\<^sup>*\<^sup>* empty_store s" and "authority_step E trust s s'"
    and "read_verified_head E trust c s = Inr (Some old)" and "read_verified_head E trust c s' = Inr (Some new)"
  shows "validate_authoritative_history E (st_cas s') c (ref_target_hash new) (Some (ref_target_hash old)) = Inr ()"
proof -
  have valid: "heads_valid E trust s" by (rule reachable_valid [OF assms(1,2)])
  have own: "validate_authoritative_history E (st_cas s') c (ref_target_hash new) (Some (ref_target_hash new)) = Inr ()"
    using step_keeps_heads_valid [OF assms(1) valid assms(3)] assms(5)
    by (intro history_own_ancestor) (simp add: heads_valid_def good_head_def)
  show ?thesis
  proof (cases "map_of (st_heads s') c = map_of (st_heads s) c")
    case True
    then have "new = old" using assms(4,5) read_verified_head_cong [OF True, of E trust] by simp
    then show ?thesis using own by simp
  next
    case False
    have "head_target E trust c s = Some (ref_target_hash old)" using assms(4) by (simp add: head_target_def)
    moreover from assms(1) valid assms(3) have "publishes E trust c s s'"
    proof (rule authority_step_cases)
      fix d assume "extends E trust d s s'"
      then show ?thesis using False by (metis extends_def)
    next
      fix d assume "s' = s\<lparr> st_heads := bt_remove d (st_heads s) \<rparr>"
      then have "map_of (st_heads s') c = None" using False by (auto split: if_splits)
      then show ?thesis using assms(5) by (simp add: read_verified_head_def read_verified_ref_def)
    qed
    ultimately show ?thesis using assms(5) unfolding publishes_def by metis
  qed
qed

theorem heads_move_forward_witness:
  "\<exists>r. read_verified_head sample_env sample_trust ''T-1'' sample_store = Inr (Some r)
     \<and> validate_authoritative_history sample_env (st_cas (snd (read_thread_snapshot sample_env sample_os sample_authority ''T-1'' sample_store)))
         ''T-1'' (ref_target_hash r) (Some (ref_target_hash r)) = Inr ()"
proof (rule sample_head)
  let ?s = "snd (read_thread_snapshot sample_env sample_os sample_authority ''T-1'' sample_store)"
  fix r assume r: "read_verified_head sample_env sample_trust ''T-1'' sample_store = Inr (Some r)"
  have step: "authority_step sample_env sample_trust sample_store ?s"
    by (rule authority_step.read [OF prod.collapse [symmetric]])
  have "same_authority sample_store ?s" 
    by (rule op_keepsD [OF read_thread_snapshot_authority prod.collapse [symmetric]])
  then have "read_verified_head sample_env sample_trust ''T-1'' ?s = Inr (Some r)"
    using r by (simp add: same_authority_def read_verified_head_def)
  from heads_move_forward [OF sample_laws sample_reachable step r this] r show ?thesis by blast
qed

text \<open>
  C3: the journal is written ahead: whenever a step changes a head to one that verifies, the
  recovery journal holds a pending Set of that chain which names the previous head and the new one.
\<close>

theorem heads_are_journalled:
  assumes "laws E" and "(authority_step E trust)\<^sup>*\<^sup>* empty_store s" and "authority_step E trust s s'"
    and "map_of (st_heads s') c \<noteq> map_of (st_heads s) c" and "read_verified_head E trust c s' = Inr (Some new)"
  shows "\<exists>p. journalled E c p s' \<and> pend_operation p = OpSet
    \<and> pend_expected_previous_hash p = head_target E trust c s \<and> pend_target_hash p = Some (ref_target_hash new)"
proof -
  have valid: "heads_valid E trust s" by (rule reachable_valid [OF assms(1,2)])
  from assms(1) valid assms(3) have "publishes E trust c s s'"
  proof (rule authority_step_cases)
    fix d assume "extends E trust d s s'"
    then show ?thesis using assms(4) by (metis extends_def)
  next
    fix d assume "s' = s\<lparr> st_heads := bt_remove d (st_heads s) \<rparr>"
    then have "map_of (st_heads s') c = None" using assms(4) by (auto split: if_splits)
    then show ?thesis using assms(5) by (simp add: read_verified_head_def read_verified_ref_def)
  qed
  then show ?thesis using assms(5) unfolding publishes_def by blast
qed

theorem heads_are_journalled_witness:
  "\<exists>p r. read_verified_head sample_env sample_trust ''T-1'' sample_store = Inr (Some r)
     \<and> journalled sample_env ''T-1'' p sample_store \<and> pend_operation p = OpSet
     \<and> pend_expected_previous_hash p = None \<and> pend_target_hash p = Some (ref_target_hash r)"
proof (rule sample_created)
  fix cr assume c: "create_chain sample_env sample_os sample_authority sample_root empty_store = (Inr cr, sample_store)"
  have au: "au_trust sample_authority = sample_trust" by (simp add: sample_authority_def)
  show ?thesis
  proof (rule sample_head)
    fix r assume r: "read_verified_head sample_env sample_trust ''T-1'' sample_store = Inr (Some r)"
    then have "map_of (st_heads sample_store) ''T-1'' \<noteq> map_of (st_heads empty_store) ''T-1''"
      by (cases "map_of (st_heads sample_store) ''T-1''") (simp_all add: read_verified_head_def read_verified_ref_def empty_store_def)
    moreover have "head_target sample_env sample_trust ''T-1'' empty_store = None"
      by (simp add: head_target_def read_verified_head_def read_verified_ref_def empty_store_def)
    ultimately show ?thesis
      using heads_are_journalled [OF sample_laws rtranclp.rtrancl_refl authority_step.create [OF au sample_encodable c] _ r] r
      by auto
  qed
qed





text \<open>
  C8: the validator of history decides the declarative definition: it accepts a target exactly
  when there is a sequence of stored states, oldest first, each valid and naming its
  predecessor, that ends in the target, begins with a valid genesis, steps only legally, and
  contains the expected ancestor.
\<close>

theorem history_validator_exact:
  "validate_authoritative_history E cas root target ancestor = Inr () \<longleftrightarrow>
     (\<exists>states events. accepted_history E cas root states events \<and> last_hash states = Some target
        \<and> (\<forall>h. ancestor = Some h \<longrightarrow> h \<in> fst ` set states))"
  by (rule history_iff)

theorem history_validator_exact_witness:
  "\<exists>h states events. accepted_history sample_env (st_cas sample_store) ''T-1'' states events \<and> last_hash states = Some h"
proof (rule sample_head)
  fix r assume "validate_authoritative_history sample_env (st_cas sample_store) ''T-1'' (ref_target_hash r) None = Inr ()"
  then show ?thesis unfolding history_validator_exact by blast
qed

text \<open>
  C9: the closure check decides the declarative definition: a chain state passes exactly when
  it is valid, its positions are those of one log of stored events, linked by hash and without
  gaps both per chain and per thread, and every thread's snapshot is stored, valid and points
  into that log.
\<close>

theorem closure_validator_exact:
  assumes "bt_sorted (cs_threads state)"
  shows "validate_authoritative_closure E cas state = Inr events \<longleftrightarrow>
     validate_state E state = Inr () \<and> validate_chain_positions E state = Inr ()
     \<and> (\<exists>log. closed_log E cas state log \<and> events = log_positions log [])
     \<and> (\<forall>(t, entry) \<in> set (cs_threads state). snapshot_closed E cas state events t entry)"
  by (rule closure_iff [OF assms])

theorem closure_validator_exact_witness:
  "\<exists>state log. closed_log sample_env (st_cas sample_store) state log"
proof (rule sample_head)
  fix r assume v: "validate_authoritative_history sample_env (st_cas sample_store) ''T-1'' (ref_target_hash r) None = Inr ()"
  then obtain state events where s: "load_hashed_chain_state sample_env (st_cas sample_store) (ref_target_hash r) = Inr state"
      "validate_authoritative_closure sample_env (st_cas sample_store) state = Inr events"
    by (auto simp: validate_authoritative_history_def ebind_eq_Inr)
  have "bt_sorted (cs_threads state)" using loaded_state_wf [OF sample_json_parser s(1)] by (simp add: state_wf_def)
  from closure_validator_exact [OF this] s(2) show ?thesis by blast
qed



section \<open>History\<close>

text \<open>
  C10: a chain only grows: between a state and an accepted descendant the root stays, the chain
  position and the time do not go back, no thread disappears or loses events, and a thread that
  reached a terminal status keeps that status and its snapshot for ever.
\<close>

theorem history_is_monotone:
  assumes "validate_authoritative_history E cas root target (Some ancestor) = Inr ()"
    and "load_hashed_chain_state E cas ancestor = Inr old" and "load_hashed_chain_state E cas target = Inr new"
  shows "cs_chain_root_id new = cs_chain_root_id old \<and> cs_last_chain_seq old \<le> cs_last_chain_seq new
    \<and> instant E (cs_updated_at old) \<le> instant E (cs_updated_at new)
    \<and> (\<forall>t e. map_of (cs_threads old) t = Some e \<longrightarrow>
         (\<exists>e'. map_of (cs_threads new) t = Some e' \<and> entry_last_thread_seq e \<le> entry_last_thread_seq e'
           \<and> (is_terminal (entry_status e) \<longrightarrow>
                entry_status e' = entry_status e \<and> entry_snapshot_hash e' = entry_snapshot_hash e)))"
  using history_keeps [OF assms] by (simp add: state_kept_def entry_kept_def)

theorem history_is_monotone_witness:
  "\<exists>cas. cs_last_chain_seq sample_genesis \<le> cs_last_chain_seq sample_successor
     \<and> validate_authoritative_history sample_env cas ''T-1'' (hash_chain_state sample_env sample_successor)
         (Some (hash_chain_state sample_env sample_genesis)) = Inr ()"
proof (rule sample_advanced)
  fix cas assume s: "validate_authoritative_history sample_env cas ''T-1'' (hash_chain_state sample_env sample_successor)
      (Some (hash_chain_state sample_env sample_genesis)) = Inr ()"
    "load_hashed_chain_state sample_env cas (hash_chain_state sample_env sample_genesis) = Inr sample_genesis"
    "load_hashed_chain_state sample_env cas (hash_chain_state sample_env sample_successor) = Inr sample_successor"
  from history_is_monotone [OF s] s(1) show ?thesis by blast
qed

text \<open>
  C12: no event is lost or counted twice: in every state that passes the closure check the
  positions of the threads add up to the position of the chain.
\<close>

theorem thread_positions_add_up:
  assumes "json_parser E" and "load_hashed_chain_state E cas h = Inr s"
    and "validate_authoritative_closure E cas s = Inr events"
  shows "sum_list (map (entry_last_thread_seq \<circ> snd) (cs_threads s)) = cs_last_chain_seq s"
proof -
  have sorted: "bt_sorted (cs_threads s)" using loaded_state_wf [OF assms(1,2)] by (simp add: state_wf_def)
  then obtain log where "closed_log E cas s log" using assms(3) unfolding closure_iff [OF sorted] by blast
  then show ?thesis using bt_sorted_distinct [OF sorted] by (rule closed_log_shares)
qed

theorem thread_positions_add_up_witness:
  "\<exists>h s. load_hashed_chain_state sample_env (st_cas sample_store) h = Inr s
     \<and> sum_list (map (entry_last_thread_seq \<circ> snd) (cs_threads s)) = cs_last_chain_seq s"
proof (rule sample_head)
  fix r assume "validate_authoritative_history sample_env (st_cas sample_store) ''T-1'' (ref_target_hash r) None = Inr ()"
  then obtain s events where s: "load_hashed_chain_state sample_env (st_cas sample_store) (ref_target_hash r) = Inr s"
      "validate_authoritative_closure sample_env (st_cas sample_store) s = Inr events"
    by (auto simp: validate_authoritative_history_def ebind_eq_Inr)
  from thread_positions_add_up [OF sample_json_parser s] s(1) show ?thesis by blast
qed

text \<open>
  C11: a head commits to its whole history: two stores that both accept the target of a head
  accept the same sequence of states and the same log of events, unless they hold different
  bytes with the same digest.
\<close>

theorem head_commits_to_history:
  assumes "\<not> stores_collide E cas cas'" and "json_parser E"
    and "validate_authoritative_history E cas root target None = Inr ()"
    and "validate_authoritative_history E cas' root target None = Inr ()"
  shows "\<exists>states events. last_hash states = Some target
    \<and> accepted_history E cas root states events \<and> accepted_history E cas' root states events"
  using assms by (rule history_commits)

theorem head_commits_to_history_witness:
  "\<exists>h states events. last_hash states = Some h \<and> accepted_history sample_env (st_cas sample_store) ''T-1'' states events"
proof (rule sample_head)
  fix r assume v: "validate_authoritative_history sample_env (st_cas sample_store) ''T-1'' (ref_target_hash r) None = Inr ()"
  have "\<not> stores_collide sample_env (st_cas sample_store) (st_cas sample_store)" by (simp add: stores_collide_def)
  from head_commits_to_history [OF this sample_json_parser v v] show ?thesis by blast
qed



section \<open>Appending\<close>



text \<open>
  C18: the positions of appended events are consecutive: the events returned by \<open>append_events\<close>
  carry the chain positions that follow the head's and the thread positions that follow the
  thread's, one each, and all of them fit in 64 bits.
\<close>

theorem appended_positions:
  assumes "append_events E os au tid events us s = (Inr res, s')"
  shows "\<exists>h old entry. read_head_state E os 0 au s = Inr (h, old) \<and> map_of (cs_threads old) tid = Some entry
    \<and> ar_first_chain_seq res = cs_last_chain_seq old + 1 \<and> length (ar_events res) = length events
    \<and> cs_last_chain_seq old + length events < 2 ^ 64 \<and> entry_last_thread_seq entry + length events < 2 ^ 64
    \<and> map ev_chain_seq (ar_events res) = [cs_last_chain_seq old + 1 ..< cs_last_chain_seq old + 1 + length events]
    \<and> map ev_thread_seq (ar_events res) = [entry_last_thread_seq entry + 1 ..< entry_last_thread_seq entry + 1 + length events]"
proof -
  have bound: "u64_bound = 2 ^ 64" by simp
  show ?thesis unfolding bound [symmetric] by (rule append_eventsD [OF assms]) blast
qed

theorem appended_positions_witness:
  "map ev_chain_seq (ar_events sample_append_result) = [1] \<and> map ev_thread_seq (ar_events sample_append_result) = [1]"
proof -
  obtain s' where a: "append_events sample_env sample_os sample_authority ''T-1'' [sample_event] [] sample_idle = (Inr sample_append_result, s')"
    by (rule sample_appended)
  from appended_positions [OF this] show ?thesis
    by (auto simp: sample_head_state sample_genesis_def genesis_entry_def)
qed

text \<open>
  C19: positions never wrap: a batch that would take the chain position to \<open>2 ^ 64\<close> or beyond is
  rejected, and objects, heads and journal stay as they were.
\<close>

theorem exhausted_sequence_rejected:
  assumes "read_head_state E os 0 au s = Inr (h, old)" and "2 ^ 64 \<le> cs_last_chain_seq old + length events"
  shows "\<exists>e s'. append_events E os au tid events us s = (Inl e, s') \<and> st_cas s' = st_cas s
    \<and> st_heads s' = st_heads s \<and> st_pending s' = st_pending s"
proof (rule append_unprepared [OF assms(1)])
  show "prepare_append E os au tid events us old (st_cas s) \<noteq> Inr r" for r
    by (rule append_exhausted [OF assms(1)]) (use assms(2) in simp)
qed

theorem exhausted_sequence_rejected_witness:
  "\<exists>e s'. append_events sample_env sample_os sample_authority ''T-1'' (replicate (2 ^ 64) sample_event) [] sample_idle = (Inl e, s')
     \<and> st_heads s' = st_heads sample_idle"
proof -
  have "(2::nat) ^ 64 \<le> cs_last_chain_seq sample_genesis + length (replicate (2 ^ 64) sample_event)"
    unfolding length_replicate by simp
  from exhausted_sequence_rejected [OF sample_head_state this, of "''T-1''" "[]"] show ?thesis by blast
qed

text \<open>
  C17: every writer checks its caller: with the lock of another chain, or a signer whose key the
  trust store does not hold under its fingerprint, it fails and leaves the whole store alone.
\<close>

theorem writers_check_authority:
  assumes "\<not> (au_lock_chain au = au_chain_root_id au \<and> ensure_signer_trusted E (au_signer au) (au_trust au) = Inr ())"
  shows "(\<exists>e. create_chain E os au x s = (Inl e, s))
    \<and> (\<exists>e. create_chain_with_events E os au x events s = (Inl e, s))
    \<and> (\<exists>e. append_events E os au t events updates s = (Inl e, s))
    \<and> (\<exists>e. add_thread_to_chain E os au x s = (Inl e, s))
    \<and> (\<exists>e. add_thread_to_chain_with_events E os au x events s = (Inl e, s))
    \<and> (\<exists>e. add_thread_with_events_and_append E os au x events t events' updates s = (Inl e, s))"
proof -
  have "\<not> authorized E au" using assms by (simp add: authorized_def)
  note refused = unauthorized_refused [OF this, unfolded refused_def] guard_refused [unfolded refused_def]
  show ?thesis unfolding writer_defs by (intro conjI refused)
qed

theorem writers_check_authority_witness:
  "\<exists>e. create_chain sample_env sample_os (sample_authority\<lparr> au_lock_chain := ''T-2'' \<rparr>) sample_root empty_store = (Inl e, empty_store)"
proof -
  have "\<not> (au_lock_chain (sample_authority\<lparr> au_lock_chain := ''T-2'' \<rparr>) = au_chain_root_id (sample_authority\<lparr> au_lock_chain := ''T-2'' \<rparr>)
      \<and> ensure_signer_trusted sample_env (au_signer (sample_authority\<lparr> au_lock_chain := ''T-2'' \<rparr>))
          (au_trust (sample_authority\<lparr> au_lock_chain := ''T-2'' \<rparr>)) = Inr ())"
    by (simp add: sample_authority_def)
  from writers_check_authority [OF this] show ?thesis by blast
qed

text \<open>
  C20: the times of a batch never go back: after normalization the events carry canonical
  times that start at the floor and ascend, nothing but the time of an event changes, and a batch
  whose times already ascend is left as it is.
\<close>

theorem event_times_ascend:
  assumes "normalize_event_timestamps E events floor = Inr (final, normalized)"
  shows "sorted (map (instant E) (floor # map ev_ts normalized)) \<and> final = last (floor # map ev_ts normalized)
    \<and> length normalized = length events
    \<and> (\<forall>i < length events. \<exists>ts. canonical_ts E ts \<and> normalized ! i = (events ! i)\<lparr> ev_ts := ts \<rparr>)
    \<and> (sorted (map (instant E) (floor # map ev_ts events)) \<longrightarrow> normalized = events)"
proof -
  note n = normalize_event_timestamps_ok [OF assms]
  from clamp_events_ok [OF n(2,1)] clamp_events_fixed [OF n(2)] show ?thesis by blast
qed

theorem event_times_ascend_witness:
  "sorted (map (instant sample_env) [''2023-11-14T22:13:20Z'', ev_ts sample_event])"
  using event_times_ascend [OF sample_normalized_event] by simp

text \<open>
  C21: writer and validator agree on snapshot updates: what \<open>normalize_and_validate_snapshot_transition\<close>
  returns passes the check that the validator of history makes on a published update, and differs
  from what the caller passed in its times only.
\<close>

theorem normalized_update_is_legal:
  assumes "normalize_and_validate_snapshot_transition E previous new append_time = Inr published"
    and "validate_snapshot E previous = Inr ()"
  shows "validate_historical_snapshot_transition E previous published (Some append_time) = Inr ()
    \<and> (\<exists>u a b. published = new\<lparr> snap_updated_at := u, snap_started_at := a, snap_finished_at := b \<rparr>)"
  using normalize_transition_ok [OF assms] by blast

theorem normalized_update_is_legal_witness:
  "\<exists>published. normalize_and_validate_snapshot_transition sample_env sample_root
       (sample_root\<lparr> snap_status := Running, snap_started_at := Some ''2023-11-14T22:13:20Z'' \<rparr>) ''2023-11-14T22:13:20Z'' = Inr published
     \<and> validate_historical_snapshot_transition sample_env sample_root published (Some ''2023-11-14T22:13:20Z'') = Inr ()"
proof -
  let ?new = "sample_root\<lparr> snap_status := Running, snap_started_at := Some ''2023-11-14T22:13:20Z'' \<rparr>"
  have v: "validate_snapshot sample_env sample_root = Inr ()"
    by (rule normalize_new_thread_ok(2) [OF sample_normalized [unfolded normalize_root_snapshot_def Let_def]])
  have n: "normalize_and_validate_snapshot_transition sample_env sample_root ?new ''2023-11-14T22:13:20Z'' = Inr ?new"
    by code_simp
  from normalized_update_is_legal [OF n v] n show ?thesis by blast
qed

section \<open>Objects, heads and journal\<close>



text \<open>
  C23: a head is authenticated: a reference that verifies as the head of a chain is signed, over
  its path, its target and its time, by a key of the trust store, and its path is that of the
  chain, so the reference of another chain never passes.
\<close>

theorem heads_are_authenticated:
  assumes "read_verified_head E trust c s = Inr (Some r)"
  shows "\<exists>key sig. map_of trust (ref_signer r) = Some key \<and> base64_decode E (ref_signature r) = Some sig \<and> length sig = 64
    \<and> ed25519_verify E key (canonical_json E (without_signature r)) sig
    \<and> ref_path r = ''chains/'' @ c @ ''/head'' \<and> canonical_cas_hash (ref_target_hash r)"
  using assms
  by (auto simp: read_verified_head_def read_verified_ref_def verify_signed_ref_def result_iff head_ref_path_def split: option.splits)

theorem heads_are_authenticated_witness:
  "\<exists>r key. read_verified_head sample_env sample_trust ''T-1'' sample_store = Inr (Some r)
     \<and> map_of sample_trust (ref_signer r) = Some key \<and> ref_path r = ''chains/T-1/head''"
proof (rule sample_head)
  fix r assume r: "read_verified_head sample_env sample_trust ''T-1'' sample_store = Inr (Some r)"
  from heads_are_authenticated [OF r] r show ?thesis by auto
qed

text \<open>
  C24: a written head reads back: when a working, trusted signer writes the head of a chain, the
  reader that trusts it finds the reference with that target and time.
\<close>

theorem written_head_reads_back:
  fixes au :: authority
  assumes "laws E" and "signer_works E (au_signer au)" and "ensure_signer_trusted E (au_signer au) (au_trust au) = Inr ()"
    and "canonical_cas_hash target" and "canonical_ts E time" and "valid_utf8 (au_chain_root_id au)"
    and "write_signed_head E os (au_chain_root_id au)
      (signed_ref_new (head_ref_path (au_chain_root_id au)) target time (signer_fingerprint (au_signer au))) (au_signer au) s = (Inr (), s')"
  shows "\<exists>r. read_verified_head E (au_trust au) (au_chain_root_id au) s' = Inr (Some r)
    \<and> ref_target_hash r = target \<and> ref_updated_at r = time"
proof -
  obtain bytes where b: "encode_signed_ref E (au_signer au) (head_ref au target time) = Inr bytes"
      "read_verified_ref E (au_trust au) (Some bytes) = Inr (Some (signed_head E au target time))"
    by (rule encode_head [OF assms(1-6)])
  have "st_heads s' = bt_insert (au_chain_root_id au) bytes (st_heads s)"
    using assms(7) b(1) by (auto simp: write_signed_head_def op_iff head_ref_def)
  then have "read_verified_head E (au_trust au) (au_chain_root_id au) s' = Inr (Some (signed_head E au target time))"
    using b(2) by (simp add: read_verified_head_def)
  then show ?thesis by (simp add: signed_head_def head_ref_def signed_ref_new_def)
qed

theorem written_head_reads_back_witness:
  "\<exists>r s'. read_verified_head sample_env sample_trust ''T-1'' s' = Inr (Some r) \<and> ref_target_hash r = hash_chain_state sample_env sample_genesis"
proof -
  have au: "au_trust sample_authority = sample_trust" "au_chain_root_id sample_authority = ''T-1''"
    by (simp_all add: sample_authority_def)
  have m: "signer_works sample_env (au_signer sample_authority)"
    "ensure_signer_trusted sample_env (au_signer sample_authority) (au_trust sample_authority) = Inr ()"
    "valid_utf8 (au_chain_root_id sample_authority)" "healthy sample_os"
    using sample_may_publish by (simp_all add: may_publish_def)
  have t: "canonical_cas_hash (hash_chain_state sample_env sample_genesis)" by (simp add: hash_chain_state_def)
  obtain bytes where "encode_signed_ref sample_env (au_signer sample_authority)
      (head_ref sample_authority (hash_chain_state sample_env sample_genesis) ''2023-11-14T22:13:20Z'') = Inr bytes"
    by (rule encode_head [OF sample_laws m(1,2) t sample_clock(2) m(3)])
  then obtain s' where "write_signed_head sample_env sample_os (au_chain_root_id sample_authority)
      (signed_ref_new (head_ref_path (au_chain_root_id sample_authority)) (hash_chain_state sample_env sample_genesis)
        ''2023-11-14T22:13:20Z'' (signer_fingerprint (au_signer sample_authority))) (au_signer sample_authority) empty_store = (Inr (), s')"
    using m(4) by (simp add: write_signed_head_def op_bind_run head_ref_def)
  from written_head_reads_back [OF sample_laws m(1,2) t sample_clock(2) m(3) this] show ?thesis unfolding au by blast
qed

text \<open>
  C26: a journal record reads back: after \<open>write_pending\<close> succeeded, \<open>read_pending\<close> returns the
  record as it was written.
\<close>

theorem journal_round_trip:
  assumes "json_parser E" and "valid_utf8 (pend_transition_id p)" and "valid_utf8 (pend_chain_root_id p)"
    and "write_pending E os i p replaces s = (Inr (), s')" and "os_call os (PendingRead j) = Inr ()"
  shows "read_pending E os j (pend_chain_root_id p) s' = Inr (Some p)"
proof -
  have v: "validate_pending E p = Inr ()" using assms(4) by (auto simp: write_pending_def op_iff)
  have "journalled E (pend_chain_root_id p) p s'"
    using write_pending_effect [OF assms(4,1)] assms(2,3) by (auto simp: pending_typed_def)
  moreover have "validate_chain_root_id (pend_chain_root_id p) = Inr ()" using v by (auto simp: validate_pending_def result_iff)
  ultimately show ?thesis using assms(5) by (auto simp: read_pending_def journalled_def)
qed

theorem journal_round_trip_witness:
  "read_pending sample_env sample_os 0 ''T-1'' sample_recorded = Inr (Some sample_record)"
  using journal_round_trip [OF sample_json_parser _ _ sample_recorded_write, of 0] sample_record_ok(1,3)
  by (simp add: pending_typed_def)

text \<open>
  C27: a journal record advances one phase at a time: \<open>advance_phase\<close> succeeds only on the record
  with the given identifier in the given phase, from Prepared to HeadPublished or from there to
  ApplyingProjection, and changes nothing else of the record.
\<close>

theorem phases_advance_in_order:
  assumes "json_parser E" and "advance_phase E os l c i from_phase to_phase s = (Inr q, s')"
  shows "\<exists>p. journalled E c p s \<and> journalled E c q s' \<and> q = p\<lparr> pend_phase := to_phase \<rparr>
    \<and> pend_transition_id p = i \<and> pend_phase p = from_phase
    \<and> (from_phase = Prepared \<and> to_phase = HeadPublished \<or> from_phase = HeadPublished \<and> to_phase = ApplyingProjection)"
proof -
  obtain p where p: "read_pending E os 1 c s = Inr (Some p)" "pend_transition_id p = i" "pend_phase p = from_phase"
      "phase_allowed from_phase to_phase" "q = p\<lparr> pend_phase := to_phase \<rparr>" "write_pending E os 1 q True s = (Inr (), s')"
    using assms(2) by (auto simp: advance_phase_def op_iff result_iff Let_def)
  note j = read_pending_eq_Inr [OF p(1)] and u = journalled_utf8 [OF assms(1) read_pending_eq_Inr [OF p(1)]]
  have "journalled E c q s'"
    using write_pending_effect [OF p(6) assms(1)] u(1,3) p(5) by (auto simp: pending_typed_def)
  with j p(2-5) show ?thesis by (auto simp: phase_allowed_def)
qed

theorem phases_advance_in_order_witness:
  "\<exists>s'. journalled sample_env ''T-1'' (sample_record\<lparr> pend_phase := HeadPublished \<rparr>) s'"
proof -
  obtain s' where "advance_phase sample_env sample_os ''T-1'' ''T-1'' (pend_transition_id sample_record) Prepared HeadPublished sample_recorded
      = (Inr (sample_record\<lparr> pend_phase := HeadPublished \<rparr>), s')"
    using advance_phase_healthy [OF sample_record_ok(1) sample_json_parser sample_record_ok(3,4,5), of sample_recorded HeadPublished]
      sample_record_ok(2) by (simp add: sample_recorded_def phase_allowed_def)
  from phases_advance_in_order [OF sample_json_parser this] show ?thesis by blast
qed

text \<open>
  C28: an acknowledgement clears the record it names and no other: it returns true only when the
  journal held the record with that identifier, which is then gone while the records of other
  chains stay, and false only when it left the store alone.
\<close>

theorem acknowledge_is_exact:
  assumes "acknowledge E os l c i s = (Inr done, s')"
  shows "if done then (\<exists>p. journalled E c p s \<and> pend_transition_id p = i) \<and> map_of (st_pending s') c = None
      \<and> (\<forall>d. d \<noteq> c \<longrightarrow> map_of (st_pending s') d = map_of (st_pending s) d) \<and> st_heads s' = st_heads s \<and> st_cas s' = st_cas s
    else s' = s"
  using assms
  by (auto simp: acknowledge_def op_iff split: option.splits if_splits dest!: read_pending_eq_Inr)

theorem acknowledge_is_exact_witness:
  "\<exists>s'. acknowledge sample_env sample_os ''T-1'' ''T-1'' (pend_transition_id sample_record) sample_recorded = (Inr True, s')
     \<and> map_of (st_pending s') ''T-1'' = None"
proof -
  have "read_pending sample_env sample_os 0 ''T-1'' sample_recorded = Inr (Some sample_record)"
    using sample_journalled sample_record_ok(1,2) by (auto simp: read_pending_def journalled_def)
  then obtain s' where s': "acknowledge sample_env sample_os ''T-1'' ''T-1'' (pend_transition_id sample_record) sample_recorded = (Inr True, s')"
    using sample_record_ok(1) by (simp add: acknowledge_def op_bind_run ensure_protects_def ensure_lock_protects_def)
  from acknowledge_is_exact [OF this] s' show ?thesis by auto
qed



text \<open>
  C16: a publication is compare-and-set: whatever it returns, it leaves the objects alone, and
  if it changed the heads then the head of the chain was the expected one, the new head is the
  signed reference to the target, and the journal holds the matching pending Set.
\<close>

theorem publish_is_compare_and_set:
  assumes "publish_chain_head E os clock au expected target ts s = (r, s')" and "json_parser E"
    and "valid_utf8 (au_chain_root_id au)" and "st_heads s' \<noteq> st_heads s"
  shows "st_cas s' = st_cas s \<and> head_target E (au_trust au) (au_chain_root_id au) s = expected
    \<and> (\<exists>bytes p. encode_signed_ref E (au_signer au) (head_ref au target ts) = Inr bytes
         \<and> st_heads s' = bt_insert (au_chain_root_id au) bytes (st_heads s)
         \<and> journalled E (au_chain_root_id au) p s' \<and> pend_operation p = OpSet
         \<and> pend_target_hash p = Some target \<and> pend_expected_previous_hash p = expected)"
  using publish_effect [OF assms(1-3)] assms(4) expected_head [of E os 1 au expected s] by blast

theorem publish_is_compare_and_set_witness:
  "\<exists>s s'. publish_chain_head sample_env sample_os 1700000000 sample_authority None (hash_chain_state sample_env sample_genesis)
       ''2023-11-14T22:13:20Z'' s = (Inr (), s') \<and> st_heads s' \<noteq> st_heads s \<and> head_target sample_env sample_trust ''T-1'' s = None"
proof -
  let ?s = "sample_idle\<lparr> st_heads := [] \<rparr>" and ?h = "hash_chain_state sample_env sample_genesis"
  have au: "au_trust sample_authority = sample_trust" "au_chain_root_id sample_authority = ''T-1''" "au_lock_chain sample_authority = ''T-1''"
    by (simp_all add: sample_authority_def)
  obtain v where v: "get_object sample_env (st_cas ?s) ?h = Inr (Some v)"
    using sample_genesis_loads by (auto simp: load_hashed_chain_state_def load_hashed_def result_iff sample_idle_def)
  have none: "read_verified_head sample_env sample_trust ''T-1'' ?s = Inr None" by (simp add: read_verified_head_def read_verified_ref_def)
  then have current: "verify_expected_current_head sample_env sample_os 1 sample_authority None ?s = Inr ()"
    using sample_record_ok(1) by (simp add: verify_expected_current_head_def ensure_lock_protects_def au)
  have may: "may_publish sample_env sample_os 1700000000 sample_authority ?s"
    using sample_appendable(1) [of 0] by (simp add: may_publish_def sample_idle_def sample_os_def)
  obtain s' where p: "publish_chain_head sample_env sample_os 1700000000 sample_authority None ?h ''2023-11-14T22:13:20Z'' ?s = (Inr (), s')"
      "published_at sample_env sample_authority None ?h ?s s'"
    by (rule publish_healthy [OF sample_laws may current _ sample_clock(2) v]) simp_all
  have ne: "st_heads s' \<noteq> st_heads ?s"
  proof
    assume "st_heads s' = st_heads ?s"
    then have "read_verified_head sample_env sample_trust ''T-1'' s' = Inr None" using none by (simp add: read_verified_head_def)
    then show False using p(2) by (simp add: published_at_def head_target_def au)
  qed
  have utf8: "valid_utf8 (au_chain_root_id sample_authority)" using may by (simp add: may_publish_def)
  from publish_is_compare_and_set [OF p(1) sample_json_parser utf8 ne] p(1) ne show ?thesis unfolding au by blast
qed

section \<open>Refinement and the cache\<close>

text \<open>
  C5: the store implements append-only logs: through the view that reads from a verified head
  the sequence of its states, every step of the authority keeps all logs, starts one, appends to
  one or drops one.
\<close>

theorem authority_refines_logs:
  assumes "laws E" and "(authority_step E trust)\<^sup>*\<^sup>* empty_store s" and "authority_step E trust s s'"
  shows "log_step (chain_log E trust s) (chain_log E trust s')"
  using assms(3) reachable_valid [OF assms(1,2)] assms(1) by (intro authority_log.refines) simp_all

theorem authority_refines_logs_witness:
  "log_step (chain_log sample_env sample_trust empty_store) (chain_log sample_env sample_trust sample_store)
     \<and> chain_log sample_env sample_trust empty_store ''T-1'' = None
     \<and> chain_log sample_env sample_trust sample_store ''T-1'' \<noteq> None"
proof (rule sample_created)
  fix r assume c: "create_chain sample_env sample_os sample_authority sample_root empty_store = (Inr r, sample_store)"
  have au: "au_trust sample_authority = sample_trust" by (simp add: sample_authority_def)
  have "log_step (chain_log sample_env sample_trust empty_store) (chain_log sample_env sample_trust sample_store)"
    by (rule authority_refines_logs [OF sample_laws rtranclp.rtrancl_refl authority_step.create [OF au sample_encodable c]])
  moreover have "chain_log sample_env sample_trust empty_store ''T-1'' = None"
    by (rule chain_log_none) (simp add: head_target_def read_verified_head_def read_verified_ref_def empty_store_def)
  moreover have "chain_log sample_env sample_trust sample_store ''T-1'' \<noteq> None"
    by (rule chain_log_valid [OF reachable_valid [OF sample_laws sample_reachable] sample_head_target]) simp
  ultimately show ?thesis by blast
qed

text \<open>
  C22: the head cache is transparent: in every store the authority reaches, reading a snapshot
  returns the same with the cache as with an empty one, when the operating system answers.
\<close>

theorem reads_ignore_cache:
  assumes "laws E" and "(authority_step E (au_trust au))\<^sup>*\<^sup>* empty_store s" and "healthy os"
  shows "fst (read_thread_snapshot E os au t s) = fst (read_thread_snapshot E os au t (s\<lparr> st_cache := [] \<rparr>))"
  using reachable_coherent [OF assms(1,2)] assms(3) by (intro cached_read_agrees) simp_all

theorem reads_ignore_cache_witness:
  "fst (read_thread_snapshot sample_env sample_os sample_authority ''T-1'' sample_store)
     = fst (read_thread_snapshot sample_env sample_os sample_authority ''T-1'' (sample_store\<lparr> st_cache := [] \<rparr>))"
proof -
  have "(authority_step sample_env (au_trust sample_authority))\<^sup>*\<^sup>* empty_store sample_store"
    using sample_reachable by (simp add: sample_authority_def)
  from reads_ignore_cache [OF sample_laws this sample_record_ok(1)] show ?thesis .
qed

end
